(* ===== verification/Prelude.thy ===== *)
theory Prelude
  imports Main "HOL-Library.Word"
begin

unbundle bit_operations_syntax

text \<open>
  The vocabulary the component theories share: the C integer types of the i386 target, the
  build flags that select a profile, the byte-addressed memory with its little-endian 16- and
  32-bit accesses, the address alignment idiom \<open>(value + (align - 1)) & ~(align - 1)\<close> that five
  source files repeat, and singly linked lists threaded through memory.
\<close>

section \<open>Machine types and build flags\<close>

type_synonym u8 = "8 word"
type_synonym u16 = "16 word"
type_synonym u32 = "32 word"
type_synonym u64 = "64 word"

text \<open>
  \<open>real_time_mode\<close> is \<open>LPL_KERNEL_REAL_TIME_MODE\<close> (the client profile; off is the server profile)
  and \<open>debug_poison\<close> is \<open>LPL_KERNEL_DEBUG_POISON\<close>.
\<close>

record build_flags =
  real_time_mode :: bool
  debug_poison :: bool

named_theorems mem_simps \<open>reads of the byte memory after writes\<close>
named_theorems word_nat \<open>values of machine words as natural numbers\<close>

section \<open>Byte memory\<close>

type_synonym mem = "u32 \<Rightarrow> u8"

definition load16 :: "mem \<Rightarrow> u32 \<Rightarrow> u16" where
  "load16 m a = ucast (m a) OR push_bit 8 (ucast (m (a + 1)))"

definition store16 :: "mem \<Rightarrow> u32 \<Rightarrow> u16 \<Rightarrow> mem" where
  "store16 m a v = m(a := ucast v, a + 1 := ucast (drop_bit 8 v))"

definition load32 :: "mem \<Rightarrow> u32 \<Rightarrow> u32" where
  "load32 m a = ucast (m a) OR push_bit 8 (ucast (m (a + 1)))
     OR push_bit 16 (ucast (m (a + 2))) OR push_bit 24 (ucast (m (a + 3)))"

definition store32 :: "mem \<Rightarrow> u32 \<Rightarrow> u32 \<Rightarrow> mem" where
  "store32 m a v = m(a := ucast v, a + 1 := ucast (drop_bit 8 v),
     a + 2 := ucast (drop_bit 16 v), a + 3 := ucast (drop_bit 24 v))"

text \<open>
  Two byte ranges, of \<open>n\<close> bytes at \<open>a\<close> and of \<open>k\<close> bytes at \<open>b\<close>, that share no byte. Differences
  are taken in the 32-bit address space, so the definition also covers ranges that wrap.
\<close>

definition apart :: "u32 \<Rightarrow> nat \<Rightarrow> u32 \<Rightarrow> nat \<Rightarrow> bool" where
  "apart a n b k \<longleftrightarrow> n \<le> unat (b - a) \<and> k \<le> unat (a - b)"

lemma apart_sym: "apart a n b k \<longleftrightarrow> apart b k a n"
  by (auto simp: apart_def)

lemma apart_ge:
  assumes "apart a n b k" and "unat (x - b) < k"
  shows "n \<le> unat (x - a)"
  using assms unfolding apart_def by unat_arith

lemma store32_other: "4 \<le> unat (x - a) \<Longrightarrow> store32 m a v x = m x"
  by (auto simp: store32_def)

lemma store16_other: "2 \<le> unat (x - a) \<Longrightarrow> store16 m a v x = m x"
  by (auto simp: store16_def)

lemma load32_cong: "(\<And>x. unat (x - a) < 4 \<Longrightarrow> m x = m' x) \<Longrightarrow> load32 m a = load32 m' a"
  by (simp add: load32_def)

lemma load16_cong: "(\<And>x. unat (x - a) < 2 \<Longrightarrow> m x = m' x) \<Longrightarrow> load16 m a = load16 m' a"
  by (simp add: load16_def)

lemma four_bytes:
  fixes v :: u32
  shows "ucast (ucast v :: u8) OR push_bit 8 (ucast (ucast (drop_bit 8 v) :: u8))
     OR push_bit 16 (ucast (ucast (drop_bit 16 v) :: u8))
     OR push_bit 24 (ucast (ucast (drop_bit 24 v) :: u8)) = v" (is "?w = v")
proof (rule bit_word_eqI)
  fix n assume "n < LENGTH(32)"
  then consider "n < 8" | "8 \<le> n" "n < 16" | "16 \<le> n" "n < 24" | "24 \<le> n" "n < 32"
    by fastforce
  then show "bit ?w n = bit v n"
    by cases (auto simp: bit_simps)
qed

lemma load32_store32 [simp, mem_simps]: "load32 (store32 m a v) a = v"
  using four_bytes [of v] by (simp add: load32_def store32_def)

lemma load16_store16 [simp, mem_simps]: "load16 (store16 m a v) a = v"
proof (rule bit_word_eqI)
  fix n assume "n < LENGTH(16)"
  then consider "n < 8" | "8 \<le> n" "n < 16" by fastforce
  then show "bit (load16 (store16 m a v) a) n = bit v n"
    by cases (auto simp: bit_simps load16_def store16_def)
qed

lemma load32_store32_apart: "apart a 4 b 4 \<Longrightarrow> load32 (store32 m a v) b = load32 m b"
  by (rule load32_cong, rule store32_other) (rule apart_ge)

lemma dvd_sub_u32:
  assumes "4 dvd unat (a :: u32)" and "4 dvd unat b"
  shows "4 dvd unat (b - a)"
  using assms by (auto simp: unat_sub_if')

lemma apart_aligned:
  assumes "4 dvd unat a" and "4 dvd unat b" and "a \<noteq> b"
  shows "apart a 4 b 4"
proof -
  have "unat (b - a) \<noteq> 0" and "unat (a - b) \<noteq> 0"
    using assms by (auto simp: unat_eq_zero)
  then show ?thesis
    using dvd_sub_u32 [of a b] dvd_sub_u32 [of b a] assms
    unfolding apart_def by (auto dest!: dvd_imp_le)
qed

lemma load32_store32_aligned [mem_simps]:
  "4 dvd unat a \<Longrightarrow> 4 dvd unat b \<Longrightarrow> a \<noteq> b \<Longrightarrow> load32 (store32 m a v) b = load32 m b"
  by (rule load32_store32_apart) (rule apart_aligned)

section \<open>Alignment\<close>

definition align_up :: "u32 \<Rightarrow> u32 \<Rightarrow> u32" where
  "align_up value align = (value + (align - 1)) AND NOT (align - 1)"

lemma unat_2p [word_nat]: "k < 32 \<Longrightarrow> unat ((2::u32) ^ k) = 2 ^ k"
proof -
  assume "k < 32"
  then have "(2::nat) ^ k < 2 ^ 32" by (rule power_strict_increasing) simp
  then have "unat (of_nat (2 ^ k) :: u32) = 2 ^ k" by (subst unat_of_nat) simp
  then show ?thesis by simp
qed

lemma and_not_low:
  fixes x :: u32
  assumes "k < 32"
  shows "x AND NOT (2 ^ k - 1) = x - x mod 2 ^ k"
proof -
  have "x AND NOT (2 ^ k - 1) = push_bit k (drop_bit k x)"
    using assms by (auto simp: bit_eq_iff bit_simps simp flip: mask_eq_exp_minus_1)
  also have "\<dots> = x - take_bit k x"
    using bits_ident [of k x] by (metis add_diff_cancel_right')
  finally show ?thesis by (simp add: take_bit_eq_mod)
qed

lemma unat_and_not_low [word_nat]:
  fixes x :: u32
  assumes "k < 32"
  shows "unat (x AND NOT (2 ^ k - 1)) = unat x - unat x mod 2 ^ k"
proof -
  have "unat (x mod 2 ^ k) = unat x mod 2 ^ k"
    using assms by (simp add: unat_mod unat_2p)
  moreover from this have "x mod 2 ^ k \<le> x" by (simp add: word_le_nat_alt)
  ultimately show ?thesis
    using assms by (simp add: and_not_low unat_sub)
qed

lemma unat_align_up [word_nat]:
  assumes "k < 32" and "unat v + 2 ^ k - 1 < 2 ^ 32"
  shows "unat (align_up v (2 ^ k)) = ((unat v + 2 ^ k - 1) div 2 ^ k) * 2 ^ k"
proof -
  have p: "unat ((2::u32) ^ k - 1) = 2 ^ k - 1"
    using assms(1) unat_2p [of k]
    by (metis unat_minus_one unat_eq_zero power_not_zero zero_neq_numeral power_eq_0_iff)
  have "unat (v + (2 ^ k - 1)) = unat v + 2 ^ k - 1"
    using assms(2) p by (simp add: unat_word_ariths(1))
  then show ?thesis
    using assms(1) by (simp add: align_up_def unat_and_not_low minus_mod_eq_div_mult)
qed

lemma unat_and_ones: "unat (x AND (2 ^ k - 1)) = unat x mod 2 ^ k" for x :: "'a::len word"
  by (simp add: unsigned_take_bit_eq flip: mask_eq_exp_minus_1 take_bit_eq_mask) (simp add: take_bit_eq_mod)

lemma unat_and_mask: "k < 32 \<Longrightarrow> unat ((x::u32) AND (2 ^ k - 1)) = unat x mod 2 ^ k"
  by (rule unat_and_ones)

lemma and_mask_zero: "k < 32 \<Longrightarrow> (x::u32) AND (2 ^ k - 1) = 0 \<longleftrightarrow> 2 ^ k dvd unat x"
  by (simp add: word_unat_eq_iff unat_and_mask dvd_eq_mod_eq_0)

section \<open>Linked lists in memory\<close>

text \<open>
  \<open>chain nxt p xs\<close>: following \<open>nxt\<close> from \<open>p\<close> visits exactly the nodes \<open>xs\<close> and ends at the null
  pointer. Every intrusive list of the kernel (page frames, slab and pool slots, heap blocks)
  is a chain for the field that holds its link.
\<close>

primrec chain :: "(u32 \<Rightarrow> u32) \<Rightarrow> u32 \<Rightarrow> u32 list \<Rightarrow> bool" where
  "chain nxt p [] \<longleftrightarrow> p = 0"
| "chain nxt p (x # xs) \<longleftrightarrow> p = x \<and> x \<noteq> 0 \<and> chain nxt (nxt x) xs"

lemma chain_null [simp]: "chain nxt 0 xs \<longleftrightarrow> xs = []"
  by (cases xs) auto

lemma chain_nonnull: "p \<noteq> 0 \<Longrightarrow> chain nxt p xs \<longleftrightarrow> (\<exists>ys. xs = p # ys \<and> chain nxt (nxt p) ys)"
  by (cases xs) auto

lemma chain_unique: "chain nxt p xs \<Longrightarrow> chain nxt p ys \<Longrightarrow> xs = ys"
  by (induction xs arbitrary: p ys) (auto simp: chain_nonnull)

lemma chain_not_null: "chain nxt p xs \<Longrightarrow> 0 \<notin> set xs"
  by (induction xs arbitrary: p) auto

lemma chain_cong: "(\<And>x. x \<in> set xs \<Longrightarrow> nxt x = nxt' x) \<Longrightarrow> chain nxt p xs \<longleftrightarrow> chain nxt' p xs"
  by (induction xs arbitrary: p) auto

lemma chain_upd [simp]: "a \<notin> set xs \<Longrightarrow> chain (nxt(a := v)) p xs \<longleftrightarrow> chain nxt p xs"
  by (rule chain_cong) auto

lemma chain_suffix: "chain nxt p (as @ x # bs) \<Longrightarrow> chain nxt x (x # bs)"
  by (induction as arbitrary: p) auto

lemma chain_distinct: "chain nxt p xs \<Longrightarrow> distinct xs"
proof (induction xs arbitrary: p)
  case (Cons x xs)
  then have ch: "chain nxt (nxt x) xs" and x: "x \<noteq> 0" by auto
  have "x \<notin> set xs"
  proof
    assume "x \<in> set xs"
    then obtain as bs where xs: "xs = as @ x # bs" by (meson split_list)
    from ch have "chain nxt x (x # bs)" unfolding xs by (rule chain_suffix)
    moreover from Cons.prems have "chain nxt x (x # xs)" by simp
    ultimately have "x # bs = x # xs" by (rule chain_unique)
    with xs show False by simp
  qed
  with Cons.IH ch show ?case by auto
qed simp

lemma chain_remove_middle:
  assumes "chain nxt p (as @ q # x # bs)" and "distinct (as @ q # x # bs)"
  shows "chain (nxt(q := nxt x)) p (as @ q # bs)"
  using assms by (induction as arbitrary: p) auto

lemma chain_insert_after:
  assumes "chain nxt p (as @ q # bs)" and "distinct (as @ q # bs)"
    and "x \<notin> set (as @ q # bs)" and "x \<noteq> 0"
  shows "chain (nxt(x := nxt q, q := x)) p (as @ q # x # bs)"
  using assms by (induction as arbitrary: p) auto

end
