(* ===== verification/Cpu_Topology.thy ===== *)
theory Cpu_Topology
  imports Prelude
begin

text \<open>
  \<open>src/kernel/arch/i386/cpu/cpu_topology.c\<close>: the table from local-APIC ids to logical CPU slots,
  and which slots are online. The fixed arrays of 32 entries are lists; a loop with an early
  return is \<^const>\<open>find\<close> over the index range. What the CPUID instruction returns is an argument.
\<close>

abbreviation (input) CPU_TOPOLOGY_MAX_LOGICAL_CPUS :: nat where
  "CPU_TOPOLOGY_MAX_LOGICAL_CPUS \<equiv> 32"

abbreviation CPU_TOPOLOGY_INVALID_APIC_ID :: u32 where
  "CPU_TOPOLOGY_INVALID_APIC_ID \<equiv> 0xFFFFFFFF"

record cpu_topology =
  topo_initialized :: bool
  forced_slot_enabled :: bool
  forced_slot :: u32
  apic_id_valid :: bool
  local_apic_id :: u32
  apic_id_to_slot :: "u32 list"
  discovered_cpu_count :: nat
  online_by_slot :: "bool list"
  online_cpu_count :: nat
  slot_domain :: "u32 list"
  source_name :: string

definition cpu_topology_static :: cpu_topology where
  "cpu_topology_static = \<lparr>
     topo_initialized = False, forced_slot_enabled = False, forced_slot = 0,
     apic_id_valid = False, local_apic_id = 0, apic_id_to_slot = replicate 32 0,
     discovered_cpu_count = 0, online_by_slot = replicate 32 False, online_cpu_count = 0,
     slot_domain = replicate 32 0, source_name = ''topology-uninitialized''\<rparr>"

definition cpu_topology_reset_discovery :: "cpu_topology \<Rightarrow> cpu_topology" where
  "cpu_topology_reset_discovery t = t\<lparr>
     discovered_cpu_count := 0,
     online_cpu_count := 0,
     apic_id_to_slot := replicate CPU_TOPOLOGY_MAX_LOGICAL_CPUS CPU_TOPOLOGY_INVALID_APIC_ID,
     online_by_slot := replicate CPU_TOPOLOGY_MAX_LOGICAL_CPUS False,
     slot_domain := map of_nat [0..<CPU_TOPOLOGY_MAX_LOGICAL_CPUS]\<rparr>"

definition cpu_topology_register_apic_id_internal ::
    "u32 \<Rightarrow> cpu_topology \<Rightarrow> u32 \<times> cpu_topology" where
  "cpu_topology_register_apic_id_internal apic_id t =
     (case find (\<lambda>slot. apic_id_to_slot t ! slot = apic_id) [0..<discovered_cpu_count t] of
        Some slot \<Rightarrow> (of_nat slot, t)
      | None \<Rightarrow>
          if discovered_cpu_count t < CPU_TOPOLOGY_MAX_LOGICAL_CPUS then
            let slot = discovered_cpu_count t in
              (of_nat slot, t\<lparr>apic_id_to_slot := (apic_id_to_slot t)[slot := apic_id],
                              discovered_cpu_count := Suc slot\<rparr>)
          else (apic_id, t))"

definition cpu_topology_detect_from_cpuid :: "u32 \<Rightarrow> u32 \<Rightarrow> cpu_topology \<Rightarrow> cpu_topology" where
  "cpu_topology_detect_from_cpuid ebx edx t =
     (if edx AND push_bit 9 1 = 0 then
        t\<lparr>apic_id_valid := False, local_apic_id := 0,
          source_name := ''topology-cpuid-no-apic''\<rparr>
      else
        let i = drop_bit 24 ebx AND 0xFF in
          snd (cpu_topology_register_apic_id_internal i
            (t\<lparr>local_apic_id := i, apic_id_valid := True,
               source_name := ''topology-cpuid-apic-id''\<rparr>)))"

definition cpu_topology_mark_apic_id_online :: "u32 \<Rightarrow> cpu_topology \<Rightarrow> cpu_topology" where
  "cpu_topology_mark_apic_id_online apic_id t =
     (let (slot, t) = cpu_topology_register_apic_id_internal (apic_id AND 0xFF) t in
      if CPU_TOPOLOGY_MAX_LOGICAL_CPUS \<le> unat slot then t
      else if \<not> online_by_slot t ! unat slot then
        t\<lparr>online_by_slot := (online_by_slot t)[unat slot := True],
          online_cpu_count := Suc (online_cpu_count t)\<rparr>
      else t)"

definition cpu_topology_unmark_apic_id_online :: "u32 \<Rightarrow> cpu_topology \<Rightarrow> cpu_topology" where
  "cpu_topology_unmark_apic_id_online apic_id t =
     (let (slot, t) = cpu_topology_register_apic_id_internal (apic_id AND 0xFF) t in
      if CPU_TOPOLOGY_MAX_LOGICAL_CPUS \<le> unat slot then t
      else if online_by_slot t ! unat slot then
        t\<lparr>online_by_slot := (online_by_slot t)[unat slot := False],
          online_cpu_count := (if 0 < online_cpu_count t then online_cpu_count t - 1
                               else online_cpu_count t)\<rparr>
      else t)"

definition cpu_topology_mark_runtime_cpu_online :: "cpu_topology \<Rightarrow> cpu_topology" where
  "cpu_topology_mark_runtime_cpu_online t =
     (if \<not> apic_id_valid t then t else cpu_topology_mark_apic_id_online (local_apic_id t) t)"

definition cpu_topology_initialize :: "u32 \<Rightarrow> u32 \<Rightarrow> cpu_topology \<Rightarrow> cpu_topology" where
  "cpu_topology_initialize ebx edx t =
     (let t = cpu_topology_reset_discovery t;
          t = cpu_topology_detect_from_cpuid ebx edx t;
          t = (if discovered_cpu_count t = 0 then t\<lparr>discovered_cpu_count := 1\<rparr> else t);
          t = t\<lparr>topo_initialized := True, forced_slot_enabled := False, forced_slot := 0\<rparr>
      in cpu_topology_mark_runtime_cpu_online t)"

definition cpu_topology_get_logical_slot :: "cpu_topology \<Rightarrow> u32 \<times> cpu_topology" where
  "cpu_topology_get_logical_slot t =
     (if forced_slot_enabled t then (forced_slot t, t)
      else if apic_id_valid t then cpu_topology_register_apic_id_internal (local_apic_id t) t
      else (0, t))"

definition cpu_topology_register_discovered_apic_id ::
    "u32 \<Rightarrow> cpu_topology \<Rightarrow> u32 \<times> cpu_topology" where
  "cpu_topology_register_discovered_apic_id apic_id t =
     cpu_topology_register_apic_id_internal (apic_id AND 0xFF) t"

definition cpu_topology_set_runtime_local_apic_id :: "u32 \<Rightarrow> cpu_topology \<Rightarrow> cpu_topology" where
  "cpu_topology_set_runtime_local_apic_id apic_id t =
     (let t = t\<lparr>local_apic_id := apic_id AND 0xFF, apic_id_valid := True\<rparr>;
          t = snd (cpu_topology_register_apic_id_internal (local_apic_id t) t)
      in if \<not> forced_slot_enabled t then t\<lparr>source_name := ''topology-runtime-apic-id''\<rparr> else t)"

definition cpu_topology_is_logical_slot_online :: "u32 \<Rightarrow> cpu_topology \<Rightarrow> bool" where
  "cpu_topology_is_logical_slot_online slot t =
     (if CPU_TOPOLOGY_MAX_LOGICAL_CPUS \<le> unat slot then False else online_by_slot t ! unat slot)"

definition cpu_topology_bind_slot_to_domain :: "u32 \<Rightarrow> u32 \<Rightarrow> cpu_topology \<Rightarrow> cpu_topology" where
  "cpu_topology_bind_slot_to_domain slot domain t =
     (if unat slot < CPU_TOPOLOGY_MAX_LOGICAL_CPUS
      then t\<lparr>slot_domain := (slot_domain t)[unat slot := domain]\<rparr> else t)"

definition cpu_topology_get_slot_domain :: "u32 \<Rightarrow> cpu_topology \<Rightarrow> u32" where
  "cpu_topology_get_slot_domain slot t =
     (if CPU_TOPOLOGY_MAX_LOGICAL_CPUS \<le> unat slot then 0 else slot_domain t ! unat slot)"

definition cpu_topology_get_apic_id_at_slot :: "u32 \<Rightarrow> cpu_topology \<Rightarrow> u32" where
  "cpu_topology_get_apic_id_at_slot slot t =
     (if CPU_TOPOLOGY_MAX_LOGICAL_CPUS \<le> unat slot then 0xFF
      else let apic_id = apic_id_to_slot t ! unat slot in
        if apic_id = CPU_TOPOLOGY_INVALID_APIC_ID then 0xFF else apic_id AND 0xFF)"

definition cpu_topology_get_slot_for_apic_id :: "u32 \<Rightarrow> cpu_topology \<Rightarrow> u32" where
  "cpu_topology_get_slot_for_apic_id apic_id t =
     (case find (\<lambda>slot. apic_id_to_slot t ! slot = apic_id) [0..<CPU_TOPOLOGY_MAX_LOGICAL_CPUS] of
        Some slot \<Rightarrow> of_nat slot
      | None \<Rightarrow> CPU_TOPOLOGY_INVALID_APIC_ID)"

definition cpu_topology_debug_force_logical_slot :: "u32 \<Rightarrow> cpu_topology \<Rightarrow> cpu_topology" where
  "cpu_topology_debug_force_logical_slot slot t =
     t\<lparr>forced_slot := slot, forced_slot_enabled := True, source_name := ''topology-forced-slot''\<rparr>"

definition cpu_topology_debug_reset_discovery :: "cpu_topology \<Rightarrow> cpu_topology" where
  "cpu_topology_debug_reset_discovery t = (cpu_topology_reset_discovery t)\<lparr>
     apic_id_valid := False, local_apic_id := 0, source_name := ''topology-debug-reset''\<rparr>"

definition cpu_topology_debug_clear_forced_logical_slot :: "cpu_topology \<Rightarrow> cpu_topology" where
  "cpu_topology_debug_clear_forced_logical_slot t =
     t\<lparr>forced_slot_enabled := False, forced_slot := 0,
       source_name := (if apic_id_valid t then ''topology-cpuid-apic-id''
                       else ''topology-cpuid-no-apic'')\<rparr>"

section \<open>The table invariant\<close>

text \<open>
  At most 32 slots are in use, no two of them hold the same APIC id, the unused ones are empty,
  and the online counter is the number of online slots.
\<close>

definition topology_inv :: "cpu_topology \<Rightarrow> bool" where
  "topology_inv t \<longleftrightarrow>
     length (apic_id_to_slot t) = 32 \<and> length (online_by_slot t) = 32 \<and>
     discovered_cpu_count t \<le> 32 \<and>
     distinct (take (discovered_cpu_count t) (apic_id_to_slot t)) \<and>
     online_cpu_count t = length (filter id (online_by_slot t))"

lemma find_index_Some:
  "find P [0..<n] = Some i \<Longrightarrow> i < n \<and> P i"
  by (auto simp: find_Some_iff)

lemma find_index_None: "find P [0..<n] = None \<longleftrightarrow> (\<forall>i<n. \<not> P i)"
  by (auto simp: find_None_iff)

lemma length_filter_update_True:
  "i < length xs \<Longrightarrow> \<not> xs ! i \<Longrightarrow>
     length (filter id (xs[i := True])) = Suc (length (filter id xs))"
  by (induction xs arbitrary: i) (auto split: nat.splits)

lemma length_filter_update_False:
  "i < length xs \<Longrightarrow> xs ! i \<Longrightarrow>
     Suc (length (filter id (xs[i := False]))) = length (filter id xs)"
  by (induction xs arbitrary: i) (auto split: nat.splits)

lemma register_not_found:
  assumes "topology_inv t" and "\<forall>i<discovered_cpu_count t. apic_id_to_slot t ! i \<noteq> a"
    and "discovered_cpu_count t < 32"
  shows "distinct (take (Suc (discovered_cpu_count t)) ((apic_id_to_slot t)[discovered_cpu_count t := a]))"
  using assms by (auto simp: topology_inv_def take_Suc_conv_app_nth set_conv_nth)

lemma topology_inv_register:
  "topology_inv t \<Longrightarrow> topology_inv (snd (cpu_topology_register_apic_id_internal a t))"
  using register_not_found [of t a]
  by (auto simp: cpu_topology_register_apic_id_internal_def Let_def find_index_None topology_inv_def
      split: option.splits)

lemma register_frame:
  "snd (cpu_topology_register_apic_id_internal a t) =
     t\<lparr>apic_id_to_slot := apic_id_to_slot (snd (cpu_topology_register_apic_id_internal a t)),
       discovered_cpu_count := discovered_cpu_count (snd (cpu_topology_register_apic_id_internal a t))\<rparr>"
  by (simp add: cpu_topology_register_apic_id_internal_def Let_def split: option.split)

lemma topology_inv_reset: "topology_inv (cpu_topology_reset_discovery t)"
  by (simp add: topology_inv_def cpu_topology_reset_discovery_def)

lemma register_slot_bound:
  assumes "topology_inv t" and "discovered_cpu_count t < 32 \<or> (\<exists>i<discovered_cpu_count t. apic_id_to_slot t ! i = a)"
  shows "unat (fst (cpu_topology_register_apic_id_internal a t))
           < discovered_cpu_count (snd (cpu_topology_register_apic_id_internal a t))"
    and "apic_id_to_slot (snd (cpu_topology_register_apic_id_internal a t))
           ! unat (fst (cpu_topology_register_apic_id_internal a t)) = a"
proof -
  have small: "unat (of_nat n :: u32) = n" if "n \<le> 32" for n
    using that by (simp add: unat_of_nat)
  show "unat (fst (cpu_topology_register_apic_id_internal a t))
           < discovered_cpu_count (snd (cpu_topology_register_apic_id_internal a t))"
    and "apic_id_to_slot (snd (cpu_topology_register_apic_id_internal a t))
           ! unat (fst (cpu_topology_register_apic_id_internal a t)) = a"
    using assms
    by (auto simp: cpu_topology_register_apic_id_internal_def Let_def find_index_None topology_inv_def small
        dest!: find_index_Some split: option.splits)
qed

lemma topology_inv_mark_slot:
  assumes "topology_inv t" and "s < 32" and "\<not> online_by_slot t ! s"
  shows "topology_inv (t\<lparr>online_by_slot := (online_by_slot t)[s := True],
                         online_cpu_count := Suc (online_cpu_count t)\<rparr>)"
  using assms by (simp add: topology_inv_def length_filter_update_True)

lemma topology_inv_unmark_slot:
  assumes "topology_inv t" and "s < 32" and "online_by_slot t ! s"
  shows "0 < online_cpu_count t"
    and "topology_inv (t\<lparr>online_by_slot := (online_by_slot t)[s := False],
                         online_cpu_count := online_cpu_count t - Suc 0\<rparr>)"
  using assms length_filter_update_False [of s "online_by_slot t"]
  by (auto simp: topology_inv_def)

lemma topology_inv_mark: "topology_inv t \<Longrightarrow> topology_inv (cpu_topology_mark_apic_id_online a t)"
  using topology_inv_register [of t "a AND 0xFF"]
  by (auto simp: cpu_topology_mark_apic_id_online_def split_beta intro!: topology_inv_mark_slot)

lemma topology_inv_unmark: "topology_inv t \<Longrightarrow> topology_inv (cpu_topology_unmark_apic_id_online a t)"
  using topology_inv_register [of t "a AND 0xFF"]
    topology_inv_unmark_slot [of "snd (cpu_topology_register_apic_id_internal (a AND 0xFF) t)"
      "unat (fst (cpu_topology_register_apic_id_internal (a AND 0xFF) t))"]
  by (auto simp: cpu_topology_unmark_apic_id_online_def split_beta not_le)

lemma topology_inv_frame [simp]:
  "topology_inv (t\<lparr>local_apic_id := i\<rparr>) \<longleftrightarrow> topology_inv t"
  "topology_inv (t\<lparr>apic_id_valid := v\<rparr>) \<longleftrightarrow> topology_inv t"
  "topology_inv (t\<lparr>source_name := n\<rparr>) \<longleftrightarrow> topology_inv t"
  "topology_inv (t\<lparr>slot_domain := d\<rparr>) \<longleftrightarrow> topology_inv t"
  "topology_inv (t\<lparr>forced_slot := f\<rparr>) \<longleftrightarrow> topology_inv t"
  "topology_inv (t\<lparr>forced_slot_enabled := v\<rparr>) \<longleftrightarrow> topology_inv t"
  "topology_inv (t\<lparr>topo_initialized := v\<rparr>) \<longleftrightarrow> topology_inv t"
  by (simp_all add: topology_inv_def)

lemma topology_inv_initialize: "topology_inv (cpu_topology_initialize ebx edx t)"
proof -
  let ?d = "cpu_topology_detect_from_cpuid ebx edx (cpu_topology_reset_discovery t)"
  have d: "topology_inv ?d"
    by (simp add: cpu_topology_detect_from_cpuid_def Let_def topology_inv_reset
        topology_inv_register)
  have "length (apic_id_to_slot ?d) = 32" using d by (simp add: topology_inv_def)
  then have "topology_inv (?d\<lparr>discovered_cpu_count := 1\<rparr>)"
    using d by (cases "apic_id_to_slot ?d") (auto simp: topology_inv_def)
  with d show ?thesis
    by (simp add: cpu_topology_initialize_def Let_def cpu_topology_mark_runtime_cpu_online_def
        topology_inv_mark)
qed

section \<open>Reachable tables\<close>

inductive topology_step :: "cpu_topology \<Rightarrow> cpu_topology \<Rightarrow> bool" where
  initialize: "topology_step t (cpu_topology_initialize ebx edx t)"
| get_logical_slot: "topology_step t (snd (cpu_topology_get_logical_slot t))"
| register: "topology_step t (snd (cpu_topology_register_discovered_apic_id a t))"
| set_runtime: "topology_step t (cpu_topology_set_runtime_local_apic_id a t)"
| mark: "topology_step t (cpu_topology_mark_apic_id_online a t)"
| unmark: "topology_step t (cpu_topology_unmark_apic_id_online a t)"
| mark_runtime: "topology_step t (cpu_topology_mark_runtime_cpu_online t)"
| bind: "topology_step t (cpu_topology_bind_slot_to_domain slot d t)"
| force: "topology_step t (cpu_topology_debug_force_logical_slot slot t)"
| debug_reset: "topology_step t (cpu_topology_debug_reset_discovery t)"
| clear_forced: "topology_step t (cpu_topology_debug_clear_forced_logical_slot t)"

inductive topology_reachable :: "cpu_topology \<Rightarrow> bool" where
  boot: "topology_reachable (cpu_topology_initialize ebx edx t)"
| step: "topology_reachable t \<Longrightarrow> topology_step t t' \<Longrightarrow> topology_reachable t'"

lemma topology_step_inv: "topology_step t t' \<Longrightarrow> topology_inv t \<Longrightarrow> topology_inv t'"
  by (induction rule: topology_step.induct)
    (simp_all add: topology_inv_initialize topology_inv_register topology_inv_mark topology_inv_unmark
      topology_inv_reset cpu_topology_get_logical_slot_def
      cpu_topology_register_discovered_apic_id_def cpu_topology_set_runtime_local_apic_id_def Let_def
      cpu_topology_mark_runtime_cpu_online_def cpu_topology_bind_slot_to_domain_def
      cpu_topology_debug_force_logical_slot_def cpu_topology_debug_reset_discovery_def
      cpu_topology_debug_clear_forced_logical_slot_def)

text \<open>
  C8 (invariant): whatever sequence of topology operations runs after \<open>cpu_topology_initialize\<close>,
  at most 32 slots are assigned, no APIC id sits in two slots, and the online counter equals the
  number of online slots.
\<close>

theorem topology_reachable_inv: "topology_reachable t \<Longrightarrow> topology_inv t"
  by (induction rule: topology_reachable.induct) (auto intro: topology_inv_initialize topology_step_inv)

theorem topology_reachable_inv_witness:
  "topology_reachable (cpu_topology_mark_apic_id_online 7 (cpu_topology_initialize 0x03000000 0x200 cpu_topology_static)) \<and>
   topology_inv (cpu_topology_mark_apic_id_online 7 (cpu_topology_initialize 0x03000000 0x200 cpu_topology_static))"
proof -
  have "topology_reachable
      (cpu_topology_mark_apic_id_online 7 (cpu_topology_initialize 0x03000000 0x200 cpu_topology_static))"
    by (rule topology_reachable.step [OF topology_reachable.boot topology_step.mark])
  then show ?thesis using topology_reachable_inv by blast
qed

end
