(* ===== verification/Numa_Policy.thy ===== *)
theory Numa_Policy
  imports Cpu_Topology
begin

text \<open>
  \<open>src/kernel/kernel/policy/numa_policy.c\<close>: which NUMA node a CPU slot and a physical address
  belong to, read from the ACPI SRAT table. The table lies in the byte memory at \<open>srat\<close>; entry
  positions are offsets from its start. The progress messages sent to the serial port are left out.
\<close>

abbreviation (input) NUMA_POLICY_MAX_NODES :: nat where "NUMA_POLICY_MAX_NODES \<equiv> 8"
abbreviation (input) NUMA_POLICY_MAX_SLOTS :: nat where "NUMA_POLICY_MAX_SLOTS \<equiv> CPU_TOPOLOGY_MAX_LOGICAL_CPUS"
abbreviation (input) NUMA_POLICY_MAX_RANGES :: nat where "NUMA_POLICY_MAX_RANGES \<equiv> 32"

record numa_node_info =
  node_id :: u32
  memory_ranges :: u32
  cpus_bound :: u32

record numa_memory_range =
  range_base :: u32
  range_length :: u32
  range_node_id :: u32

record numa_state =
  numa_slot_to_node_map :: "u32 list"
  numa_nodes :: "numa_node_info list"
  numa_node_count :: u32
  numa_ranges :: "numa_memory_range list" \<comment> \<open>the first \<open>numa_range_count\<close> entries of the array\<close>

definition numa_state_static :: numa_state where
  "numa_state_static = \<lparr>
     numa_slot_to_node_map = replicate NUMA_POLICY_MAX_SLOTS 0,
     numa_nodes = replicate NUMA_POLICY_MAX_NODES \<lparr>node_id = 0, memory_ranges = 0, cpus_bound = 0\<rparr>,
     numa_node_count = 1,
     numa_ranges = []\<rparr>"

definition numa_note_domain :: "u32 \<Rightarrow> numa_state \<Rightarrow> numa_state" where
  "numa_note_domain domain st =
     (if numa_node_count st \<le> domain \<and> unat domain < NUMA_POLICY_MAX_NODES then
        st\<lparr>numa_node_count := domain + 1,
           numa_nodes := (numa_nodes st)[unat domain := (numa_nodes st ! unat domain)\<lparr>node_id := domain\<rparr>]\<rparr>
      else st)"

definition numa_bind_cpu :: "u32 \<Rightarrow> u32 \<Rightarrow> numa_state \<Rightarrow> numa_state" where
  "numa_bind_cpu domain slot st =
     (if unat slot < NUMA_POLICY_MAX_SLOTS then
        let st = st\<lparr>numa_slot_to_node_map := (numa_slot_to_node_map st)[unat slot := domain]\<rparr>;
            st = numa_note_domain domain st
        in if unat domain < NUMA_POLICY_MAX_NODES then
             st\<lparr>numa_nodes := (numa_nodes st)[unat domain :=
                  (numa_nodes st ! unat domain)\<lparr>cpus_bound := cpus_bound (numa_nodes st ! unat domain) + 1\<rparr>]\<rparr>
           else st
      else st)"

definition numa_bind_memory :: "u32 \<Rightarrow> u32 \<Rightarrow> u32 \<Rightarrow> numa_state \<Rightarrow> numa_state" where
  "numa_bind_memory domain base len st =
     (let st = numa_note_domain domain st in
      if unat domain < NUMA_POLICY_MAX_NODES then
        let st = st\<lparr>numa_nodes := (numa_nodes st)[unat domain :=
                     (numa_nodes st ! unat domain)\<lparr>memory_ranges := memory_ranges (numa_nodes st ! unat domain) + 1\<rparr>]\<rparr>
        in if length (numa_ranges st) < NUMA_POLICY_MAX_RANGES then
             st\<lparr>numa_ranges := numa_ranges st @ [\<lparr>range_base = base, range_length = len, range_node_id = domain\<rparr>]\<rparr>
           else st
      else st)"

text \<open>One SRAT entry of type 0 (local APIC), 2 (x2APIC) or 1 (memory), at address \<open>p\<close>.\<close>

definition numa_parse_entry :: "mem \<Rightarrow> cpu_topology \<Rightarrow> u32 \<Rightarrow> numa_state \<Rightarrow> numa_state" where
  "numa_parse_entry m topo p st =
     (let etype = m p; elen = m (p + 1) in
      if etype = 0 \<and> 16 \<le> elen then
        if load32 m (p + 4) AND 1 \<noteq> 0 then
          let domain = ucast (m (p + 2)) OR push_bit 8 (ucast (m (p + 9)))
                       OR push_bit 16 (ucast (m (p + 10))) OR push_bit 24 (ucast (m (p + 11)));
              apic_id = ucast (m (p + 3))
          in numa_bind_cpu domain (cpu_topology_get_slot_for_apic_id apic_id topo) st
        else st
      else if etype = 2 \<and> 24 \<le> elen then
        if load32 m (p + 12) AND 1 \<noteq> 0 then
          let domain = load32 m (p + 4); apic_id = load32 m (p + 8)
          in numa_bind_cpu domain (cpu_topology_get_slot_for_apic_id apic_id topo) st
        else st
      else if etype = 1 \<and> 40 \<le> elen then
        if load32 m (p + 28) AND 1 \<noteq> 0 then
          let domain = load32 m (p + 2)
          in numa_bind_memory domain (load32 m (p + 8)) (load32 m (p + 16)) st
        else st
      else st)"

text \<open>The entry loop; \<open>offset\<close> is \<open>entry_ptr - srat\<close> and \<open>len\<close> the table's length field.\<close>

function numa_parse_entries :: "mem \<Rightarrow> cpu_topology \<Rightarrow> u32 \<Rightarrow> nat \<Rightarrow> nat \<Rightarrow> numa_state \<Rightarrow> numa_state" where
  "numa_parse_entries m topo srat len offset st =
     (if offset + 2 \<le> len then
        let p = srat + of_nat offset; elen = unat (m (p + 1)) in
        if elen = 0 \<or> len < offset + elen then st
        else numa_parse_entries m topo srat len (offset + elen) (numa_parse_entry m topo p st)
      else st)"
  by pat_completeness auto
termination
  by (relation "measure (\<lambda>(m, topo, srat, len, offset, st). len - offset)") auto

declare numa_parse_entries.simps [simp del]

definition numa_policy_parse_srat :: "mem \<Rightarrow> cpu_topology \<Rightarrow> u32 \<Rightarrow> numa_state \<Rightarrow> numa_state" where
  "numa_policy_parse_srat m topo srat st =
     numa_parse_entries m topo srat (unat (load32 m (srat + 4))) 48 st"

definition numa_policy_initialize :: "mem \<Rightarrow> cpu_topology \<Rightarrow> u32 option \<Rightarrow> numa_state \<Rightarrow> numa_state" where
  "numa_policy_initialize m topo srat_header st =
     (let st = st\<lparr>numa_slot_to_node_map := replicate NUMA_POLICY_MAX_SLOTS 0,
                  numa_nodes := (numa_nodes st)[0 := (numa_nodes st ! 0)\<lparr>node_id := 0\<rparr>],
                  numa_node_count := 1,
                  numa_ranges := []\<rparr>
      in case srat_header of
           Some srat \<Rightarrow> numa_policy_parse_srat m topo srat st
         | None \<Rightarrow> st)"

definition numa_policy_get_node_for_slot :: "u32 \<Rightarrow> numa_state \<Rightarrow> u32" where
  "numa_policy_get_node_for_slot slot st =
     (if NUMA_POLICY_MAX_SLOTS \<le> unat slot then 0 else numa_slot_to_node_map st ! unat slot)"

definition numa_policy_get_local_node :: "numa_state \<Rightarrow> cpu_topology \<Rightarrow> u32 \<times> cpu_topology" where
  "numa_policy_get_local_node st topo =
     (let (slot, topo) = cpu_topology_get_logical_slot topo
      in (numa_policy_get_node_for_slot slot st, topo))"

definition numa_policy_get_node_count :: "numa_state \<Rightarrow> u32" where
  "numa_policy_get_node_count st = numa_node_count st"

definition numa_policy_get_node_for_address :: "u32 \<Rightarrow> numa_state \<Rightarrow> u32" where
  "numa_policy_get_node_for_address phys_addr st =
     (case find (\<lambda>r. range_base r \<le> phys_addr \<and> phys_addr < range_base r + range_length r) (numa_ranges st) of
        Some r \<Rightarrow> range_node_id r
      | None \<Rightarrow> 0)"

section \<open>What discovery leaves behind\<close>

definition numa_inv :: "numa_state \<Rightarrow> bool" where
  "numa_inv st \<longleftrightarrow>
     length (numa_slot_to_node_map st) = 32 \<and> length (numa_nodes st) = 8 \<and>
     1 \<le> numa_node_count st \<and> numa_node_count st \<le> 8 \<and>
     length (numa_ranges st) \<le> 32 \<and>
     (\<forall>r \<in> set (numa_ranges st). range_node_id r < numa_node_count st)"

lemma small_Suc_u32:
  fixes d :: u32
  assumes "unat d < 8"
  shows "d + 1 \<le> 8" "1 \<le> d + 1" "d < d + 1"
proof -
  have "unat (d + 1) = unat d + 1"
    using assms by (simp add: unat_word_ariths)
  then show "d + 1 \<le> 8" "1 \<le> d + 1" "d < d + 1"
    using assms by (simp_all add: word_le_nat_alt word_less_nat_alt)
qed

lemma numa_inv_note:
  assumes "numa_inv st"
  shows "numa_inv (numa_note_domain d st)"
    and "unat d < 8 \<Longrightarrow> d < numa_node_count (numa_note_domain d st)"
proof -
  have "x < d + 1" if "unat d < 8" "x < numa_node_count st" "numa_node_count st \<le> d" for x
    using small_Suc_u32(3) [OF that(1)] that(2,3) by order
  then show "numa_inv (numa_note_domain d st)"
    using assms small_Suc_u32 [of d] by (simp add: numa_inv_def numa_note_domain_def)
  show "d < numa_node_count (numa_note_domain d st)" if "unat d < 8"
    using small_Suc_u32 [OF that] that by (simp add: numa_note_domain_def not_le)
qed

lemma numa_inv_bind_cpu: "numa_inv st \<Longrightarrow> numa_inv (numa_bind_cpu d s st)"
proof -
  assume "numa_inv st"
  then have "numa_inv (st\<lparr>numa_slot_to_node_map := (numa_slot_to_node_map st)[unat s := d]\<rparr>)"
    by (simp add: numa_inv_def)
  from numa_inv_note(1) [OF this, of d] show "numa_inv (numa_bind_cpu d s st)"
    using \<open>numa_inv st\<close> by (simp add: numa_bind_cpu_def Let_def numa_inv_def)
qed

lemma numa_inv_bind_memory: "numa_inv st \<Longrightarrow> numa_inv (numa_bind_memory d b l st)"
  using numa_inv_note [of st d] by (auto simp: numa_bind_memory_def Let_def numa_inv_def)

lemma numa_inv_parse_entry: "numa_inv st \<Longrightarrow> numa_inv (numa_parse_entry m topo p st)"
  by (simp add: numa_parse_entry_def Let_def numa_inv_bind_cpu numa_inv_bind_memory)

lemma numa_inv_parse_entries: "numa_inv st \<Longrightarrow> numa_inv (numa_parse_entries m topo srat len offset st)"
proof (induction m topo srat len offset st rule: numa_parse_entries.induct)
  case (1 m topo srat len offset st)
  then show ?case
    by (subst numa_parse_entries.simps) (auto simp: Let_def numa_inv_parse_entry)
qed

lemma numa_inv_initialize:
  assumes "length (numa_nodes st) = 8"
  shows "numa_inv (numa_policy_initialize m topo srat st)"
proof -
  have "numa_inv (st\<lparr>numa_slot_to_node_map := replicate 32 0, numa_nodes := (numa_nodes st)[0 := x],
                  numa_node_count := 1, numa_ranges := []\<rparr>)" for x
    using assms by (simp add: numa_inv_def)
  then show ?thesis
    by (simp add: numa_policy_initialize_def numa_policy_parse_srat_def Let_def numa_inv_parse_entries
        split: option.split)
qed

lemma node_for_address_bound: "numa_inv st \<Longrightarrow> numa_policy_get_node_for_address a st < numa_node_count st"
proof -
  assume inv: "numa_inv st"
  have "0 < numa_node_count st" using inv by (simp add: numa_inv_def word_le_nat_alt word_less_nat_alt)
  with inv show ?thesis
    by (auto simp: numa_policy_get_node_for_address_def numa_inv_def find_Some_iff split: option.split)
qed

section \<open>Discovery against a declarative reading of the table\<close>

text \<open>The addresses of the well-formed entries, in table order.\<close>

function srat_entries :: "mem \<Rightarrow> u32 \<Rightarrow> nat \<Rightarrow> nat \<Rightarrow> u32 list" where
  "srat_entries m srat len offset =
     (if offset + 2 \<le> len then
        let p = srat + of_nat offset; elen = unat (m (p + 1)) in
        if elen = 0 \<or> len < offset + elen then []
        else p # srat_entries m srat len (offset + elen)
      else [])"
  by pat_completeness auto
termination
  by (relation "measure (\<lambda>(m, srat, len, offset). len - offset)") auto

declare srat_entries.simps [simp del]

text \<open>The processor (APIC id, domain) and the memory range an entry declares, if it is enabled.\<close>

definition srat_cpu :: "mem \<Rightarrow> u32 \<Rightarrow> (u32 \<times> u32) option" where
  "srat_cpu m p =
     (if m p = 0 \<and> 16 \<le> m (p + 1) \<and> load32 m (p + 4) AND 1 \<noteq> 0 then
        Some (ucast (m (p + 3)),
              ucast (m (p + 2)) OR push_bit 8 (ucast (m (p + 9)))
                OR push_bit 16 (ucast (m (p + 10))) OR push_bit 24 (ucast (m (p + 11))))
      else if m p = 2 \<and> 24 \<le> m (p + 1) \<and> load32 m (p + 12) AND 1 \<noteq> 0 then
        Some (load32 m (p + 8), load32 m (p + 4))
      else None)"

definition srat_range :: "mem \<Rightarrow> u32 \<Rightarrow> numa_memory_range option" where
  "srat_range m p =
     (if m p = 1 \<and> 40 \<le> m (p + 1) \<and> load32 m (p + 28) AND 1 \<noteq> 0 \<and> load32 m (p + 2) < 8 then
        Some \<lparr>range_base = load32 m (p + 8), range_length = load32 m (p + 16), range_node_id = load32 m (p + 2)\<rparr>
      else None)"

definition srat_slot_domain :: "mem \<Rightarrow> cpu_topology \<Rightarrow> nat \<Rightarrow> u32 \<Rightarrow> u32 option" where
  "srat_slot_domain m topo s p =
     (case srat_cpu m p of
        Some (apic_id, domain) \<Rightarrow> if unat (cpu_topology_get_slot_for_apic_id apic_id topo) = s then Some domain else None
      | None \<Rightarrow> None)"

lemma numa_parse_entries_fold:
  "numa_parse_entries m topo srat len offset st = fold (numa_parse_entry m topo) (srat_entries m srat len offset) st"
proof (induction m topo srat len offset st rule: numa_parse_entries.induct)
  case (1 m topo srat len offset st)
  then show ?case
    by (subst numa_parse_entries.simps, subst srat_entries.simps) (simp add: Let_def)
qed

lemma note_domain_frame [simp]:
  "numa_ranges (numa_note_domain d st) = numa_ranges st"
  "numa_slot_to_node_map (numa_note_domain d st) = numa_slot_to_node_map st"
  by (simp_all add: numa_note_domain_def)

lemma bind_cpu_effect [simp]:
  "numa_ranges (numa_bind_cpu d s st) = numa_ranges st"
  "length (numa_slot_to_node_map st) = 32 \<Longrightarrow>
     numa_slot_to_node_map (numa_bind_cpu d s st) = (numa_slot_to_node_map st)[unat s := d]"
  by (simp_all add: numa_bind_cpu_def Let_def not_less list_update_beyond)

lemma bind_memory_effect [simp]:
  "numa_slot_to_node_map (numa_bind_memory d b l st) = numa_slot_to_node_map st"
  "length (numa_ranges st) \<le> 32 \<Longrightarrow> numa_ranges (numa_bind_memory d b l st) =
     take 32 (numa_ranges st @ (if d < 8 then [\<lparr>range_base = b, range_length = l, range_node_id = d\<rparr>] else []))"
  by (auto simp: numa_bind_memory_def Let_def word_less_nat_alt)

lemma parse_entry_ranges:
  "length (numa_ranges st) \<le> 32 \<Longrightarrow>
   numa_ranges (numa_parse_entry m topo p st) =
     take 32 (numa_ranges st @ (case srat_range m p of Some r \<Rightarrow> [r] | None \<Rightarrow> []))"
  by (simp add: numa_parse_entry_def srat_range_def Let_def)

lemma parse_entry_slot:
  assumes "length (numa_slot_to_node_map st) = 32" "s < 32"
  shows "numa_slot_to_node_map (numa_parse_entry m topo p st) ! s =
           (case srat_slot_domain m topo s p of Some d \<Rightarrow> d | None \<Rightarrow> numa_slot_to_node_map st ! s)"
    and "length (numa_slot_to_node_map (numa_parse_entry m topo p st)) = 32"
  using assms
  by (simp_all add: numa_parse_entry_def srat_slot_domain_def srat_cpu_def Let_def nth_list_update)

lemma parse_fold_ranges:
  "length (numa_ranges st) \<le> 32 \<Longrightarrow>
   numa_ranges (fold (numa_parse_entry m topo) ps st) = take 32 (numa_ranges st @ List.map_filter (srat_range m) ps)"
proof (induction ps arbitrary: st)
  case (Cons p ps)
  have "take (32 - n) [x] @ take (32 - (n + min (Suc 0) (32 - n))) xs = take (32 - n) (x # xs)"
    for x :: numa_memory_range and n and xs
    by (cases "n < 32") (auto simp: take_Cons')
  then show ?case
    using Cons by (simp add: parse_entry_ranges map_filter_simps split: option.split)
qed (simp add: map_filter_simps)

lemma parse_fold_slot:
  "length (numa_slot_to_node_map st) = 32 \<Longrightarrow> s < 32 \<Longrightarrow>
   numa_slot_to_node_map (fold (numa_parse_entry m topo) ps st) ! s =
     last (numa_slot_to_node_map st ! s # List.map_filter (srat_slot_domain m topo s) ps)"
proof (induction ps arbitrary: st)
  case (Cons p ps)
  then show ?case
    by (simp add: parse_entry_slot map_filter_simps split: option.split)
qed (simp add: map_filter_simps)

text \<open>
  C7 (functional): whatever the bytes of the SRAT table are, discovery ends; the recorded memory
  ranges are exactly the first 32 ranges declared by enabled memory entries with a domain below 8, in
  table order; every CPU slot is bound to the domain of the last enabled processor entry whose APIC id
  has that slot (node 0 when there is none); and the node reported for any physical address is a
  discovered node, below \<open>NUMA_POLICY_MAX_NODES\<close>.
\<close>

theorem numa_discovery_correct:
  fixes m :: mem and topo :: cpu_topology and srat :: u32 and st :: numa_state
  defines "st' \<equiv> numa_policy_initialize m topo (Some srat) st"
    and "es \<equiv> srat_entries m srat (unat (load32 m (srat + 4))) 48"
  assumes "length (numa_nodes st) = 8"
  shows "numa_ranges st' = take 32 (List.map_filter (srat_range m) es) \<and>
         (unat slot < 32 \<longrightarrow>
            numa_policy_get_node_for_slot slot st' = last (0 # List.map_filter (srat_slot_domain m topo (unat slot)) es)) \<and>
         numa_policy_get_node_for_address a st' < numa_policy_get_node_count st' \<and>
         numa_policy_get_node_count st' \<le> 8"
proof -
  have inv: "numa_inv st'"
    using assms(3) by (simp add: st'_def numa_inv_initialize)
  have "numa_ranges st' = take 32 (List.map_filter (srat_range m) es)"
    by (simp add: st'_def es_def numa_policy_initialize_def numa_policy_parse_srat_def Let_def
        numa_parse_entries_fold parse_fold_ranges)
  moreover have "numa_policy_get_node_for_slot slot st' =
      last (0 # List.map_filter (srat_slot_domain m topo (unat slot)) es)" if "unat slot < 32"
    using that
    by (simp add: st'_def es_def numa_policy_initialize_def numa_policy_parse_srat_def Let_def
        numa_parse_entries_fold parse_fold_slot numa_policy_get_node_for_slot_def)
  ultimately show ?thesis
    using node_for_address_bound [OF inv] inv by (simp add: numa_policy_get_node_count_def numa_inv_def)
qed

text \<open>A table at address 0 of 104 bytes: CPU 0 in domain 9, then memory 0x1000..0x3000 in domain 1.\<close>

definition srat_example :: mem where
  "srat_example = (\<lambda>_. 0)(4 := 104, 48 := 0, 49 := 16, 50 := 9, 51 := 0, 52 := 1,
     64 := 1, 65 := 40, 66 := 1, 73 := 0x10, 81 := 0x20, 92 := 1)"

lemma srat_example_entries: "srat_entries srat_example 0 (unat (load32 srat_example 4)) 48 = [48, 64]"
  by (simp add: srat_entries.simps srat_example_def load32_def Let_def)

theorem numa_discovery_correct_witness:
  "let st' = numa_policy_initialize srat_example cpu_topology_static (Some 0) numa_state_static in
   length (numa_nodes numa_state_static) = 8 \<and>
   numa_ranges st' = [\<lparr>range_base = 0x1000, range_length = 0x2000, range_node_id = 1\<rparr>] \<and>
   numa_policy_get_node_for_slot 0 st' = 9 \<and>
   numa_policy_get_node_for_address 0x2FFF st' < numa_policy_get_node_count st'"
proof -
  have len: "length (numa_nodes numa_state_static) = 8"
    by (simp add: numa_state_static_def)
  have ranges: "srat_range srat_example 48 = None"
      "srat_range srat_example 64 = Some \<lparr>range_base = 0x1000, range_length = 0x2000, range_node_id = 1\<rparr>"
    by code_simp+
  have slots: "srat_slot_domain srat_example cpu_topology_static 0 48 = Some 9"
      "srat_slot_domain srat_example cpu_topology_static 0 64 = None"
    by code_simp+
  show ?thesis
    using numa_discovery_correct [of numa_state_static srat_example cpu_topology_static 0 0 "0x2FFF"]
    by (simp add: len srat_example_entries ranges slots map_filter_simps Let_def)
qed

end
