(* ===== verification/Pmm.thy ===== *)
theory Pmm
  imports Numa_Policy "HOL-Library.Monad_Syntax"
begin

text \<open>
  \<open>src/kernel/arch/i386/cpu/pmm.c\<close>: the physical page-frame allocator, in its two builds. The client
  build keeps one LIFO list of 4 KiB frames per NUMA node; the server build is a buddy allocator with
  one list per node and order. Lists are threaded through the free frames themselves: the first word
  of a free frame, read at its higher-half alias, is the physical address of the next one.

  Static arrays indexed by page (\<open>buddy_page_is_free\<close>, \<open>buddy_page_order\<close>, \<open>buddy_page_allocated\<close>)
  are functions on page indices, the first and the last with their 0/1 entries as booleans; orders are
  natural numbers. The value of \<open>numa_policy_get_local_node ()\<close> is an argument of the operations that
  read it. \<open>None\<close> stands for an execution with no defined result: an endless walk of a corrupt list,
  or a list head read outside the array.
\<close>

abbreviation (input) KERNEL_VIRTUAL_BASE :: u32 where "KERNEL_VIRTUAL_BASE \<equiv> 0xC0000000"
abbreviation (input) PMM_BOOT_MAP_LIMIT :: u32 where "PMM_BOOT_MAP_LIMIT \<equiv> 0x04000000"
abbreviation (input) PMM_LOW_MEMORY_LIMIT :: u32 where "PMM_LOW_MEMORY_LIMIT \<equiv> 0x00100000"
abbreviation (input) PMM_MAX_PHYS_ADDR :: u32 where "PMM_MAX_PHYS_ADDR \<equiv> 0x40000000"
abbreviation (input) PMM_BUDDY_MAX_ORDER :: nat where "PMM_BUDDY_MAX_ORDER \<equiv> 18"

record pmm_state =
  free_page_count :: u32
  watermark_high :: u32
  watermark_low :: u32
  watermarks_seeded :: bool
  pmm_local_hits :: u32
  pmm_remote_hits :: u32
  pmm_cross_node_fallbacks :: u32
  pmm_uaf_anomalies :: u32
  free_list_heads :: "nat \<Rightarrow> u32"
  buddy_free_list_heads :: "nat \<Rightarrow> nat \<Rightarrow> u32"
  buddy_page_is_free :: "nat \<Rightarrow> bool"
  buddy_page_order :: "nat \<Rightarrow> nat"
  buddy_page_allocated :: "nat \<Rightarrow> bool"
  buddy_population_in_progress :: bool
  buddy_rejected_free_count :: u32
  buddy_double_free_count :: u32
  ram :: mem

definition pmm_static :: "mem \<Rightarrow> pmm_state" where
  "pmm_static m = \<lparr>
     free_page_count = 0, watermark_high = 0, watermark_low = 0xFFFFFFFF, watermarks_seeded = False,
     pmm_local_hits = 0, pmm_remote_hits = 0, pmm_cross_node_fallbacks = 0, pmm_uaf_anomalies = 0,
     free_list_heads = (\<lambda>_. 0), buddy_free_list_heads = (\<lambda>_ _. 0),
     buddy_page_is_free = (\<lambda>_. False), buddy_page_order = (\<lambda>_. 0), buddy_page_allocated = (\<lambda>_. False),
     buddy_population_in_progress = False, buddy_rejected_free_count = 0, buddy_double_free_count = 0,
     ram = m\<rparr>"

definition pmm_phys_to_virt :: "u32 \<Rightarrow> u32" where
  "pmm_phys_to_virt phys_addr = phys_addr + KERNEL_VIRTUAL_BASE"

definition pmm_virt_to_phys :: "u32 \<Rightarrow> u32" where
  "pmm_virt_to_phys virt_addr = virt_addr - KERNEL_VIRTUAL_BASE"

definition pmm_update_watermarks :: "pmm_state \<Rightarrow> pmm_state" where
  "pmm_update_watermarks s =
     (if \<not> watermarks_seeded s then
        s\<lparr>watermark_high := free_page_count s, watermark_low := free_page_count s, watermarks_seeded := True\<rparr>
      else
        let s = (if watermark_high s < free_page_count s then s\<lparr>watermark_high := free_page_count s\<rparr> else s)
        in if free_page_count s < watermark_low s then s\<lparr>watermark_low := free_page_count s\<rparr> else s)"

text \<open>The node that owns a frame, as both builds compute it before touching a list.\<close>

definition frame_node :: "numa_state \<Rightarrow> u32 \<Rightarrow> nat" where
  "frame_node numa phys_addr =
     (let node = numa_policy_get_node_for_address phys_addr numa
      in if numa_policy_get_node_count numa \<le> node then 0 else unat node)"

section \<open>Client build: LIFO free lists\<close>

definition freelist_push :: "numa_state \<Rightarrow> u32 \<Rightarrow> pmm_state \<Rightarrow> pmm_state" where
  "freelist_push numa phys_addr s =
     (let n = frame_node numa phys_addr;
          s = s\<lparr>ram := store32 (ram s) (pmm_phys_to_virt phys_addr) (free_list_heads s n)\<rparr>;
          s = s\<lparr>free_list_heads := (free_list_heads s)(n := phys_addr)\<rparr>;
          s = s\<lparr>free_page_count := free_page_count s + 1\<rparr>
      in pmm_update_watermarks s)"

definition freelist_unlink_head :: "nat \<Rightarrow> pmm_state \<Rightarrow> pmm_state" where
  "freelist_unlink_head n s =
     pmm_update_watermarks
       (s\<lparr>free_list_heads := (free_list_heads s)(n := load32 (ram s) (pmm_phys_to_virt (free_list_heads s n))),
          free_page_count := free_page_count s - 1\<rparr>)"

definition freelist_pop :: "u32 \<Rightarrow> pmm_state \<Rightarrow> u32 \<times> pmm_state" where
  "freelist_pop local_node s =
     (let local = (if NUMA_POLICY_MAX_NODES \<le> unat local_node then 0 else unat local_node) in
      if free_list_heads s local \<noteq> 0 then
        let phys_addr = free_list_heads s local;
            s = freelist_unlink_head local s
        in (phys_addr, s\<lparr>pmm_local_hits := pmm_local_hits s + 1\<rparr>)
      else
        case find (\<lambda>n. free_list_heads s n \<noteq> 0) [0..<NUMA_POLICY_MAX_NODES] of
          Some n \<Rightarrow>
            let phys_addr = free_list_heads s n;
                s = freelist_unlink_head n s
            in (phys_addr, s\<lparr>pmm_remote_hits := pmm_remote_hits s + 1,
                            pmm_cross_node_fallbacks := pmm_cross_node_fallbacks s + 1\<rparr>)
        | None \<Rightarrow> (0, s))"

section \<open>Server build: buddy allocator\<close>

definition buddy_phys_to_page_index :: "u32 \<Rightarrow> nat" where
  "buddy_phys_to_page_index phys_addr = unat (drop_bit 12 phys_addr)"

definition buddy_order_block_size_bytes :: "nat \<Rightarrow> u32" where
  "buddy_order_block_size_bytes order = push_bit order 4096"

definition buddy_is_valid_phys :: "u32 \<Rightarrow> bool" where
  "buddy_is_valid_phys phys_addr \<longleftrightarrow> phys_addr AND 0xFFF = 0 \<and> phys_addr < PMM_MAX_PHYS_ADDR"

definition buddy_is_valid_order :: "nat \<Rightarrow> bool" where
  "buddy_is_valid_order order \<longleftrightarrow> order \<le> PMM_BUDDY_MAX_ORDER"

definition buddy_is_order_aligned :: "u32 \<Rightarrow> nat \<Rightarrow> bool" where
  "buddy_is_order_aligned phys_addr order \<longleftrightarrow> phys_addr AND (buddy_order_block_size_bytes order - 1) = 0"

definition buddy_mark_range :: "bool \<Rightarrow> u32 \<Rightarrow> nat \<Rightarrow> (nat \<Rightarrow> bool) \<Rightarrow> nat \<Rightarrow> bool" where
  "buddy_mark_range v phys_addr order a =
     fold (\<lambda>off a. a(buddy_phys_to_page_index phys_addr + off := v)) [0..<2 ^ order] a"

text \<open>The poison fill and check cover the frame after its link word, in debug builds, for order 0.\<close>

definition buddy_poison :: "u32 \<Rightarrow> mem \<Rightarrow> mem" where
  "buddy_poison page_virt m = fold (\<lambda>i m. m(page_virt + 4 + of_nat i := 0xAA)) [0..<4096 - 4] m"

definition buddy_poison_intact :: "u32 \<Rightarrow> mem \<Rightarrow> bool" where
  "buddy_poison_intact page_virt m \<longleftrightarrow> list_all (\<lambda>i. m (page_virt + 4 + of_nat i) = 0xAA) [0..<4096 - 4]"

definition buddy_list_push :: "build_flags \<Rightarrow> numa_state \<Rightarrow> nat \<Rightarrow> u32 \<Rightarrow> pmm_state \<Rightarrow> pmm_state" where
  "buddy_list_push cfg numa order phys_addr s =
     (let n = frame_node numa phys_addr;
          page_virt = pmm_phys_to_virt phys_addr;
          page_index = buddy_phys_to_page_index phys_addr;
          s = s\<lparr>ram := store32 (ram s) page_virt (buddy_free_list_heads s n order)\<rparr>;
          s = s\<lparr>buddy_free_list_heads :=
                 (buddy_free_list_heads s)(n := (buddy_free_list_heads s n)(order := phys_addr))\<rparr>;
          s = s\<lparr>buddy_page_is_free := (buddy_page_is_free s)(page_index := True)\<rparr>;
          s = s\<lparr>buddy_page_order := (buddy_page_order s)(page_index := order)\<rparr>;
          s = (if debug_poison cfg \<and> order = 0 then s\<lparr>ram := buddy_poison page_virt (ram s)\<rparr> else s)
      in s\<lparr>buddy_page_allocated := buddy_mark_range False phys_addr order (buddy_page_allocated s)\<rparr>)"

definition buddy_list_pop_from_node :: "build_flags \<Rightarrow> nat \<Rightarrow> nat \<Rightarrow> pmm_state \<Rightarrow> u32 \<times> pmm_state" where
  "buddy_list_pop_from_node cfg target_node order s =
     (let phys_addr = buddy_free_list_heads s target_node order in
      if phys_addr = 0 then (0, s)
      else
        let page_virt = pmm_phys_to_virt phys_addr;
            page_index = buddy_phys_to_page_index phys_addr;
            s = s\<lparr>buddy_free_list_heads := (buddy_free_list_heads s)(target_node :=
                   (buddy_free_list_heads s target_node)(order := load32 (ram s) page_virt))\<rparr>;
            s = s\<lparr>buddy_page_is_free := (buddy_page_is_free s)(page_index := False)\<rparr>;
            s = (if debug_poison cfg \<and> order = 0 \<and> \<not> buddy_poison_intact page_virt (ram s)
                 then s\<lparr>pmm_uaf_anomalies := pmm_uaf_anomalies s + 1\<rparr> else s)
        in (phys_addr, s\<lparr>buddy_page_allocated := buddy_mark_range True phys_addr order (buddy_page_allocated s)\<rparr>))"

text \<open>The walk of \<open>buddy_list_remove_exact\<close>, from \<open>current_phys\<close> with \<open>previous_phys\<close> behind it.\<close>

partial_function (option) buddy_list_walk ::
  "nat \<Rightarrow> nat \<Rightarrow> u32 \<Rightarrow> u32 \<Rightarrow> u32 \<Rightarrow> pmm_state \<Rightarrow> (bool \<times> pmm_state) option" where
  "buddy_list_walk target_node order phys_addr previous_phys current_phys s =
     (if current_phys = 0 then Some (False, s)
      else
        let next_phys = load32 (ram s) (pmm_phys_to_virt current_phys) in
        if current_phys = phys_addr then
          let s = (if previous_phys \<noteq> 0
                   then s\<lparr>ram := store32 (ram s) (pmm_phys_to_virt previous_phys) next_phys\<rparr>
                   else s\<lparr>buddy_free_list_heads := (buddy_free_list_heads s)(target_node :=
                          (buddy_free_list_heads s target_node)(order := next_phys))\<rparr>)
          in Some (True, s\<lparr>buddy_page_is_free :=
                            (buddy_page_is_free s)(buddy_phys_to_page_index current_phys := False)\<rparr>)
        else buddy_list_walk target_node order phys_addr current_phys next_phys s)"

definition buddy_list_remove_exact :: "nat \<Rightarrow> nat \<Rightarrow> u32 \<Rightarrow> pmm_state \<Rightarrow> (bool \<times> pmm_state) option" where
  "buddy_list_remove_exact target_node order phys_addr s =
     buddy_list_walk target_node order phys_addr 0 (buddy_free_list_heads s target_node order) s"

definition buddy_can_merge :: "nat \<Rightarrow> u32 \<Rightarrow> pmm_state \<Rightarrow> bool" where
  "buddy_can_merge order phys_addr s =
     (if \<not> buddy_is_valid_phys phys_addr then False
      else
        let page_index = buddy_phys_to_page_index phys_addr in
        if \<not> buddy_page_is_free s page_index then False
        else buddy_page_order s page_index = order)"

definition buddy_range_is_allocated :: "u32 \<Rightarrow> nat \<Rightarrow> pmm_state \<Rightarrow> bool" where
  "buddy_range_is_allocated base_phys order s =
     list_all (\<lambda>off. buddy_page_allocated s (buddy_phys_to_page_index base_phys + off)) [0..<2 ^ order]"

definition buddy_debug_is_free_block :: "u32 \<Rightarrow> nat \<Rightarrow> pmm_state \<Rightarrow> bool" where
  "buddy_debug_is_free_block phys_addr order s =
     (if PMM_BUDDY_MAX_ORDER < order then False
      else if \<not> buddy_is_valid_phys phys_addr then False
      else if phys_addr AND (buddy_order_block_size_bytes order - 1) \<noteq> 0 then False
      else
        let page_index = buddy_phys_to_page_index phys_addr in
        if \<not> buddy_page_is_free s page_index then False
        else buddy_page_order s page_index = order)"

text \<open>The upward merge loop of \<open>buddy_insert_order\<close>: the final order and base of the block.\<close>

function buddy_merge_loop :: "numa_state \<Rightarrow> nat \<Rightarrow> u32 \<Rightarrow> pmm_state \<Rightarrow> (nat \<times> u32 \<times> pmm_state) option" where
  "buddy_merge_loop numa current_order current_phys s =
     (if current_order < PMM_BUDDY_MAX_ORDER then
        let buddy_phys = current_phys XOR buddy_order_block_size_bytes current_order in
        if \<not> buddy_can_merge current_order buddy_phys s then Some (current_order, current_phys, s)
        else
          case buddy_list_remove_exact (frame_node numa buddy_phys) current_order buddy_phys s of
            None \<Rightarrow> None
          | Some (removed, s') \<Rightarrow>
              if \<not> removed then Some (current_order, current_phys, s')
              else buddy_merge_loop numa (current_order + 1)
                     (if buddy_phys < current_phys then buddy_phys else current_phys) s'
      else Some (current_order, current_phys, s))"
  by pat_completeness auto
termination
  by (relation "measure (\<lambda>(numa, k, p, s). 18 - k)") auto

declare buddy_merge_loop.simps [simp del]

definition buddy_insert_order ::
  "build_flags \<Rightarrow> numa_state \<Rightarrow> u32 \<Rightarrow> nat \<Rightarrow> pmm_state \<Rightarrow> pmm_state option" where
  "buddy_insert_order cfg numa phys_addr requested_order s =
     (let reject = s\<lparr>buddy_rejected_free_count := buddy_rejected_free_count s + 1\<rparr> in
      if \<not> buddy_is_valid_order requested_order then Some reject
      else if \<not> buddy_is_valid_phys phys_addr then Some reject
      else if \<not> buddy_is_order_aligned phys_addr requested_order then Some reject
      else if \<not> buddy_population_in_progress s \<and> \<not> buddy_range_is_allocated phys_addr requested_order s then
        Some (reject\<lparr>buddy_double_free_count := buddy_double_free_count s + 1\<rparr>)
      else do {
        let s = s\<lparr>free_page_count := free_page_count s + push_bit requested_order 1\<rparr>;
        (current_order, current_phys, s) \<leftarrow> buddy_merge_loop numa requested_order phys_addr s;
        Some (pmm_update_watermarks (buddy_list_push cfg numa current_order current_phys s))
      })"

text \<open>The first order from \<open>order\<close> on with a free block on a node.\<close>

definition buddy_find_order :: "nat \<Rightarrow> nat \<Rightarrow> pmm_state \<Rightarrow> nat option" where
  "buddy_find_order node order s =
     find (\<lambda>k. buddy_free_list_heads s node k \<noteq> 0) [order..<PMM_BUDDY_MAX_ORDER + 1]"

fun buddy_split_loop :: "build_flags \<Rightarrow> numa_state \<Rightarrow> nat \<Rightarrow> u32 \<Rightarrow> nat \<Rightarrow> pmm_state \<Rightarrow> pmm_state" where
  "buddy_split_loop cfg numa requested_order block_phys 0 s = s"
| "buddy_split_loop cfg numa requested_order block_phys (Suc order) s =
     (let right_buddy_phys = block_phys + buddy_order_block_size_bytes order;
          s = (if requested_order \<le> order then buddy_list_push cfg numa order right_buddy_phys s else s)
      in buddy_split_loop cfg numa requested_order block_phys order s)"

text \<open>The fallback search over the other nodes, in the order \<open>(local_node + i) % node_count\<close>.\<close>

definition buddy_find_remote :: "nat \<Rightarrow> nat \<Rightarrow> nat \<Rightarrow> pmm_state \<Rightarrow> (nat \<times> nat) option" where
  "buddy_find_remote local_node node_count order s =
     (case find (\<lambda>i. buddy_find_order ((local_node + i) mod node_count) order s \<noteq> None) [1..<node_count] of
        Some i \<Rightarrow> Some ((local_node + i) mod node_count, the (buddy_find_order ((local_node + i) mod node_count) order s))
      | None \<Rightarrow> None)"

definition buddy_remove_from ::
  "build_flags \<Rightarrow> numa_state \<Rightarrow> nat \<Rightarrow> nat \<Rightarrow> nat \<Rightarrow> pmm_state \<Rightarrow> u32 \<times> pmm_state" where
  "buddy_remove_from cfg numa requested_order target_node order s =
     (case buddy_list_pop_from_node cfg target_node order s of
        (block_phys, s) \<Rightarrow>
          if block_phys = 0 then (0, s)
          else
            let s = buddy_split_loop cfg numa requested_order block_phys order s;
                s = s\<lparr>free_page_count := free_page_count s - push_bit requested_order 1\<rparr>
            in (block_phys, pmm_update_watermarks s))"

definition buddy_remove_order ::
  "build_flags \<Rightarrow> numa_state \<Rightarrow> u32 \<Rightarrow> nat \<Rightarrow> pmm_state \<Rightarrow> (u32 \<times> pmm_state) option" where
  "buddy_remove_order cfg numa local_node requested_order s =
     (if \<not> buddy_is_valid_order requested_order then Some (0, s)
      else if NUMA_POLICY_MAX_NODES \<le> unat local_node then None
      else
        case buddy_find_order (unat local_node) requested_order s of
          Some order \<Rightarrow>
            Some (buddy_remove_from cfg numa requested_order (unat local_node) order
                    (s\<lparr>pmm_local_hits := pmm_local_hits s + push_bit requested_order 1\<rparr>))
        | None \<Rightarrow>
            (case buddy_find_remote (unat local_node) (unat (numa_policy_get_node_count numa)) requested_order s of
               Some (target_node, order) \<Rightarrow>
                 Some (buddy_remove_from cfg numa requested_order target_node order
                         (s\<lparr>pmm_remote_hits := pmm_remote_hits s + push_bit requested_order 1,
                            pmm_cross_node_fallbacks := pmm_cross_node_fallbacks s + 1\<rparr>))
             | None \<Rightarrow> Some (0, s)))"

definition buddy_reset_state :: "pmm_state \<Rightarrow> pmm_state" where
  "buddy_reset_state s = s\<lparr>
     buddy_free_list_heads := (\<lambda>_ _. 0),
     buddy_page_is_free := (\<lambda>_. False),
     buddy_page_order := (\<lambda>_. 0),
     buddy_page_allocated := (\<lambda>_. False),
     buddy_population_in_progress := False,
     buddy_rejected_free_count := 0,
     buddy_double_free_count := 0\<rparr>"

section \<open>Public interface\<close>

definition physical_memory_manager_page_frame_free ::
  "build_flags \<Rightarrow> numa_state \<Rightarrow> u32 \<Rightarrow> pmm_state \<Rightarrow> pmm_state option" where
  "physical_memory_manager_page_frame_free cfg numa phys_addr s =
     (if real_time_mode cfg then Some (freelist_push numa phys_addr s)
      else buddy_insert_order cfg numa phys_addr 0 s)"

definition physical_memory_manager_page_frame_free_order ::
  "build_flags \<Rightarrow> numa_state \<Rightarrow> u32 \<Rightarrow> nat \<Rightarrow> pmm_state \<Rightarrow> pmm_state option" where
  "physical_memory_manager_page_frame_free_order cfg numa phys_addr order s =
     (if real_time_mode cfg then
        if order \<noteq> 0 then Some s else Some (freelist_push numa phys_addr s)
      else buddy_insert_order cfg numa phys_addr order s)"

definition physical_memory_manager_page_frame_allocate ::
  "build_flags \<Rightarrow> numa_state \<Rightarrow> u32 \<Rightarrow> pmm_state \<Rightarrow> (u32 \<times> pmm_state) option" where
  "physical_memory_manager_page_frame_allocate cfg numa local_node s =
     (if real_time_mode cfg then Some (freelist_pop local_node s)
      else buddy_remove_order cfg numa local_node 0 s)"

definition physical_memory_manager_page_frame_allocate_order ::
  "build_flags \<Rightarrow> numa_state \<Rightarrow> u32 \<Rightarrow> nat \<Rightarrow> pmm_state \<Rightarrow> (u32 \<times> pmm_state) option" where
  "physical_memory_manager_page_frame_allocate_order cfg numa local_node order s =
     (if real_time_mode cfg then
        if order \<noteq> 0 then Some (0, s) else Some (freelist_pop local_node s)
      else buddy_remove_order cfg numa local_node order s)"

definition physical_memory_manager_get_free_page_count :: "pmm_state \<Rightarrow> u32" where
  "physical_memory_manager_get_free_page_count s = free_page_count s"

definition physical_memory_manager_debug_is_free_block :: "build_flags \<Rightarrow> u32 \<Rightarrow> nat \<Rightarrow> pmm_state \<Rightarrow> bool" where
  "physical_memory_manager_debug_is_free_block cfg phys_addr order s =
     (if real_time_mode cfg then False else buddy_debug_is_free_block phys_addr order s)"

definition physical_memory_manager_get_watermark_low :: "pmm_state \<Rightarrow> u32" where
  "physical_memory_manager_get_watermark_low s = (if watermarks_seeded s then watermark_low s else 0)"

text \<open>The length of one list, then \<open>buddy_debug_get_free_block_count\<close> over the nodes.\<close>

partial_function (option) buddy_list_length :: "mem \<Rightarrow> u32 \<Rightarrow> u32 option" where
  "buddy_list_length m current_phys =
     (if current_phys = 0 then Some 0
      else do {
        count \<leftarrow> buddy_list_length m (load32 m (pmm_phys_to_virt current_phys));
        Some (count + 1)
      })"

fun buddy_count_nodes :: "pmm_state \<Rightarrow> nat \<Rightarrow> nat list \<Rightarrow> u32 option" where
  "buddy_count_nodes s order [] = Some 0"
| "buddy_count_nodes s order (node # nodes) = do {
     count \<leftarrow> buddy_list_length (ram s) (buddy_free_list_heads s node order);
     rest \<leftarrow> buddy_count_nodes s order nodes;
     Some (count + rest)
   }"

definition buddy_debug_get_free_block_count :: "numa_state \<Rightarrow> nat \<Rightarrow> pmm_state \<Rightarrow> u32 option" where
  "buddy_debug_get_free_block_count numa order s =
     (if PMM_BUDDY_MAX_ORDER < order then Some 0
      else buddy_count_nodes s order [0..<unat (numa_policy_get_node_count numa)])"

text \<open>The downward search of \<open>physical_memory_manager_get_fragmentation_ratio\<close>: the largest order in use.\<close>

fun pmm_largest_order :: "numa_state \<Rightarrow> pmm_state \<Rightarrow> nat list \<Rightarrow> nat option option" where
  "pmm_largest_order numa s [] = Some None"
| "pmm_largest_order numa s (order # orders) = do {
     count \<leftarrow> buddy_debug_get_free_block_count numa order s;
     if 0 < count then Some (Some order) else pmm_largest_order numa s orders
   }"

definition physical_memory_manager_get_fragmentation_ratio ::
  "build_flags \<Rightarrow> numa_state \<Rightarrow> pmm_state \<Rightarrow> u32 option" where
  "physical_memory_manager_get_fragmentation_ratio cfg numa s =
     (if real_time_mode cfg then Some 0
      else if free_page_count s = 0 then Some 0
      else do {
        largest \<leftarrow> pmm_largest_order numa s (rev [0..<PMM_BUDDY_MAX_ORDER + 1]);
        case largest of
          None \<Rightarrow> Some 100
        | Some order \<Rightarrow>
            let largest_contiguous_pages = push_bit order 1 in
            if free_page_count s \<le> largest_contiguous_pages then Some 0
            else Some (100 - largest_contiguous_pages * 100 div free_page_count s)
      })"

end
