(* ===== verification/Buddy_Blocks.thy ===== *)
theory Buddy_Blocks
  imports Prelude
begin

text \<open>
  The buddy system as a partial function from the first page of a free block to its order: what
  \<open>buddy_page_is_free\<close> and \<open>buddy_page_order\<close> of \<open>src/kernel/arch/i386/cpu/pmm.c\<close> describe when read
  together. Releasing a block merges it upwards with its buddies, allocating one splits it downwards.
  The theory of the code's own data structures refines these two operations.
\<close>

type_synonym blocks = "nat \<rightharpoonup> nat"

definition block_pages :: "nat \<Rightarrow> nat \<Rightarrow> nat set" where
  "block_pages i k = {i..<i + 2 ^ k}"

definition block_ok :: "nat \<Rightarrow> nat \<Rightarrow> bool" where
  "block_ok i k \<longleftrightarrow> 0 < i \<and> k \<le> 18 \<and> 2 ^ k dvd i \<and> i + 2 ^ k \<le> 262144"

definition buddy_of :: "nat \<Rightarrow> nat \<Rightarrow> nat" where
  "buddy_of i k = (if 2 ^ (k + 1) dvd i then i + 2 ^ k else i - 2 ^ k)"

definition free_pages :: "blocks \<Rightarrow> nat set" where
  "free_pages b = (\<Union>i \<in> dom b. block_pages i (the (b i)))"

definition wf_blocks :: "blocks \<Rightarrow> bool" where
  "wf_blocks b \<longleftrightarrow>
     (\<forall>i k. b i = Some k \<longrightarrow> block_ok i k) \<and>
     (\<forall>i j k l. b i = Some k \<longrightarrow> b j = Some l \<longrightarrow> i \<noteq> j \<longrightarrow> block_pages i k \<inter> block_pages j l = {})"

definition coalesced :: "blocks \<Rightarrow> bool" where
  "coalesced b \<longleftrightarrow> (\<forall>i k. b i = Some k \<longrightarrow> k < 18 \<longrightarrow> b (buddy_of i k) \<noteq> Some k)"

function blocks_insert :: "blocks \<Rightarrow> nat \<Rightarrow> nat \<Rightarrow> blocks" where
  "blocks_insert b i k =
     (if k < 18 \<and> b (buddy_of i k) = Some k
      then blocks_insert (b(buddy_of i k := None)) (min i (buddy_of i k)) (k + 1)
      else b(i \<mapsto> k))"
  by pat_completeness auto
termination
  by (relation "measure (\<lambda>(b, i, k). 18 - k)") auto

declare blocks_insert.simps [simp del]

text \<open>\<open>blocks_split b i r k\<close> gives back the right halves of orders \<open>k - 1, \<dots>, r\<close> of the block at \<open>i\<close>.\<close>

fun blocks_split :: "blocks \<Rightarrow> nat \<Rightarrow> nat \<Rightarrow> nat \<Rightarrow> blocks" where
  "blocks_split b i r 0 = b"
| "blocks_split b i r (Suc k) = blocks_split (if r \<le> k then b(i + 2 ^ k \<mapsto> k) else b) i r k"

section \<open>Arithmetic of buddies\<close>

lemma pow2_dvd_lt:
  assumes "(2::nat) ^ k dvd i" "2 ^ k dvd j" "i < j"
  shows "i + 2 ^ k \<le> j"
proof -
  from assms(1,2) obtain x y where "i = 2 ^ k * x" "j = 2 ^ k * y" by (auto elim!: dvdE)
  with assms(3) have "x + 1 \<le> y" by simp
  then have "2 ^ k * (x + 1) \<le> 2 ^ k * y" by (rule mult_le_mono2)
  then show ?thesis using \<open>i = _\<close> \<open>j = _\<close> by simp
qed

lemma not_dvd_double:
  assumes "(2::nat) ^ k dvd i" "\<not> 2 ^ (k + 1) dvd i"
  shows "2 ^ (k + 1) dvd i - 2 ^ k" "2 ^ k \<le> i"
proof -
  from assms(1) obtain x where x: "i = 2 ^ k * x" by (auto elim: dvdE)
  with assms(2) have "odd x" by auto
  then obtain y where "x = 2 * y + 1" by (elim oddE)
  with x show "2 ^ (k + 1) dvd i - 2 ^ k" "2 ^ k \<le> i" by (auto simp: algebra_simps)
qed

lemma dvd_double_add:
  assumes "(2::nat) ^ (k + 1) dvd i" shows "\<not> 2 ^ (k + 1) dvd i + 2 ^ k" "2 ^ k dvd i"
proof -
  from assms obtain x where x: "i = 2 ^ (k + 1) * x" by (auto elim: dvdE)
  show "2 ^ k dvd i" using x by (simp add: mult.assoc)
  show "\<not> 2 ^ (k + 1) dvd i + 2 ^ k"
  proof
    assume "2 ^ (k + 1) dvd i + 2 ^ k"
    then have "(2::nat) ^ (k + 1) dvd 2 ^ k" using assms by (simp add: dvd_add_right_iff)
    then show False by (simp add: dvd_power_iff_le)
  qed
qed

lemma buddy_of_dvd: "2 ^ k dvd i \<Longrightarrow> 2 ^ k dvd buddy_of i k"
  using not_dvd_double [of k i] by (auto simp: buddy_of_def dvd_diff_nat)

lemma buddy_of_neq: "2 ^ k dvd i \<Longrightarrow> buddy_of i k \<noteq> i"
  using not_dvd_double [of k i] by (auto simp: buddy_of_def)

lemma buddy_of_buddy_of: "2 ^ k dvd i \<Longrightarrow> buddy_of (buddy_of i k) k = i"
  using not_dvd_double [of k i] dvd_double_add [of k i] by (auto simp: buddy_of_def)

lemma pow2_diff_less: "(2::nat) ^ k \<le> i \<Longrightarrow> \<not> i \<le> i - 2 ^ k"
  using zero_less_power [of "2::nat" k] by linarith

lemma buddy_min_dvd: "2 ^ k dvd i \<Longrightarrow> 2 ^ (k + 1) dvd min i (buddy_of i k)"
  using not_dvd_double [of k i] pow2_diff_less [of k i] by (auto simp: buddy_of_def min_def)

lemma buddy_pages_Un:
  "2 ^ k dvd i \<Longrightarrow> block_pages i k \<union> block_pages (buddy_of i k) k = block_pages (min i (buddy_of i k)) (k + 1)"
  using not_dvd_double [of k i] pow2_diff_less [of k i]
  by (auto simp: buddy_of_def block_pages_def min_def)

lemma block_ok_merge:
  assumes "block_ok i k" "block_ok (buddy_of i k) k" "k < 18"
  shows "block_ok (min i (buddy_of i k)) (k + 1)"
  using assms buddy_min_dvd [of k i] not_dvd_double [of k i]
  by (auto simp: block_ok_def buddy_of_def min_def)

text \<open>Aligned blocks are either disjoint or nested.\<close>

lemma blocks_nested:
  assumes "2 ^ k dvd i" "2 ^ l dvd j" "k \<le> l" "p \<in> block_pages i k" "p \<in> block_pages j l"
  shows "block_pages i k \<subseteq> block_pages j l"
proof -
  have j: "2 ^ k dvd j" using assms(2,3) by (meson dvd_trans le_imp_power_dvd)
  have jl: "2 ^ k dvd j + 2 ^ l" using j assms(3) by (simp add: le_imp_power_dvd)
  have p: "i \<le> p" "p < i + 2 ^ k" "j \<le> p" "p < j + 2 ^ l"
    using assms(4,5) by (simp_all add: block_pages_def)
  have "j \<le> i"
  proof (rule ccontr)
    assume "\<not> j \<le> i"
    then have "i + 2 ^ k \<le> j" using pow2_dvd_lt [OF assms(1) j] by simp
    with p show False by simp
  qed
  moreover have "i + 2 ^ k \<le> j + 2 ^ l"
    using pow2_dvd_lt [OF assms(1) jl] p by simp
  ultimately show ?thesis by (simp add: block_pages_def)
qed

section \<open>Free pages\<close>

lemma finite_block_pages [simp]: "finite (block_pages i k)"
  by (simp add: block_pages_def)

lemma card_block_pages [simp]: "card (block_pages i k) = 2 ^ k"
  by (simp add: block_pages_def)

lemma block_pages_base [simp]: "i \<in> block_pages i k"
  by (simp add: block_pages_def)

lemma free_pages_iff: "p \<in> free_pages b \<longleftrightarrow> (\<exists>i k. b i = Some k \<and> p \<in> block_pages i k)"
  by (force simp: free_pages_def)

lemma free_pages_empty [simp]: "free_pages (\<lambda>_. None) = {}"
  by (auto simp: free_pages_iff)

lemma wf_blocks_empty [simp]: "wf_blocks (\<lambda>_. None)"
  by (simp add: wf_blocks_def)

lemma coalesced_empty [simp]: "coalesced (\<lambda>_. None)"
  by (simp add: coalesced_def)

lemma wf_blocks_ok: "wf_blocks b \<Longrightarrow> b i = Some k \<Longrightarrow> block_ok i k"
  by (simp add: wf_blocks_def)

lemma wf_blocks_disjoint:
  "wf_blocks b \<Longrightarrow> b i = Some k \<Longrightarrow> b j = Some l \<Longrightarrow> i \<noteq> j \<Longrightarrow> block_pages i k \<inter> block_pages j l = {}"
  unfolding wf_blocks_def by blast

lemma free_pages_bounds: "wf_blocks b \<Longrightarrow> free_pages b \<subseteq> {0<..<262144}"
proof
  fix p assume "wf_blocks b" "p \<in> free_pages b"
  then obtain i k where "b i = Some k" "p \<in> block_pages i k" by (auto simp: free_pages_iff)
  with wf_blocks_ok [OF \<open>wf_blocks b\<close>, of i k] show "p \<in> {0<..<262144}"
    by (simp add: block_ok_def block_pages_def)
qed

lemma finite_free_pages: "wf_blocks b \<Longrightarrow> finite (free_pages b)"
  using free_pages_bounds finite_subset by blast

lemma block_pages_free: assumes "b i = Some k" shows "block_pages i k \<subseteq> free_pages b"
  unfolding free_pages_iff [THEN eq_reflection] subset_eq using assms by blast

lemma free_pages_add:
  assumes "b i = None"
  shows "free_pages (b(i \<mapsto> k)) = free_pages b \<union> block_pages i k"
proof -
  have "dom (b(i \<mapsto> k)) = insert i (dom b)" by simp
  moreover have "the ((b(i \<mapsto> k)) j) = the (b j)" if "j \<in> dom b" for j
    using that assms by auto
  ultimately show ?thesis
    by (simp add: free_pages_def) (use assms in blast)
qed

lemma free_pages_del:
  assumes "wf_blocks b" "b i = Some k"
  shows "free_pages (b(i := None)) = free_pages b - block_pages i k"
proof -
  have "b(i := None, i \<mapsto> k) = b" using assms(2) by auto
  then have "free_pages b = free_pages (b(i := None)) \<union> block_pages i k"
    using free_pages_add [of "b(i := None)" i k] by simp
  moreover have "free_pages (b(i := None)) \<inter> block_pages i k = {}"
  proof (rule ccontr)
    assume "free_pages (b(i := None)) \<inter> block_pages i k \<noteq> {}"
    then obtain p j l where "(b(i := None)) j = Some l" "p \<in> block_pages j l" "p \<in> block_pages i k"
      by (auto simp: free_pages_iff simp del: fun_upd_apply)
    then show False using wf_blocks_disjoint [OF assms, of j l] by (auto split: if_splits)
  qed
  ultimately show ?thesis by blast
qed

lemma wf_blocks_del: "wf_blocks b \<Longrightarrow> wf_blocks (b(i := None))"
  by (simp add: wf_blocks_def)

lemma wf_blocks_add:
  assumes "wf_blocks b" "block_ok i k" "block_pages i k \<inter> free_pages b = {}"
  shows "wf_blocks (b(i \<mapsto> k))"
proof -
  have "block_pages j l \<inter> block_pages i k = {}" if "b j = Some l" for j l
    using assms(3) block_pages_free [of b j l, OF that] by blast
  then show ?thesis
    using assms(1,2) by (simp add: wf_blocks_def Int_commute)
qed

lemma disjoint_free_not_block: "block_pages i k \<inter> free_pages b = {} \<Longrightarrow> b i = None"
proof (rule ccontr)
  assume "block_pages i k \<inter> free_pages b = {}" "b i \<noteq> None"
  then obtain l where "b i = Some l" by auto
  then have "i \<in> free_pages b" using block_pages_free [of b i l] block_pages_base [of i l] by blast
  with \<open>_ = {}\<close> block_pages_base [of i k] show False by blast
qed

section \<open>Releasing a block\<close>

lemma buddy_pages_disjoint: "2 ^ k dvd i \<Longrightarrow> block_pages i k \<inter> block_pages (buddy_of i k) k = {}"
  using not_dvd_double [of k i] by (auto simp: buddy_of_def block_pages_def)

lemma merge_disjoint:
  assumes "wf_blocks b" "block_ok i k" "block_pages i k \<inter> free_pages b = {}" "b (buddy_of i k) = Some k"
  shows "block_pages (min i (buddy_of i k)) (k + 1) \<inter> free_pages (b(buddy_of i k := None)) = {}"
  using assms buddy_pages_Un [of k i] free_pages_del [OF assms(1,4)]
  by (auto simp: block_ok_def)

lemma blocks_insert_merge:
  "k < 18 \<and> b (buddy_of i k) = Some k \<Longrightarrow>
   blocks_insert b i k = blocks_insert (b(buddy_of i k := None)) (min i (buddy_of i k)) (k + 1)"
  by (subst blocks_insert.simps) simp

lemma blocks_insert_done:
  "\<not> (k < 18 \<and> b (buddy_of i k) = Some k) \<Longrightarrow> blocks_insert b i k = b(i \<mapsto> k)"
  by (subst blocks_insert.simps) (simp only: if_False)

theorem blocks_insert_correct:
  "wf_blocks b \<Longrightarrow> block_ok i k \<Longrightarrow> block_pages i k \<inter> free_pages b = {} \<Longrightarrow>
   wf_blocks (blocks_insert b i k) \<and> free_pages (blocks_insert b i k) = free_pages b \<union> block_pages i k"
proof (induction b i k rule: blocks_insert.induct)
  case (1 b i k)
  show ?case
  proof (cases "k < 18 \<and> b (buddy_of i k) = Some k")
    case True
    have dvd: "2 ^ k dvd i" using "1.prems"(2) by (simp add: block_ok_def)
    have ok: "block_ok (min i (buddy_of i k)) (k + 1)"
      using True "1.prems" by (intro block_ok_merge wf_blocks_ok [of b "buddy_of i k" k]) simp_all
    have IH: "wf_blocks (blocks_insert b i k) \<and>
       free_pages (blocks_insert b i k) =
         free_pages (b(buddy_of i k := None)) \<union> block_pages (min i (buddy_of i k)) (k + 1)"
      unfolding blocks_insert_merge [of k b i, OF True]
      by (rule "1.IH" [OF True wf_blocks_del [OF "1.prems"(1)] ok merge_disjoint [OF "1.prems" conjunct2 [OF True]]])
    have "block_pages (buddy_of i k) k \<subseteq> free_pages b"
      using True block_pages_free [of b "buddy_of i k" k] by blast
    then show ?thesis
      using IH True free_pages_del [OF "1.prems"(1), of "buddy_of i k" k] buddy_pages_Un [OF dvd] by auto
  next
    case False
    show ?thesis
      unfolding blocks_insert_done [of k b i, OF False]
      using "1.prems" wf_blocks_add [of b i k] free_pages_add [of b i k] disjoint_free_not_block [of i k b]
      by (simp del: fun_upd_apply)
  qed
qed

lemma coalesced_del: "coalesced b \<Longrightarrow> coalesced (b(i := None))"
  by (simp add: coalesced_def)

lemma coalesced_add:
  assumes "coalesced b" "wf_blocks b" "2 ^ k dvd i" "k < 18 \<Longrightarrow> b (buddy_of i k) \<noteq> Some k"
  shows "coalesced (b(i \<mapsto> k))"
  unfolding coalesced_def
proof (intro allI impI notI)
  fix j l assume j: "(b(i \<mapsto> k)) j = Some l" "l < 18" "(b(i \<mapsto> k)) (buddy_of j l) = Some l"
  show False
  proof (cases "j = i \<or> buddy_of j l = i")
    case False
    then show ?thesis using j assms(1) by (simp add: coalesced_def)
  next
    case True
    then have "l = k" using j by (auto split: if_splits)
    have "j \<noteq> i \<Longrightarrow> 2 ^ k dvd j"
      using j(1) \<open>l = k\<close> assms(2) wf_blocks_ok [of b j l] by (simp add: block_ok_def)
    then have "j \<noteq> i \<Longrightarrow> buddy_of i k = j" using True \<open>l = k\<close> buddy_of_buddy_of [of k j] by simp
    then show False
      using True j assms(4) \<open>l = k\<close> buddy_of_neq [OF assms(3)] by (auto split: if_splits)
  qed
qed

theorem blocks_insert_coalesced:
  "coalesced b \<Longrightarrow> wf_blocks b \<Longrightarrow> block_ok i k \<Longrightarrow> coalesced (blocks_insert b i k)"
proof (induction b i k rule: blocks_insert.induct)
  case (1 b i k)
  show ?case
  proof (cases "k < 18 \<and> b (buddy_of i k) = Some k")
    case True
    have "block_ok (min i (buddy_of i k)) (k + 1)"
      using True "1.prems" by (intro block_ok_merge wf_blocks_ok [of b "buddy_of i k" k]) simp_all
    then show ?thesis
      unfolding blocks_insert_merge [of k b i, OF True]
      by (rule "1.IH" [OF True coalesced_del [OF "1.prems"(1)] wf_blocks_del [OF "1.prems"(2)]])
  next
    case False
    then show ?thesis
      unfolding blocks_insert_done [of k b i, OF False]
      using "1.prems" coalesced_add [of b k i] by (simp add: block_ok_def del: fun_upd_apply)
  qed
qed

section \<open>Splitting a block\<close>

lemma block_pages_Suc: "block_pages i (Suc k) = block_pages i k \<union> block_pages (i + 2 ^ k) k"
proof -
  have "{i..<i + 2 ^ k} \<union> {i + 2 ^ k..<i + 2 ^ k + 2 ^ k} = {i..<i + 2 ^ k + 2 ^ k}"
    by (rule ivl_disj_un_two(3)) simp_all
  then show ?thesis
    by (simp add: block_pages_def mult_2 add.assoc)
qed

lemma right_half:
  assumes "block_ok i (Suc k)"
  shows "block_ok i k" "block_ok (i + 2 ^ k) k" "buddy_of (i + 2 ^ k) k = i"
    "block_pages i (Suc k) = block_pages i k \<union> block_pages (i + 2 ^ k) k"
    "block_pages i k \<inter> block_pages (i + 2 ^ k) k = {}"
proof -
  from assms have i: "0 < i" "Suc k \<le> 18" "2 ^ (k + 1) dvd i" "i + 2 ^ k + 2 ^ k \<le> 262144"
    by (simp_all add: block_ok_def)
  note dvd = dvd_double_add [OF i(3)]
  show "block_ok i k" "block_ok (i + 2 ^ k) k"
    using i dvd(2) by (simp_all add: block_ok_def)
  show "buddy_of (i + 2 ^ k) k = i"
    using dvd(1) by (simp add: buddy_of_def)
  show "block_pages i k \<inter> block_pages (i + 2 ^ k) k = {}"
    by (simp add: block_pages_def)
qed (rule block_pages_Suc)

theorem blocks_split_correct:
  "wf_blocks b \<Longrightarrow> block_ok i k \<Longrightarrow> r \<le> k \<Longrightarrow> block_pages i k \<inter> free_pages b = {} \<Longrightarrow>
   wf_blocks (blocks_split b i r k) \<and>
   free_pages (blocks_split b i r k) = free_pages b \<union> (block_pages i k - block_pages i r) \<and>
   blocks_split b i r k i = None"
proof (induction k arbitrary: b)
  case 0
  then show ?case using disjoint_free_not_block [of i 0 b] by simp
next
  case (Suc k)
  have sk: "blocks_split b i r j = b" if "j \<le> r" for j
    using that by (induction j) auto
  show ?case
  proof (cases "r \<le> k")
    case True
    note half = right_half [OF Suc.prems(2)]
    have disj: "block_pages (i + 2 ^ k) k \<inter> free_pages b = {}" "block_pages i k \<inter> free_pages b = {}"
      using Suc.prems(4) half(4) by auto
    let ?b = "b(i + 2 ^ k \<mapsto> k)"
    have fp: "free_pages ?b = free_pages b \<union> block_pages (i + 2 ^ k) k"
      by (rule free_pages_add [where b = b, OF disjoint_free_not_block [OF disj(1)]])
    have "wf_blocks (blocks_split ?b i r k) \<and>
      free_pages (blocks_split ?b i r k) = free_pages ?b \<union> (block_pages i k - block_pages i r) \<and>
      blocks_split ?b i r k i = None"
    proof (rule Suc.IH)
      show "wf_blocks ?b" by (rule wf_blocks_add [OF Suc.prems(1) half(2) disj(1)])
      show "block_pages i k \<inter> free_pages ?b = {}" unfolding fp using half(5) disj(2) by blast
    qed (fact half(1), fact True)
    moreover have "block_pages i r \<subseteq> block_pages i k"
      using True by (simp add: block_pages_def)
    ultimately show ?thesis
      using True half(4,5) by (auto simp: fp)
  next
    case False
    then have "r = Suc k" using Suc.prems(3) by simp
    then show ?thesis using Suc.prems sk [of "Suc k"] disjoint_free_not_block [of i r b] by simp
  qed
qed

theorem blocks_split_coalesced:
  "coalesced b \<Longrightarrow> wf_blocks b \<Longrightarrow> block_ok i k \<Longrightarrow> block_pages i k \<inter> free_pages b = {} \<Longrightarrow>
   coalesced (blocks_split b i r k)"
proof (induction k arbitrary: b)
  case (Suc k)
  note half = right_half [OF Suc.prems(3)]
  have disj: "block_pages (i + 2 ^ k) k \<inter> free_pages b = {}" "block_pages i k \<inter> free_pages b = {}"
    using Suc.prems(4) half(4) by auto
  show ?case
  proof (cases "r \<le> k")
    case True
    let ?b = "b(i + 2 ^ k \<mapsto> k)"
    have fp: "free_pages ?b = free_pages b \<union> block_pages (i + 2 ^ k) k"
      by (rule free_pages_add [where b = b, OF disjoint_free_not_block [OF disj(1)]])
    have "b i = None" using disjoint_free_not_block [OF disj(2)] .
    then have "coalesced ?b"
      using coalesced_add [of b k "i + 2 ^ k", OF Suc.prems(1,2)] half(2,3) by (simp add: block_ok_def)
    moreover have "wf_blocks ?b"
      by (rule wf_blocks_add [OF Suc.prems(2) half(2) disj(1)])
    moreover have "block_pages i k \<inter> free_pages ?b = {}"
      unfolding fp using half(5) disj(2) by blast
    ultimately have "coalesced (blocks_split ?b i r k)"
      using Suc.IH half(1) by blast
    with True show ?thesis by simp
  next
    case False
    then show ?thesis using Suc.IH [OF Suc.prems(1,2) half(1) disj(2)] by simp
  qed
qed simp

section \<open>No external fragmentation\<close>

text \<open>In a coalesced state every aligned run of free pages lies inside one free block.\<close>

theorem aligned_run_in_block:
  assumes "wf_blocks b" "coalesced b"
  shows "2 ^ r dvd a \<Longrightarrow> r \<le> 18 \<Longrightarrow> block_pages a r \<subseteq> free_pages b \<Longrightarrow>
         \<exists>i k. b i = Some k \<and> r \<le> k \<and> block_pages a r \<subseteq> block_pages i k"
proof (induction r arbitrary: a)
  case 0
  then have "a \<in> free_pages b" using block_pages_base by blast
  then obtain i k where "b i = Some k" "a \<in> block_pages i k"
    unfolding free_pages_iff by blast
  then show ?case by (intro exI [of _ i] exI [of _ k]) (simp add: block_pages_def)
next
  case (Suc r)
  have dvd: "2 ^ r dvd a" "2 ^ r dvd a + 2 ^ r"
    using Suc.prems(1) dvd_double_add(2) [of r a] by auto
  note un = block_pages_Suc [of a r]
  have sub: "block_pages a r \<subseteq> free_pages b" "block_pages (a + 2 ^ r) r \<subseteq> free_pages b"
    using Suc.prems(3) un by simp_all
  obtain i k where i: "b i = Some k" "r \<le> k" "block_pages a r \<subseteq> block_pages i k"
    using Suc.IH [OF dvd(1)] Suc.prems(2) sub(1) Suc_leD by blast
  obtain j l where j: "b j = Some l" "r \<le> l" "block_pages (a + 2 ^ r) r \<subseteq> block_pages j l"
    using Suc.IH [OF dvd(2)] Suc.prems(2) sub(2) Suc_leD by blast
  have big: "block_pages a (Suc r) \<subseteq> block_pages x m"
    if "b x = Some m" "Suc r \<le> m" "p \<in> block_pages a (Suc r)" "p \<in> block_pages x m" for x m p
    using blocks_nested [OF Suc.prems(1) _ that(2-4)] wf_blocks_ok [of b x m, OF assms(1) that(1)]
    by (simp add: block_ok_def)
  have same: "x = y" if "b x = Some r" "block_pages y r \<subseteq> block_pages x r" for x y
    using that(2) by (simp add: block_pages_def)
  show ?case
  proof (cases "k = r \<and> l = r")
    case True
    then have "i = a" "j = a + 2 ^ r"
      using i(1,3) j(1,3) same by blast+
    then have "b a = Some r" "b (a + 2 ^ r) = Some r"
      using True i(1) j(1) by simp_all
    moreover have "buddy_of a r = a + 2 ^ r"
      using Suc.prems(1) by (simp add: buddy_of_def)
    ultimately have False
      using assms(2) [unfolded coalesced_def, THEN spec, THEN spec, of a r] Suc.prems(2) by simp
    then show ?thesis ..
  next
    case False
    then consider "Suc r \<le> k" | "Suc r \<le> l" using i(2) j(2) by (cases "k = r") auto
    then show ?thesis
    proof cases
      case 1
      have "block_pages a (Suc r) \<subseteq> block_pages i k"
        using subsetD [OF i(3) block_pages_base] by (rule big [OF i(1) 1 block_pages_base])
      with 1 i(1) show ?thesis by (intro exI [of _ i] exI [of _ k]) simp
    next
      case 2
      have "block_pages a (Suc r) \<subseteq> block_pages j l"
        using subsetD [OF j(3) block_pages_base] by (rule big [OF j(1) 2, rotated]) (simp add: un)
      with 2 j(1) show ?thesis by (intro exI [of _ j] exI [of _ l]) simp
    qed
  qed
qed

text \<open>A coalesced block map is determined by its set of free pages.\<close>

lemma block_subset_same:
  assumes "wf_blocks b" "b i = Some k" "b j = Some l" "block_pages i k \<subseteq> block_pages j l"
  shows "i = j"
  using wf_blocks_disjoint [of b i k j l] assms block_pages_base [of i k] by blast

lemma coalesced_block_eq:
  assumes b: "wf_blocks b" "coalesced b" and c: "wf_blocks c" "coalesced c"
    and eq: "free_pages b = free_pages c" and i: "b i = Some k"
  shows "c i = Some k"
proof -
  have run: "\<exists>j l. d j = Some l \<and> k' \<le> l \<and> block_pages i' k' \<subseteq> block_pages j l"
    if "e i' = Some k'" "wf_blocks e" "wf_blocks d" "coalesced d" "free_pages e = free_pages d" for d e i' k'
    using aligned_run_in_block [OF that(3,4), of k' i'] block_pages_free [of e i' k', OF that(1)]
      wf_blocks_ok [of e i' k', OF that(2,1)] that(5) by (simp add: block_ok_def)
  obtain j l where j: "c j = Some l" "k \<le> l" "block_pages i k \<subseteq> block_pages j l"
    using run [OF i b(1) c eq] by blast
  obtain x m where x: "b x = Some m" "l \<le> m" "block_pages j l \<subseteq> block_pages x m"
    using run [OF j(1) c(1) b eq [symmetric]] by blast
  have "i = x" using block_subset_same [of b i k x m, OF b(1) i x(1)] j(3) x(3) by blast
  then have "m = k" using i x(1) by simp
  then have "l = k" "block_pages i k = block_pages j l" using j x \<open>i = x\<close> by auto
  then have "i \<in> block_pages j l" "j \<in> block_pages i k" using block_pages_base by blast+
  then have "i = j" by (simp add: block_pages_def)
  with j(1) \<open>l = k\<close> show ?thesis by simp
qed

theorem coalesced_unique:
  assumes "wf_blocks b" "coalesced b" "wf_blocks c" "coalesced c" "free_pages b = free_pages c"
  shows "b = c"
proof
  fix i
  show "b i = c i"
  proof (cases "b i")
    case None
    show ?thesis
    proof (cases "c i")
      case (Some k)
      have "b i = Some k" using coalesced_block_eq [of c b i k] assms Some by simp
      with None show ?thesis by simp
    qed (simp add: None)
  next
    case (Some k)
    then show ?thesis using coalesced_block_eq [of b c i k] assms by simp
  qed
qed

end
