(* ===== verification/Frames.thy ===== *)
theory Frames
  imports Pmm Buddy_Blocks
begin

text \<open>
  Page frames below \<open>PMM_MAX_PHYS_ADDR\<close> by their index: the address computations of \<open>pmm.c\<close>
  (validity, order alignment, the XOR that finds a buddy) restated on indices, and the bytes a frame
  occupies at its higher-half alias.
\<close>

definition frame_addr :: "nat \<Rightarrow> u32" where
  "frame_addr i = of_nat (4096 * i)"

definition in_frame :: "nat \<Rightarrow> u32 \<Rightarrow> bool" where
  "in_frame i x \<longleftrightarrow> unat x div 4096 = i + 786432"

definition link :: "mem \<Rightarrow> u32 \<Rightarrow> u32" where
  "link m p = load32 m (pmm_phys_to_virt p)"

named_theorems frame_simps \<open>frame addresses computed on indices\<close>

lemma unat_frame_addr [frame_simps]: "i < 262144 \<Longrightarrow> unat (frame_addr i) = 4096 * i"
  unfolding frame_addr_def by (subst unat_of_nat) simp

lemma frame_addr_inj [frame_simps]: "i < 262144 \<Longrightarrow> j < 262144 \<Longrightarrow> frame_addr i = frame_addr j \<longleftrightarrow> i = j"
  by (simp add: word_unat_eq_iff unat_frame_addr)

lemma frame_addr_less [frame_simps]: "i < 262144 \<Longrightarrow> j < 262144 \<Longrightarrow> frame_addr i < frame_addr j \<longleftrightarrow> i < j"
  by (simp add: word_less_nat_alt unat_frame_addr)

lemma frame_addr_nonzero [frame_simps]: "0 < i \<Longrightarrow> i < 262144 \<Longrightarrow> frame_addr i \<noteq> 0"
  by (simp add: word_unat_eq_iff unat_frame_addr)

lemma page_index_frame_addr [frame_simps]: "i < 262144 \<Longrightarrow> buddy_phys_to_page_index (frame_addr i) = i"
  by (simp only: buddy_phys_to_page_index_def unat_drop_bit_eq unat_frame_addr) (simp add: drop_bit_eq_div)

lemma block_size_power: "buddy_order_block_size_bytes k = 2 ^ (12 + k)"
  by (simp add: buddy_order_block_size_bytes_def push_bit_eq_mult power_add)

lemma valid_phys_iff: "buddy_is_valid_phys p \<longleftrightarrow> (\<exists>i<262144. p = frame_addr i)"
proof
  assume "buddy_is_valid_phys p"
  then have "4096 dvd unat p" "unat p < 1073741824"
    using and_mask_zero [of 12 p] by (simp_all add: buddy_is_valid_phys_def word_less_nat_alt)
  then obtain i where "unat p = 4096 * i" "i < 262144" by (auto elim!: dvdE)
  then show "\<exists>i<262144. p = frame_addr i"
    by (intro exI [of _ i]) (simp add: word_unat_eq_iff unat_frame_addr)
next
  assume "\<exists>i<262144. p = frame_addr i"
  then show "buddy_is_valid_phys p"
    using and_mask_zero [of 12 p]
    by (auto simp: buddy_is_valid_phys_def word_less_nat_alt unat_frame_addr)
qed

lemma order_aligned_frame [frame_simps]:
  assumes "i < 262144" "k \<le> 18"
  shows "buddy_is_order_aligned (frame_addr i) k \<longleftrightarrow> 2 ^ k dvd i"
proof -
  have "(2::nat) ^ (12 + k) dvd 4096 * i \<longleftrightarrow> 2 ^ k dvd i"
    by (simp add: power_add)
  then show ?thesis
    using assms and_mask_zero [of "12 + k" "frame_addr i"]
    by (simp add: buddy_is_order_aligned_def block_size_power unat_frame_addr)
qed

lemma add_block_size [frame_simps]: "frame_addr i + buddy_order_block_size_bytes k = frame_addr (i + 2 ^ k)"
  by (simp add: frame_addr_def block_size_power power_add algebra_simps)

lemma bit_frame_addr:
  assumes "2 ^ k dvd i" "i < 262144" "k < 18"
  shows "bit (frame_addr i) (12 + k) \<longleftrightarrow> \<not> 2 ^ (k + 1) dvd i"
proof -
  from assms(1) obtain x where x: "i = 2 ^ k * x" by (auto elim: dvdE)
  have "bit (frame_addr i) (12 + k) \<longleftrightarrow> odd (unat (frame_addr i) div 2 ^ (12 + k))"
    using bit_unsigned_iff [where 'a = nat, of "frame_addr i" "12 + k"] by (simp only: bit_iff_odd [of "unat _"] possible_bit_nat simp_thms)
  also have "unat (frame_addr i) div 2 ^ (12 + k) = x"
    using assms(2) x by (simp add: unat_frame_addr power_add)
  finally show ?thesis using x by (simp add: mult.commute)
qed

lemma xor_block_size [frame_simps]:
  assumes "2 ^ k dvd i" "i < 262144" "k < 18"
  shows "frame_addr i XOR buddy_order_block_size_bytes k = frame_addr (buddy_of i k)"
proof -
  have "frame_addr i XOR buddy_order_block_size_bytes k = flip_bit (12 + k) (frame_addr i)"
    by (simp add: flip_bit_eq_xor block_size_power push_bit_eq_mult)
  also have "\<dots> = (if bit (frame_addr i) (12 + k) then frame_addr i - 2 ^ (12 + k) else frame_addr i + 2 ^ (12 + k))"
    by (simp add: flip_bit_eq_if set_bit_eq unset_bit_eq)
  finally show ?thesis
    using bit_frame_addr [OF assms] not_dvd_double [of k i] assms(1) add_block_size [of i k] add_block_size [of "i - 2 ^ k" k]
    by (auto simp: buddy_of_def block_size_power eq_diff_eq diff_eq_eq)
qed

lemma frame_node_less: "numa_inv numa \<Longrightarrow> frame_node numa p < 8"
proof -
  assume inv: "numa_inv numa"
  then have "unat (numa_node_count numa) \<le> 8"
    by (simp add: numa_inv_def word_le_nat_alt)
  then show ?thesis
    by (simp add: frame_node_def Let_def numa_policy_get_node_count_def word_le_nat_alt)
qed

section \<open>Page rounding\<close>

definition PAGE_ALIGN_UP :: "u32 \<Rightarrow> u32" where
  "PAGE_ALIGN_UP a = (a + 0xFFF) AND 0xFFFFF000"

definition PAGE_ALIGN_DOWN :: "u32 \<Rightarrow> u32" where
  "PAGE_ALIGN_DOWN a = a AND 0xFFFFF000"

lemma unat_page_addr: "i < 1048576 \<Longrightarrow> unat (frame_addr i) = 4096 * i"
  unfolding frame_addr_def by (subst unat_of_nat) simp

lemma page_number_less: "unat (a::u32) div 4096 < 1048576"
proof -
  have "unat a < 4096 * 1048576" using unsigned_less [where 'a = nat, of a] by simp
  then show ?thesis by (simp add: less_mult_imp_div_less)
qed

lemma and_page_mask: "(a::u32) AND 0xFFFFF000 = frame_addr (unat a div 4096)"
proof -
  have "(0xFFFFF000::u32) = NOT (2 ^ 12 - 1)"
    by (simp add: eq_neg_iff_add_eq_0)
  then have "unat (a AND 0xFFFFF000) = unat a - unat a mod 4096"
    using unat_and_not_low [of 12 a] by (simp only:) simp
  also have "\<dots> = 4096 * (unat a div 4096)" by (simp add: minus_mod_eq_mult_div)
  also have "\<dots> = unat (frame_addr (unat a div 4096))"
    by (rule unat_page_addr [OF page_number_less, symmetric])
  finally show ?thesis by (simp add: word_unat_eq_iff)
qed

section \<open>The bytes of a frame\<close>

lemma unat_frame_virt [frame_simps]: "i < 262144 \<Longrightarrow> unat (pmm_phys_to_virt (frame_addr i)) = 4096 * (i + 786432)"
  by (simp add: pmm_phys_to_virt_def unat_word_ariths unat_frame_addr)

lemma in_frame_offset:
  assumes "i < 262144" "unat (x - pmm_phys_to_virt (frame_addr i)) < 4096"
  shows "in_frame i x"
proof -
  let ?v = "pmm_phys_to_virt (frame_addr i)"
  have v: "unat ?v = 4096 * (i + 786432)" using assms(1) by (rule unat_frame_virt)
  have "?v \<le> x"
  proof (rule ccontr)
    assume "\<not> ?v \<le> x"
    then have "unat (x - ?v) = unat x + 2 ^ 32 - unat ?v"
      by (subst unat_sub_if') (simp add: word_le_nat_alt)
    then show False using assms v by simp
  qed
  then have "unat (x - ?v) = unat x - unat ?v" "unat ?v \<le> unat x"
    by (simp_all add: unat_sub_if' word_le_nat_alt)
  then have "4096 * (i + 786432) \<le> unat x" "unat x < 4096 * (i + 786432) + 4096"
    using assms(2) v by simp_all
  then have "unat x div 4096 = i + 786432"
    by (intro div_nat_eqI) simp_all
  then show ?thesis by (simp add: in_frame_def)
qed

lemma store32_frame: "i < 262144 \<Longrightarrow> \<not> in_frame i x \<Longrightarrow> store32 m (pmm_phys_to_virt (frame_addr i)) v x = m x"
  using in_frame_offset [of i x] by (intro store32_other) fastforce

lemma link_store_same [simp]: "link (store32 m (pmm_phys_to_virt p) v) p = v"
  by (simp add: link_def)

lemma link_cong:
  assumes "i < 262144" "\<And>x. in_frame i x \<Longrightarrow> m x = m' x"
  shows "link m (frame_addr i) = link m' (frame_addr i)"
  unfolding link_def
proof (rule load32_cong)
  fix x assume "unat (x - pmm_phys_to_virt (frame_addr i)) < 4"
  then show "m x = m' x" using in_frame_offset [of i x] assms by simp
qed

lemma link_store_other:
  assumes "i < 262144" "j < 262144" "i \<noteq> j"
  shows "link (store32 m (pmm_phys_to_virt (frame_addr i)) v) (frame_addr j) = link m (frame_addr j)"
  using assms by (intro link_cong store32_frame) (auto simp: in_frame_def)

lemma poison_other:
  assumes "4096 \<le> unat (x - pv) \<or> unat (x - pv) < 4"
  shows "buddy_poison pv m x = m x"
proof -
  have "fold (\<lambda>i m. m(pv + 4 + of_nat i := 0xAA)) is m x = m x" if "set is \<subseteq> {0..<4092}" for "is"
    using that
  proof (induction "is" arbitrary: m)
    case (Cons i "is")
    have "x \<noteq> pv + 4 + of_nat i"
    proof
      assume "x = pv + 4 + of_nat i"
      then have "x - pv = 4 + of_nat i" by simp
      moreover have "unat (4 + of_nat i :: u32) = 4 + i"
        using Cons.prems by (simp add: unat_word_ariths unat_of_nat)
      ultimately show False using assms Cons.prems by auto
    qed
    with Cons show ?case by simp
  qed simp
  then show ?thesis by (simp add: buddy_poison_def)
qed

lemma poison_frame: "i < 262144 \<Longrightarrow> \<not> in_frame i x \<Longrightarrow> buddy_poison (pmm_phys_to_virt (frame_addr i)) m x = m x"
  using in_frame_offset [of i x] by (intro poison_other) (auto simp: not_less [symmetric])

lemma link_poison [simp]: "link (buddy_poison (pmm_phys_to_virt p) m) p = link m p"
  unfolding link_def by (rule load32_cong) (simp add: poison_other)

section \<open>Page arrays\<close>

lemma mark_range_eq:
  assumes "i < 262144"
  shows "buddy_mark_range v (frame_addr i) k a = (\<lambda>p. if p \<in> block_pages i k then v else a p)"
proof -
  have "fold (\<lambda>off a. a(i + off := v)) [0..<n] a = (\<lambda>p. if i \<le> p \<and> p < i + n then v else a p)" for n
    by (induction n) (auto simp: fun_eq_iff)
  then show ?thesis
    using assms by (simp add: buddy_mark_range_def page_index_frame_addr block_pages_def)
qed

lemma range_is_allocated_iff:
  "i < 262144 \<Longrightarrow> buddy_range_is_allocated (frame_addr i) k s \<longleftrightarrow> block_pages i k \<subseteq> {p. buddy_page_allocated s p}"
proof -
  assume "i < 262144"
  moreover have "(\<forall>off < 2 ^ k. buddy_page_allocated s (i + off)) \<longleftrightarrow> (\<forall>p \<in> {i..<i + 2 ^ k}. buddy_page_allocated s p)"
    by (auto simp: le_iff_add)
  ultimately show ?thesis
    by (auto simp: buddy_range_is_allocated_def page_index_frame_addr block_pages_def list_all_iff subset_eq)
qed

end
