(* ===== verification/Buddy.thy ===== *)
theory Buddy
  imports Frames
begin

text \<open>
  Correctness of the server build's buddy allocator (\<open>buddy_*\<close> in
  \<open>src/kernel/arch/i386/cpu/pmm.c\<close>). The page arrays abstract to a block map (\<open>blocks_of\<close>), every
  list of a node and order is a chain through the free frames, and inserting and removing refine the
  operations on block maps.
\<close>

definition blocks_of :: "pmm_state \<Rightarrow> blocks" where
  "blocks_of s = (\<lambda>i. if buddy_page_is_free s i then Some (buddy_page_order s i) else None)"

definition allocated_pages :: "pmm_state \<Rightarrow> nat set" where
  "allocated_pages s = {p. buddy_page_allocated s p}"

definition list_blocks :: "numa_state \<Rightarrow> pmm_state \<Rightarrow> nat \<Rightarrow> nat \<Rightarrow> nat set" where
  "list_blocks numa s n k = {i. blocks_of s i = Some k \<and> frame_node numa (frame_addr i) = n}"

definition buddy_lists :: "numa_state \<Rightarrow> pmm_state \<Rightarrow> bool" where
  "buddy_lists numa s \<longleftrightarrow>
     (\<forall>n < 8. \<forall>k \<le> 18. \<exists>xs. chain (link (ram s)) (buddy_free_list_heads s n k) xs \<and>
        set xs = frame_addr ` list_blocks numa s n k)"

definition buddy_core :: "numa_state \<Rightarrow> pmm_state \<Rightarrow> bool" where
  "buddy_core numa s \<longleftrightarrow> numa_inv numa \<and> wf_blocks (blocks_of s) \<and> buddy_lists numa s"

definition buddy_inv :: "numa_state \<Rightarrow> pmm_state \<Rightarrow> bool" where
  "buddy_inv numa s \<longleftrightarrow>
     buddy_core numa s \<and> coalesced (blocks_of s) \<and>
     free_pages (blocks_of s) \<inter> allocated_pages s = {} \<and>
     allocated_pages s \<subseteq> {0<..<262144} \<and>
     unat (free_page_count s) = card (free_pages (blocks_of s))"

text \<open>Memory changes only inside the frames of \<open>P\<close>.\<close>

definition ram_frame :: "nat set \<Rightarrow> pmm_state \<Rightarrow> pmm_state \<Rightarrow> bool" where
  "ram_frame P s s' \<longleftrightarrow> (\<forall>x. (\<forall>i \<in> P. \<not> in_frame i x) \<longrightarrow> ram s' x = ram s x)"

text \<open>Only the link words, the list heads and the free markers differ.\<close>

definition links_only :: "pmm_state \<Rightarrow> pmm_state \<Rightarrow> bool" where
  "links_only s s' \<longleftrightarrow>
     s' = s\<lparr>ram := ram s', buddy_free_list_heads := buddy_free_list_heads s', buddy_page_is_free := buddy_page_is_free s'\<rparr>"

lemma links_only_refl [simp]: "links_only s s"
  by (simp add: links_only_def)

lemma links_onlyE:
  assumes "links_only s s'"
  obtains m h f where "s' = s\<lparr>ram := m, buddy_free_list_heads := h, buddy_page_is_free := f\<rparr>"
  using assms unfolding links_only_def by blast

lemma links_only_trans:
  assumes "links_only s s'" "links_only s' s''"
  shows "links_only s s''"
  by (rule links_onlyE [OF assms(1)], rule links_onlyE [OF assms(2)]) (simp add: links_only_def)

lemma ram_frame_refl [simp]: "ram_frame P s s"
  by (simp add: ram_frame_def)

lemma ram_frame_trans: "ram_frame P s s' \<Longrightarrow> ram_frame P s' s'' \<Longrightarrow> ram_frame P s s''"
  by (simp add: ram_frame_def)

lemma ram_frame_mono: "ram_frame P s s' \<Longrightarrow> P \<subseteq> Q \<Longrightarrow> ram_frame Q s s'"
  unfolding ram_frame_def by blast

lemma block_ok_index: "block_ok i k \<Longrightarrow> i < 262144" "block_ok i k \<Longrightarrow> 0 < i" "block_ok i k \<Longrightarrow> k \<le> 18"
  using zero_less_power [of "2::nat" k] unfolding block_ok_def by linarith+

lemma list_blocks_ok:
  assumes "wf_blocks (blocks_of s)" "i \<in> list_blocks numa s n k"
  shows "block_ok i k"
  using assms(2) wf_blocks_ok [OF assms(1), of i k] by (simp add: list_blocks_def)

lemma buddy_listsE:
  assumes "buddy_lists numa s" "n < 8" "k \<le> 18"
  obtains xs where "chain (link (ram s)) (buddy_free_list_heads s n k) xs"
    "set xs = frame_addr ` list_blocks numa s n k"
  using assms unfolding buddy_lists_def by blast

text \<open>One list changes: the others keep their head, their blocks and their links.\<close>

lemma buddy_lists_update:
  assumes lists: "buddy_lists numa s"
    and other: "\<And>n' k'. (n', k') \<noteq> (n, k) \<Longrightarrow>
      buddy_free_list_heads s' n' k' = buddy_free_list_heads s n' k' \<and> list_blocks numa s' n' k' = list_blocks numa s n' k'"
    and links: "\<And>n' k' j. (n', k') \<noteq> (n, k) \<Longrightarrow> j \<in> list_blocks numa s n' k' \<Longrightarrow>
      link (ram s') (frame_addr j) = link (ram s) (frame_addr j)"
    and new: "chain (link (ram s')) (buddy_free_list_heads s' n k) xs" "set xs = frame_addr ` list_blocks numa s' n k"
  shows "buddy_lists numa s'"
  unfolding buddy_lists_def
proof (intro allI impI)
  fix n' k' :: nat assume "n' < 8" "k' \<le> 18"
  show "\<exists>xs. chain (link (ram s')) (buddy_free_list_heads s' n' k') xs \<and> set xs = frame_addr ` list_blocks numa s' n' k'"
  proof (cases "(n', k') = (n, k)")
    case True
    then show ?thesis using new by (intro exI [of _ xs]) simp
  next
    case False
    obtain ys where ys: "chain (link (ram s)) (buddy_free_list_heads s n' k') ys"
      "set ys = frame_addr ` list_blocks numa s n' k'"
      using buddy_listsE [OF lists \<open>n' < 8\<close> \<open>k' \<le> 18\<close>] .
    have "chain (link (ram s')) (buddy_free_list_heads s n' k') ys"
      using ys(1) chain_cong [of ys "link (ram s)" "link (ram s')"] links [OF False] ys(2) by fastforce
    with ys(2) other [OF False] show ?thesis by (intro exI [of _ ys]) simp
  qed
qed

section \<open>Pushing a block\<close>

lemma push_fields [simp]:
  "free_page_count (buddy_list_push cfg numa k p s) = free_page_count s"
  "buddy_population_in_progress (buddy_list_push cfg numa k p s) = buddy_population_in_progress s"
  "buddy_rejected_free_count (buddy_list_push cfg numa k p s) = buddy_rejected_free_count s"
  "buddy_double_free_count (buddy_list_push cfg numa k p s) = buddy_double_free_count s"
  by (simp_all add: buddy_list_push_def Let_def)

lemma push_blocks:
  "i < 262144 \<Longrightarrow> blocks_of (buddy_list_push cfg numa k (frame_addr i) s) = (blocks_of s)(i \<mapsto> k)"
  by (auto simp: blocks_of_def buddy_list_push_def Let_def page_index_frame_addr fun_eq_iff)

lemma push_allocated:
  "i < 262144 \<Longrightarrow>
   allocated_pages (buddy_list_push cfg numa k (frame_addr i) s) = allocated_pages s - block_pages i k"
  by (auto simp: allocated_pages_def buddy_list_push_def Let_def mark_range_eq)

lemma push_heads:
  "buddy_free_list_heads (buddy_list_push cfg numa k p s) n k' =
     (if n = frame_node numa p \<and> k' = k then p else buddy_free_list_heads s n k')"
  by (simp add: buddy_list_push_def Let_def)

lemma push_link_same:
  "link (ram (buddy_list_push cfg numa k p s)) p = buddy_free_list_heads s (frame_node numa p) k"
  by (simp add: buddy_list_push_def Let_def)

lemma push_ram: "i < 262144 \<Longrightarrow> ram_frame {i} s (buddy_list_push cfg numa k (frame_addr i) s)"
  by (simp add: ram_frame_def buddy_list_push_def Let_def store32_frame poison_frame)

lemma ram_frame_link:
  assumes "ram_frame P s s'" "j \<notin> P" "j < 262144"
  shows "link (ram s') (frame_addr j) = link (ram s) (frame_addr j)"
proof (rule link_cong [OF assms(3)])
  fix x assume "in_frame j x"
  with assms(2) have "\<forall>i \<in> P. \<not> in_frame i x" by (auto simp: in_frame_def)
  with assms(1) show "ram s' x = ram s x" by (simp add: ram_frame_def)
qed

lemma push_core:
  assumes "buddy_core numa s" "block_ok i k" "block_pages i k \<inter> free_pages (blocks_of s) = {}"
  shows "buddy_core numa (buddy_list_push cfg numa k (frame_addr i) s)" (is "buddy_core numa ?s")
proof -
  let ?n = "frame_node numa (frame_addr i)"
  note i = block_ok_index [OF assms(2)]
  have wf: "wf_blocks (blocks_of s)" and inv: "numa_inv numa" and lists: "buddy_lists numa s"
    using assms(1) by (simp_all add: buddy_core_def)
  have new: "blocks_of s i = None" by (rule disjoint_free_not_block [OF assms(3)])
  have lb: "list_blocks numa ?s n' k' = (if (n', k') = (?n, k) then insert i (list_blocks numa s n' k') else list_blocks numa s n' k')" for n' k'
    using new by (auto simp: list_blocks_def push_blocks [OF i(1)])
  have links: "link (ram ?s) (frame_addr j) = link (ram s) (frame_addr j)" if "j \<in> list_blocks numa s n' k'" for j n' k'
  proof (rule ram_frame_link [OF push_ram [OF i(1)]])
    show "j \<notin> {i}" using that new by (auto simp: list_blocks_def)
    show "j < 262144" using block_ok_index(1) [OF list_blocks_ok [OF wf that]] .
  qed
  obtain xs where xs: "chain (link (ram s)) (buddy_free_list_heads s ?n k) xs" "set xs = frame_addr ` list_blocks numa s ?n k"
    using buddy_listsE [OF lists frame_node_less [OF inv] i(3)] .
  have "chain (link (ram ?s)) (buddy_free_list_heads s ?n k) xs"
    using xs(1) chain_cong [of xs "link (ram s)" "link (ram ?s)"] links xs(2) by fastforce
  then have "chain (link (ram ?s)) (buddy_free_list_heads ?s ?n k) (frame_addr i # xs)"
    by (simp add: push_heads push_link_same frame_addr_nonzero i)
  moreover have "set (frame_addr i # xs) = frame_addr ` list_blocks numa ?s ?n k"
    using xs(2) by (simp add: lb)
  ultimately have "buddy_lists numa ?s"
    by (rule buddy_lists_update [OF lists, where n = ?n and k = k, rotated 2])
      (simp add: lb push_heads, metis, simp add: links)
  moreover have "wf_blocks (blocks_of ?s)"
    unfolding push_blocks [OF i(1)] by (rule wf_blocks_add [OF wf assms(2,3)])
  ultimately show ?thesis using inv by (simp add: buddy_core_def)
qed

section \<open>Taking a block off its list\<close>

lemma head_in_list:
  assumes "buddy_core numa s" "n < 8" "k \<le> 18"
  shows "buddy_free_list_heads s n k \<noteq> 0 \<longleftrightarrow> list_blocks numa s n k \<noteq> {}"
    and "buddy_free_list_heads s n k \<noteq> 0 \<Longrightarrow> buddy_free_list_heads s n k \<in> frame_addr ` list_blocks numa s n k"
proof -
  obtain xs where "chain (link (ram s)) (buddy_free_list_heads s n k) xs" "set xs = frame_addr ` list_blocks numa s n k"
    using buddy_listsE [of numa s n k] assms by (auto simp: buddy_core_def)
  then show "buddy_free_list_heads s n k \<noteq> 0 \<longleftrightarrow> list_blocks numa s n k \<noteq> {}"
    "buddy_free_list_heads s n k \<noteq> 0 \<Longrightarrow> buddy_free_list_heads s n k \<in> frame_addr ` list_blocks numa s n k"
    by (cases xs; force)+
qed

definition buddy_unlink :: "nat \<Rightarrow> nat \<Rightarrow> u32 \<Rightarrow> u32 \<Rightarrow> pmm_state \<Rightarrow> pmm_state" where
  "buddy_unlink n k q p s =
     (if q \<noteq> 0 then s\<lparr>ram := store32 (ram s) (pmm_phys_to_virt q) (link (ram s) p)\<rparr>
      else s\<lparr>buddy_free_list_heads := (buddy_free_list_heads s)(n := (buddy_free_list_heads s n)(k := link (ram s) p))\<rparr>)
     \<lparr>buddy_page_is_free := (buddy_page_is_free s)(buddy_phys_to_page_index p := False)\<rparr>"

lemma walk_found:
  "chain (link (ram s)) cur (as @ p # bs) \<Longrightarrow> p \<notin> set as \<Longrightarrow>
   buddy_list_walk n k p prev cur s = Some (True, buddy_unlink n k (last (prev # as)) p s)"
proof (induction as arbitrary: prev cur)
  case Nil
  then show ?case
    by (subst buddy_list_walk.simps) (simp add: buddy_unlink_def Let_def link_def)
next
  case (Cons a as)
  then have "chain (link (ram s)) (link (ram s) cur) (as @ p # bs)" "cur = a" "cur \<noteq> 0" "cur \<noteq> p" by auto
  then show ?case
    using Cons.IH [of "link (ram s) cur" cur] Cons.prems(2)
    by (subst buddy_list_walk.simps) (simp add: Let_def flip: link_def)
qed

lemma unlink_blocks:
  "i < 262144 \<Longrightarrow> blocks_of (buddy_unlink n k q (frame_addr i) s) = (blocks_of s)(i := None)"
  by (auto simp: blocks_of_def buddy_unlink_def page_index_frame_addr fun_eq_iff)

lemma unlink_fields: "links_only s (buddy_unlink n k q p s)"
  by (simp add: links_only_def buddy_unlink_def)

lemma list_blocks_del:
  "blocks_of s' = (blocks_of s)(i := None) \<Longrightarrow> list_blocks numa s' n k = list_blocks numa s n k - {i}"
  by (auto simp: list_blocks_def split: if_splits)

lemma frame_addr_image_del:
  assumes "wf_blocks (blocks_of s)" "i \<in> list_blocks numa s n k"
  shows "frame_addr ` (list_blocks numa s n k - {i}) = frame_addr ` list_blocks numa s n k - {frame_addr i}"
proof -
  have "inj_on frame_addr (list_blocks numa s n k)"
    using block_ok_index(1) [OF list_blocks_ok [OF assms(1)]] by (auto simp: inj_on_def frame_addr_inj)
  then show ?thesis using assms(2) by (auto simp: inj_on_def)
qed

text \<open>Unlinking the block \<open>i\<close> behind \<open>q\<close> (0 when it is the head) from its list.\<close>

lemma unlink_core:
  assumes core: "buddy_core numa s" and n: "n < 8" and i: "i \<in> list_blocks numa s n k"
    and ch: "chain (link (ram s)) (buddy_free_list_heads s n k) (as @ frame_addr i # bs)"
    and st: "set (as @ frame_addr i # bs) = frame_addr ` list_blocks numa s n k"
  defines "s' \<equiv> buddy_unlink n k (last (0 # as)) (frame_addr i) s"
  shows "buddy_core numa s'" "ram_frame (free_pages (blocks_of s) - {i}) s s'"
proof -
  have wf: "wf_blocks (blocks_of s)" and lists: "buddy_lists numa s" using core by (simp_all add: buddy_core_def)
  note iok = block_ok_index [OF list_blocks_ok [OF wf i]]
  have b': "blocks_of s' = (blocks_of s)(i := None)" unfolding s'_def by (rule unlink_blocks [OF iok(1)])
  have dist: "distinct (as @ frame_addr i # bs)" by (rule chain_distinct [OF ch])
  have set': "set (as @ bs) = frame_addr ` list_blocks numa s' n k"
    using dist st by (auto simp: list_blocks_del [OF b'] frame_addr_image_del [OF wf i])
  have i_other: "i \<notin> list_blocks numa s n' k'" if "(n', k') \<noteq> (n, k)" for n' k'
    using i that by (auto simp: list_blocks_def)
  have goal: "buddy_core numa s' \<and> ram_frame (free_pages (blocks_of s) - {i}) s s'"
    if heads: "\<And>n' k'. (n', k') \<noteq> (n, k) \<Longrightarrow> buddy_free_list_heads s' n' k' = buddy_free_list_heads s n' k'"
      and chain': "chain (link (ram s')) (buddy_free_list_heads s' n k) (as @ bs)"
      and frame: "ram_frame P s s'" and P: "P \<subseteq> list_blocks numa s n k - {i}" for P
  proof
    have "buddy_lists numa s'"
    proof (rule buddy_lists_update [OF lists, where n = n and k = k, OF _ _ chain' set'])
      fix n' k' j assume ne: "(n', k') \<noteq> (n, k)" and j: "j \<in> list_blocks numa s n' k'"
      have "j \<notin> P" using P j ne by (auto simp: list_blocks_def)
      then show "link (ram s') (frame_addr j) = link (ram s) (frame_addr j)"
        using ram_frame_link [OF frame] block_ok_index(1) [OF list_blocks_ok [OF wf j]] by blast
    qed (use heads i_other list_blocks_del [OF b'] in simp)
    then show "buddy_core numa s'"
      using core wf_blocks_del [OF wf] by (simp add: buddy_core_def b' del: fun_upd_apply)
    have "P \<subseteq> free_pages (blocks_of s) - {i}"
      using P block_pages_free [of "blocks_of s"] block_pages_base by (fastforce simp: list_blocks_def)
    then show "ram_frame (free_pages (blocks_of s) - {i}) s s'"
      by (rule ram_frame_mono [OF frame])
  qed
  have "buddy_core numa s' \<and> ram_frame (free_pages (blocks_of s) - {i}) s s'"
  proof (cases as rule: rev_cases)
    case Nil
    then show ?thesis
      using ch by (intro goal [of "{}"]) (auto simp: s'_def buddy_unlink_def ram_frame_def)
  next
    case (snoc as' q)
    then obtain j where j: "q = frame_addr j" "j \<in> list_blocks numa s n k" using st by auto
    have ji: "j \<noteq> i" using dist snoc j by auto
    note jok = block_ok_index [OF list_blocks_ok [OF wf j(2)]]
    have q: "q \<noteq> 0" using chain_not_null [OF ch] snoc by auto
    let ?l = "(link (ram s))(q := link (ram s) (frame_addr i))"
    have ram': "ram s' = store32 (ram s) (pmm_phys_to_virt q) (link (ram s) (frame_addr i))"
      using q snoc by (simp add: s'_def buddy_unlink_def)
    have "chain ?l (buddy_free_list_heads s n k) (as' @ q # bs)"
      using chain_remove_middle ch dist snoc by simp
    moreover have "link (ram s') x = ?l x" if "x \<in> set (as' @ q # bs)" for x
    proof -
      have "x \<in> frame_addr ` list_blocks numa s n k" using that st snoc by auto
      then obtain m where "x = frame_addr m" "m \<in> list_blocks numa s n k" by blast
      then show ?thesis
        using block_ok_index(1) [OF list_blocks_ok [OF wf]] link_store_other [OF jok(1), of m]
        by (cases "m = j") (auto simp: ram' j(1) frame_addr_inj jok(1))
    qed
    ultimately have "chain (link (ram s')) (buddy_free_list_heads s n k) (as' @ q # bs)"
      using chain_cong [of "as' @ q # bs" "link (ram s')" ?l] by blast
    then show ?thesis
      using j(2) ji snoc q
      by (intro goal [of "{j}"])
        (auto simp: s'_def buddy_unlink_def ram_frame_def j(1) store32_frame [OF jok(1)])
  qed
  then show "buddy_core numa s'" "ram_frame (free_pages (blocks_of s) - {i}) s s'" by blast+
qed

lemma remove_exact_correct:
  assumes core: "buddy_core numa s" and i: "blocks_of s i = Some k"
  obtains s' where "buddy_list_remove_exact (frame_node numa (frame_addr i)) k (frame_addr i) s = Some (True, s')"
    "buddy_core numa s'" "blocks_of s' = (blocks_of s)(i := None)"
    "ram_frame (free_pages (blocks_of s) - {i}) s s'"
    "links_only s s'"
proof -
  let ?n = "frame_node numa (frame_addr i)"
  have wf: "wf_blocks (blocks_of s)" and inv: "numa_inv numa" and lists: "buddy_lists numa s"
    using core by (simp_all add: buddy_core_def)
  note iok = block_ok_index [OF wf_blocks_ok [of "blocks_of s", OF wf i]]
  have n: "?n < 8" by (rule frame_node_less [OF inv])
  have i': "i \<in> list_blocks numa s ?n k" using i by (simp add: list_blocks_def)
  obtain xs where xs: "chain (link (ram s)) (buddy_free_list_heads s ?n k) xs" "set xs = frame_addr ` list_blocks numa s ?n k"
    using buddy_listsE [OF lists n iok(3)] .
  have "frame_addr i \<in> set xs" using xs(2) i' by simp
  then obtain as bs where sp: "xs = as @ frame_addr i # bs" "frame_addr i \<notin> set as" by (meson split_list_first)
  note ch = xs [unfolded sp(1)]
  show thesis
  proof (rule that)
    show "buddy_list_remove_exact ?n k (frame_addr i) s = Some (True, buddy_unlink ?n k (last (0 # as)) (frame_addr i) s)"
      unfolding buddy_list_remove_exact_def by (rule walk_found [OF ch(1) sp(2)])
  qed (rule unlink_core [OF core n i' ch] unlink_blocks [OF iok(1)] unlink_fields)+
qed

section \<open>Releasing: \<open>buddy_insert_order\<close>\<close>

lemma can_merge_iff:
  assumes "wf_blocks (blocks_of s)" "block_ok i k" "k < 18"
  shows "buddy_can_merge k (frame_addr i XOR buddy_order_block_size_bytes k) s \<longleftrightarrow> blocks_of s (buddy_of i k) = Some k"
proof -
  have x: "frame_addr i XOR buddy_order_block_size_bytes k = frame_addr (buddy_of i k)"
    using assms block_ok_index [OF assms(2)] by (intro xor_block_size) (simp_all add: block_ok_def)
  have "2 ^ k dvd i" "i + 2 ^ k \<le> 262144" using assms(2) by (simp_all add: block_ok_def)
  moreover have "(2::nat) ^ (k + 1) dvd 262144"
  proof -
    have "(2::nat) ^ (k + 1) dvd 2 ^ 18" using assms(3) by (intro le_imp_power_dvd) simp
    then show ?thesis by simp
  qed
  ultimately have "buddy_of i k < 262144"
    using block_ok_index(1) [OF assms(2)] pow2_dvd_lt [of "k + 1" i 262144] by (auto simp: buddy_of_def)
  then show ?thesis
    unfolding x by (auto simp: buddy_can_merge_def Let_def valid_phys_iff page_index_frame_addr blocks_of_def)
qed

lemma merge_loop_correct:
  assumes "buddy_core numa s" "block_ok i k" "block_pages i k \<inter> free_pages (blocks_of s) = {}"
  shows "\<exists>k' i' s'. buddy_merge_loop numa k (frame_addr i) s = Some (k', frame_addr i', s') \<and>
     buddy_core numa s' \<and> block_ok i' k' \<and> block_pages i' k' \<inter> free_pages (blocks_of s') = {} \<and>
     blocks_insert (blocks_of s) i k = (blocks_of s')(i' \<mapsto> k') \<and>
     block_pages i k \<subseteq> block_pages i' k' \<and> block_pages i' k' \<subseteq> block_pages i k \<union> free_pages (blocks_of s) \<and>
     ram_frame (free_pages (blocks_of s)) s s' \<and>
     links_only s s'"
  using assms
proof (induction "18 - k" arbitrary: i k s)
  case 0
  then have "\<not> k < 18" by simp
  with 0 show ?case
    by (subst buddy_merge_loop.simps)
      (auto simp: blocks_insert_done [of k "blocks_of s" i] intro!: exI [of _ k] exI [of _ i])
next
  case (Suc d)
  then have k: "k < 18" by simp
  have wf: "wf_blocks (blocks_of s)" using Suc.prems(1) by (simp add: buddy_core_def)
  let ?b = "buddy_of i k"
  show ?case
  proof (cases "blocks_of s ?b = Some k")
    case False
    then show ?thesis
      using Suc.prems k can_merge_iff [OF wf Suc.prems(2) k]
      by (subst buddy_merge_loop.simps)
        (auto simp: Let_def blocks_insert_done [of k "blocks_of s" i] intro!: exI [of _ k] exI [of _ i])
  next
    case True
    note dvd = Suc.prems(2) [unfolded block_ok_def, THEN conjunct2, THEN conjunct2, THEN conjunct1]
    have bok: "block_ok ?b k" by (rule wf_blocks_ok [of "blocks_of s", OF wf True])
    have x: "frame_addr i XOR buddy_order_block_size_bytes k = frame_addr ?b"
      using block_ok_index(1) [OF Suc.prems(2)] k by (rule xor_block_size [OF dvd])
    obtain s1 where s1: "buddy_list_remove_exact (frame_node numa (frame_addr ?b)) k (frame_addr ?b) s = Some (True, s1)"
      "buddy_core numa s1" "blocks_of s1 = (blocks_of s)(?b := None)" "ram_frame (free_pages (blocks_of s) - {?b}) s s1"
      "links_only s s1"
      by (rule remove_exact_correct [of numa s ?b k, OF Suc.prems(1) True])
    have min: "(if frame_addr ?b < frame_addr i then frame_addr ?b else frame_addr i) = frame_addr (min i ?b)"
      using block_ok_index(1) [OF bok] block_ok_index(1) [OF Suc.prems(2)] by (simp add: frame_addr_less min_def not_less)
    have step: "buddy_merge_loop numa k (frame_addr i) s = buddy_merge_loop numa (k + 1) (frame_addr (min i ?b)) s1"
      using k True can_merge_iff [OF wf Suc.prems(2) k] s1(1) min
      by (subst buddy_merge_loop.simps) (simp add: Let_def x)
    have mok: "block_ok (min i ?b) (k + 1)" by (rule block_ok_merge [OF Suc.prems(2) bok k])
    have mdisj: "block_pages (min i ?b) (k + 1) \<inter> free_pages (blocks_of s1) = {}"
      unfolding s1(3) by (rule merge_disjoint [of "blocks_of s", OF wf Suc.prems(2,3) True])
    have fp: "free_pages (blocks_of s1) = free_pages (blocks_of s) - block_pages ?b k"
      unfolding s1(3) by (rule free_pages_del [of "blocks_of s", OF wf True])
    have sub: "block_pages ?b k \<subseteq> free_pages (blocks_of s)" by (rule block_pages_free [of "blocks_of s", OF True])
    have ins: "blocks_insert (blocks_of s) i k = blocks_insert (blocks_of s1) (min i ?b) (k + 1)"
      unfolding s1(3) using k True by (intro blocks_insert_merge) simp
    have "d = 18 - (k + 1)" using Suc.hyps(2) by simp
    from Suc.hyps(1) [OF this s1(2) mok mdisj] obtain k' i' s' where
      r: "buddy_merge_loop numa (k + 1) (frame_addr (min i ?b)) s1 = Some (k', frame_addr i', s')"
        "buddy_core numa s'" "block_ok i' k'" "block_pages i' k' \<inter> free_pages (blocks_of s') = {}"
        "blocks_insert (blocks_of s1) (min i ?b) (k + 1) = (blocks_of s')(i' \<mapsto> k')"
        "block_pages (min i ?b) (k + 1) \<subseteq> block_pages i' k'"
        "block_pages i' k' \<subseteq> block_pages (min i ?b) (k + 1) \<union> free_pages (blocks_of s1)"
        "ram_frame (free_pages (blocks_of s1)) s1 s'"
        "links_only s1 s'"
      by blast
    have "links_only s s'"
      by (rule links_only_trans [OF s1(5) r(9)])
    moreover have "ram_frame (free_pages (blocks_of s)) s s'"
      by (rule ram_frame_trans [OF ram_frame_mono [OF s1(4)] ram_frame_mono [OF r(8)]]) (auto simp: fp)
    moreover have "block_pages i k \<subseteq> block_pages i' k'" "block_pages i' k' \<subseteq> block_pages i k \<union> free_pages (blocks_of s)"
      using r(6,7) sub unfolding buddy_pages_Un [OF dvd, symmetric] fp by blast+
    ultimately show ?thesis
      using r(1-5) unfolding step ins by blast
  qed
qed

lemma blocks_of_cong:
  "buddy_page_is_free s' = buddy_page_is_free s \<Longrightarrow> buddy_page_order s' = buddy_page_order s \<Longrightarrow> blocks_of s' = blocks_of s"
  unfolding blocks_of_def by (simp only:)

lemma update_watermarks_fields [simp]:
  "buddy_page_is_free (pmm_update_watermarks s) = buddy_page_is_free s"
  "buddy_page_order (pmm_update_watermarks s) = buddy_page_order s"
  "buddy_page_allocated (pmm_update_watermarks s) = buddy_page_allocated s"
  "free_page_count (pmm_update_watermarks s) = free_page_count s"
  "ram (pmm_update_watermarks s) = ram s"
  "buddy_free_list_heads (pmm_update_watermarks s) = buddy_free_list_heads s"
  "buddy_population_in_progress (pmm_update_watermarks s) = buddy_population_in_progress s"
  "buddy_rejected_free_count (pmm_update_watermarks s) = buddy_rejected_free_count s"
  "buddy_double_free_count (pmm_update_watermarks s) = buddy_double_free_count s"
  by (simp_all add: pmm_update_watermarks_def Let_def)

lemma update_watermarks_abs [simp]:
  "blocks_of (pmm_update_watermarks s) = blocks_of s"
  "allocated_pages (pmm_update_watermarks s) = allocated_pages s"
  by (simp_all add: allocated_pages_def cong: blocks_of_cong)

lemma buddy_core_cong:
  "blocks_of s' = blocks_of s \<Longrightarrow> ram s' = ram s \<Longrightarrow> buddy_free_list_heads s' = buddy_free_list_heads s \<Longrightarrow>
   buddy_core numa s' \<longleftrightarrow> buddy_core numa s"
  by (simp add: buddy_core_def buddy_lists_def list_blocks_def)

lemma push_bit_one: "push_bit k (1::u32) = 2 ^ k"
  by (simp add: push_bit_eq_mult)

lemma unat_add_pages:
  fixes A B :: "nat set"
  assumes "unat c = card A" "finite A" "A \<subseteq> {0<..<262144}" "k \<le> 18" "B \<inter> A = {}" "card B = 2 ^ k" "A \<union> B \<subseteq> {0<..<262144}" "finite B"
  shows "unat (c + push_bit k (1::u32)) = card (A \<union> B)"
proof -
  have "card (A \<union> B) = card A + 2 ^ k"
    using assms by (subst card_Un_disjoint) auto
  moreover have "card (A \<union> B) \<le> 262143"
    using card_mono [OF _ assms(7)] by simp
  ultimately show ?thesis
    using assms(1,4) by (simp add: push_bit_one unat_word_ariths unat_2p)
qed

text \<open>
  Releasing an aligned range of pages none of which is free: this is what the two guards of the code
  amount to (page ownership in normal operation, a fresh memory map while the pool is populated).
\<close>

lemma insert_core:
  assumes inv: "buddy_inv numa s" and ok: "block_ok i k"
    and disj: "block_pages i k \<inter> free_pages (blocks_of s) = {}"
    and guard: "buddy_population_in_progress s \<or> block_pages i k \<subseteq> allocated_pages s"
  obtains s' where "buddy_insert_order cfg numa (frame_addr i) k s = Some s'" "buddy_inv numa s'"
    "blocks_of s' = blocks_insert (blocks_of s) i k"
    "free_pages (blocks_of s') = free_pages (blocks_of s) \<union> block_pages i k"
    "allocated_pages s' = allocated_pages s - block_pages i k"
    "ram_frame (free_pages (blocks_of s')) s s'"
    "buddy_population_in_progress s' = buddy_population_in_progress s"
    "buddy_rejected_free_count s' = buddy_rejected_free_count s"
    "buddy_double_free_count s' = buddy_double_free_count s"
proof -
  note iok = block_ok_index [OF ok]
  let ?s0 = "s\<lparr>free_page_count := free_page_count s + push_bit k 1\<rparr>"
  have core: "buddy_core numa s" and wf: "wf_blocks (blocks_of s)"
    using inv by (simp_all add: buddy_inv_def buddy_core_def)
  have b0: "blocks_of ?s0 = blocks_of s" by (rule blocks_of_cong) simp_all
  have core0: "buddy_core numa ?s0" using core by (subst buddy_core_cong [of _ s, OF b0]) simp_all
  obtain k' i' s1 where
    m: "buddy_merge_loop numa k (frame_addr i) ?s0 = Some (k', frame_addr i', s1)"
      "buddy_core numa s1" "block_ok i' k'" "block_pages i' k' \<inter> free_pages (blocks_of s1) = {}"
      "blocks_insert (blocks_of s) i k = (blocks_of s1)(i' \<mapsto> k')"
      "block_pages i k \<subseteq> block_pages i' k'" "block_pages i' k' \<subseteq> block_pages i k \<union> free_pages (blocks_of s)"
      "ram_frame (free_pages (blocks_of s)) ?s0 s1" "links_only ?s0 s1"
    using merge_loop_correct [OF core0 ok, unfolded b0, OF disj] by blast
  obtain mm h f where s1: "s1 = ?s0\<lparr>ram := mm, buddy_free_list_heads := h, buddy_page_is_free := f\<rparr>"
    using links_onlyE [OF m(9)] .
  note i'ok = block_ok_index [OF m(3)]
  let ?s2 = "buddy_list_push cfg numa k' (frame_addr i') s1"
  let ?s' = "pmm_update_watermarks ?s2"
  have blocks': "blocks_of ?s' = blocks_insert (blocks_of s) i k"
    by (simp add: push_blocks [OF i'ok(1)] m(5) del: fun_upd_apply)
  note ins = blocks_insert_correct [OF wf ok disj]
  have run: "buddy_insert_order cfg numa (frame_addr i) k s = Some ?s'"
    using iok ok guard m(1)
    by (auto simp: buddy_insert_order_def Let_def buddy_is_valid_order_def valid_phys_iff order_aligned_frame
        block_ok_def range_is_allocated_iff allocated_pages_def)
  have fp: "free_pages (blocks_of ?s') = free_pages (blocks_of s) \<union> block_pages i k"
    using ins blocks' by simp
  have al: "allocated_pages ?s' = allocated_pages s - block_pages i k"
  proof -
    have "allocated_pages s1 = allocated_pages s" by (simp add: s1 allocated_pages_def)
    moreover have "free_pages (blocks_of s) \<inter> allocated_pages s = {}" using inv by (simp add: buddy_inv_def)
    ultimately show ?thesis using m(6,7) by (auto simp: push_allocated [OF i'ok(1)])
  qed
  have "buddy_core numa ?s'"
    using push_core [OF m(2-4)] by (subst buddy_core_cong [of _ ?s2]) simp_all
  moreover have "unat (free_page_count ?s') = card (free_pages (blocks_of ?s'))"
  proof -
    have "free_pages (blocks_of s) \<union> block_pages i k \<subseteq> {0<..<262144}"
      using free_pages_bounds [of "blocks_of ?s'"] fp ins blocks' by simp
    moreover have "free_page_count ?s' = free_page_count s + push_bit k 1"
      by (simp add: s1)
    ultimately show ?thesis
      using inv iok(3) disj free_pages_bounds [OF wf] finite_free_pages [OF wf]
      unfolding fp by (auto simp: buddy_inv_def simp del: push_bit_of_1 intro!: unat_add_pages)
  qed
  moreover have "coalesced (blocks_of ?s')"
    unfolding blocks' using inv wf ok by (intro blocks_insert_coalesced) (simp_all add: buddy_inv_def)
  ultimately have "buddy_inv numa ?s'"
    using inv unfolding buddy_inv_def al fp by auto
  moreover have "ram_frame (free_pages (blocks_of ?s')) s ?s'"
  proof (rule ram_frame_trans)
    show "ram_frame (free_pages (blocks_of ?s')) s s1"
      unfolding fp by (rule ram_frame_mono [of "free_pages (blocks_of s)"]) (use m(8) in \<open>simp_all add: ram_frame_def\<close>)
    have "i' \<in> free_pages (blocks_of ?s')" using m(7) block_pages_base [of i' k'] fp by blast
    then show "ram_frame (free_pages (blocks_of ?s')) s1 ?s'"
      using push_ram [OF i'ok(1), of s1 cfg numa k'] by (simp add: ram_frame_def)
  qed
  ultimately show thesis
    using run blocks' fp al by (intro that [of ?s']) (simp_all add: s1)
qed

section \<open>Allocating: \<open>buddy_remove_order\<close>\<close>

lemma pop_correct:
  assumes core: "buddy_core numa s" and n: "n < 8" and k: "k \<le> 18" and head: "buddy_free_list_heads s n k \<noteq> 0"
  obtains i s' where "buddy_list_pop_from_node cfg n k s = (frame_addr i, s')" "blocks_of s i = Some k" "block_ok i k"
    "buddy_core numa s'" "blocks_of s' = (blocks_of s)(i := None)" "ram s' = ram s"
    "allocated_pages s' = allocated_pages s \<union> block_pages i k" "free_page_count s' = free_page_count s"
    "buddy_population_in_progress s' = buddy_population_in_progress s"
proof -
  have wf: "wf_blocks (blocks_of s)" and lists: "buddy_lists numa s"
    using core by (simp_all add: buddy_core_def)
  obtain i where i: "buddy_free_list_heads s n k = frame_addr i" "i \<in> list_blocks numa s n k"
    using head_in_list(2) [OF core n k head] by blast
  note ok = list_blocks_ok [OF wf i(2)] note iok = block_ok_index [OF ok]
  obtain xs where xs: "chain (link (ram s)) (buddy_free_list_heads s n k) xs" "set xs = frame_addr ` list_blocks numa s n k"
    using buddy_listsE [OF lists n k] .
  from xs(1) head i(1) obtain bs where "xs = [] @ frame_addr i # bs" by (cases xs) auto
  note ch = xs [unfolded this]
  let ?u = "buddy_unlink n k 0 (frame_addr i) s"
  let ?s' = "snd (buddy_list_pop_from_node cfg n k s)"
  have run: "buddy_list_pop_from_node cfg n k s = (frame_addr i, ?s')"
    using head i(1) by (simp add: buddy_list_pop_from_node_def Let_def)
  have fields: "buddy_page_is_free ?s' = buddy_page_is_free ?u" "buddy_page_order ?s' = buddy_page_order ?u"
    "buddy_free_list_heads ?s' = buddy_free_list_heads ?u" "ram ?s' = ram ?u" "ram ?u = ram s"
    "free_page_count ?s' = free_page_count s" "buddy_population_in_progress ?s' = buddy_population_in_progress s"
    using head i(1) by (simp_all add: buddy_list_pop_from_node_def Let_def buddy_unlink_def link_def)
  have "buddy_core numa ?u" using unlink_core(1) [OF core n i(2) ch] by simp
  then have "buddy_core numa ?s'"
    by (subst buddy_core_cong [of _ ?u, OF blocks_of_cong]) (simp_all add: fields)
  moreover have "blocks_of ?s' = (blocks_of s)(i := None)"
    using blocks_of_cong [OF fields(1,2)] unlink_blocks [OF iok(1)] by simp
  moreover have "allocated_pages ?s' = allocated_pages s \<union> block_pages i k"
    using head i(1) by (auto simp: buddy_list_pop_from_node_def Let_def allocated_pages_def mark_range_eq [OF iok(1)])
  ultimately show thesis
    using run ok i(2) fields by (intro that [of i ?s']) (simp_all add: list_blocks_def)
qed

lemma split_correct:
  assumes "buddy_core numa s" "block_ok i k" "r \<le> k" "block_pages i k \<inter> free_pages (blocks_of s) = {}"
  shows "buddy_core numa (buddy_split_loop cfg numa r (frame_addr i) k s) \<and>
     blocks_of (buddy_split_loop cfg numa r (frame_addr i) k s) = blocks_split (blocks_of s) i r k \<and>
     allocated_pages (buddy_split_loop cfg numa r (frame_addr i) k s) = allocated_pages s - (block_pages i k - block_pages i r) \<and>
     ram_frame (block_pages i k - block_pages i r) s (buddy_split_loop cfg numa r (frame_addr i) k s) \<and>
     free_page_count (buddy_split_loop cfg numa r (frame_addr i) k s) = free_page_count s \<and>
     buddy_population_in_progress (buddy_split_loop cfg numa r (frame_addr i) k s) = buddy_population_in_progress s"
  using assms
proof (induction k arbitrary: s)
  case (Suc k)
  have stop: "buddy_split_loop cfg numa r p j t = t \<and> blocks_split b i r j = b" if "j \<le> r" for j p t b
    using that by (induction j) (simp_all add: Let_def)
  show ?case
  proof (cases "r \<le> k")
    case False
    then have "r = Suc k" using Suc.prems(3) by simp
    then show ?thesis using stop [of "Suc k"] Suc.prems(1) by simp
  next
    case True
    note half = right_half [OF Suc.prems(2)]
    note hok = block_ok_index [OF half(2)]
    let ?s = "buddy_list_push cfg numa k (frame_addr (i + 2 ^ k)) s"
    have disj: "block_pages (i + 2 ^ k) k \<inter> free_pages (blocks_of s) = {}" "block_pages i k \<inter> free_pages (blocks_of s) = {}"
      using Suc.prems(4) half(4) by auto
    have b: "blocks_of ?s = (blocks_of s)(i + 2 ^ k \<mapsto> k)" by (rule push_blocks [OF hok(1)])
    have fp: "free_pages (blocks_of ?s) = free_pages (blocks_of s) \<union> block_pages (i + 2 ^ k) k"
      unfolding b by (rule free_pages_add [of "blocks_of s", OF disjoint_free_not_block [OF disj(1)]])
    have step: "buddy_split_loop cfg numa r (frame_addr i) (Suc k) s = buddy_split_loop cfg numa r (frame_addr i) k ?s"
      "blocks_split (blocks_of s) i r (Suc k) = blocks_split (blocks_of ?s) i r k"
      using True by (simp_all add: Let_def add_block_size b)
    have "block_pages i k \<inter> free_pages (blocks_of ?s) = {}" using half(5) disj(2) by (auto simp: fp)
    note IH = Suc.IH [OF push_core [OF Suc.prems(1) half(2) disj(1)] half(1) True this]
    have sub: "block_pages i r \<subseteq> block_pages i k" using True by (simp add: block_pages_def)
    have "ram_frame (block_pages i (Suc k) - block_pages i r) s (buddy_split_loop cfg numa r (frame_addr i) k ?s)"
    proof (rule ram_frame_trans)
      have "i + 2 ^ k \<in> block_pages i (Suc k) - block_pages i r"
        using sub half(4,5) block_pages_base [of "i + 2 ^ k" k] by blast
      then have "{i + 2 ^ k} \<subseteq> block_pages i (Suc k) - block_pages i r" by simp
      then show "ram_frame (block_pages i (Suc k) - block_pages i r) s ?s"
        by (rule ram_frame_mono [OF push_ram [OF hok(1)]])
      show "ram_frame (block_pages i (Suc k) - block_pages i r) ?s (buddy_split_loop cfg numa r (frame_addr i) k ?s)"
        by (rule ram_frame_mono [of "block_pages i k - block_pages i r"]) (use IH half(4) in auto)
    qed
    moreover have "allocated_pages ?s - (block_pages i k - block_pages i r) =
        allocated_pages s - (block_pages i (Suc k) - block_pages i r)"
      unfolding push_allocated [OF hok(1)] using half(4,5) sub by blast
    ultimately show ?thesis
      using IH unfolding step push_fields by (elim conjE, intro conjI) (assumption | simp only:)+
  qed
qed simp

lemma unat_sub_pages:
  fixes A B :: "nat set"
  assumes "unat c = card A" "finite A" "B \<subseteq> A" "card B = 2 ^ k" "k \<le> 18"
  shows "unat (c - push_bit k (1::u32)) = card (A - B)"
proof -
  have "card B \<le> card A" "card (A - B) = card A - card B"
    using assms(2,3) by (auto intro: card_mono simp: card_Diff_subset finite_subset)
  then show ?thesis
    using assms(1,4,5) by (simp add: push_bit_one unat_sub_if' unat_2p)
qed

lemma block_ok_smaller:
  assumes "block_ok i k" "r \<le> k" shows "block_ok i r"
proof -
  have "(2::nat) ^ r \<le> 2 ^ k" using assms(2) by (simp add: power_increasing)
  with assms(1) have "i + 2 ^ r \<le> 262144" unfolding block_ok_def by linarith
  moreover have "(2::nat) ^ r dvd 2 ^ k" using assms(2) by (rule le_imp_power_dvd)
  ultimately show ?thesis using assms by (auto simp: block_ok_def intro: dvd_trans)
qed

lemma remove_from_correct:
  assumes inv: "buddy_inv numa s" and n: "n < 8" and k: "r \<le> k" "k \<le> 18" and head: "buddy_free_list_heads s n k \<noteq> 0"
  obtains i s' where "buddy_remove_from cfg numa r n k s = (frame_addr i, s')" "buddy_inv numa s'" "block_ok i r"
    "block_pages i r \<subseteq> free_pages (blocks_of s)"
    "free_pages (blocks_of s') = free_pages (blocks_of s) - block_pages i r"
    "allocated_pages s' = allocated_pages s \<union> block_pages i r"
    "ram_frame (free_pages (blocks_of s')) s s'"
    "buddy_population_in_progress s' = buddy_population_in_progress s"
proof -
  have core: "buddy_core numa s" and wf: "wf_blocks (blocks_of s)"
    using inv by (simp_all add: buddy_inv_def buddy_core_def)
  obtain i s1 where p: "buddy_list_pop_from_node cfg n k s = (frame_addr i, s1)" "blocks_of s i = Some k" "block_ok i k"
    "buddy_core numa s1" "blocks_of s1 = (blocks_of s)(i := None)" "ram s1 = ram s"
    "allocated_pages s1 = allocated_pages s \<union> block_pages i k" "free_page_count s1 = free_page_count s"
    "buddy_population_in_progress s1 = buddy_population_in_progress s"
    using pop_correct [OF core n k(2) head] .
  note iok = block_ok_index [OF p(3)]
  have fp1: "free_pages (blocks_of s1) = free_pages (blocks_of s) - block_pages i k"
    unfolding p(5) by (rule free_pages_del [of "blocks_of s", OF wf p(2)])
  have disj: "block_pages i k \<inter> free_pages (blocks_of s1) = {}" by (auto simp: fp1)
  let ?s2 = "buddy_split_loop cfg numa r (frame_addr i) k s1"
  let ?s' = "pmm_update_watermarks (?s2\<lparr>free_page_count := free_page_count ?s2 - push_bit r 1\<rparr>)"
  note sp = split_correct [OF p(4,3) k(1) disj, of cfg]
  have wf1: "wf_blocks (blocks_of s1)" using p(4) by (simp add: buddy_core_def)
  have run: "buddy_remove_from cfg numa r n k s = (frame_addr i, ?s')"
    using frame_addr_nonzero [OF iok(2,1)] by (simp add: buddy_remove_from_def p(1) Let_def)
  have b': "blocks_of ?s' = blocks_split (blocks_of s1) i r k"
    using sp by (simp cong: blocks_of_cong)
  have sub: "block_pages i r \<subseteq> block_pages i k" using k(1) by (simp add: block_pages_def)
  have isub: "block_pages i k \<subseteq> free_pages (blocks_of s)" by (rule block_pages_free [of "blocks_of s", OF p(2)])
  note bs = blocks_split_correct [OF wf1 p(3) k(1) disj]
  have fp: "free_pages (blocks_of ?s') = free_pages (blocks_of s) - block_pages i r"
    unfolding b' using bs fp1 sub isub by auto
  have al: "allocated_pages ?s' = allocated_pages s \<union> block_pages i r"
  proof -
    have "free_pages (blocks_of s) \<inter> allocated_pages s = {}" using inv by (simp add: buddy_inv_def)
    moreover have "allocated_pages ?s' = allocated_pages ?s2" by (simp add: allocated_pages_def)
    ultimately show ?thesis using sp p(7) sub isub by auto
  qed
  have "buddy_core numa ?s'"
  proof -
    have "buddy_core numa ?s2" using sp by blast
    then show ?thesis by (subst buddy_core_cong [of _ ?s2]) (simp_all cong: blocks_of_cong)
  qed
  moreover have "coalesced (blocks_of ?s')"
    unfolding b' using inv disj p(3) wf1
    by (intro blocks_split_coalesced) (simp_all add: buddy_inv_def p(5) coalesced_del del: fun_upd_apply)
  moreover have "unat (free_page_count ?s') = card (free_pages (blocks_of ?s'))"
  proof -
    have "free_page_count ?s' = free_page_count s - push_bit r 1" using sp p(8) by simp
    then show ?thesis
      unfolding fp using inv sub isub k finite_free_pages [OF wf]
      by (auto simp: buddy_inv_def simp del: push_bit_of_1 intro!: unat_sub_pages)
  qed
  moreover have "allocated_pages ?s' \<subseteq> {0<..<262144}"
    unfolding al using inv sub isub free_pages_bounds [OF wf] by (auto simp: buddy_inv_def)
  moreover have "free_pages (blocks_of ?s') \<inter> allocated_pages ?s' = {}"
    unfolding al fp using inv by (auto simp: buddy_inv_def)
  ultimately have inv': "buddy_inv numa ?s'" by (simp add: buddy_inv_def)
  have "ram_frame (block_pages i k - block_pages i r) s1 ?s2" using sp by blast
  then have "ram_frame (free_pages (blocks_of ?s')) s1 ?s2"
    by (rule ram_frame_mono) (use fp isub in blast)
  then have "ram_frame (free_pages (blocks_of ?s')) s ?s'" using p(6) by (simp add: ram_frame_def)
  moreover have "block_ok i r"
    by (rule block_ok_smaller [OF p(3) k(1)])
  ultimately show thesis
    using run inv' fp al sub isub sp p(9) by (intro that [of i ?s']) auto
qed

lemma find_order_Some:
  assumes "buddy_find_order n r s = Some k"
  shows "r \<le> k" "k \<le> 18" "buddy_free_list_heads s n k \<noteq> 0"
proof -
  from assms obtain j where "j < length [r..<18 + 1]" "k = [r..<18 + 1] ! j" "buddy_free_list_heads s n k \<noteq> 0"
    unfolding buddy_find_order_def find_Some_iff by blast
  then show "r \<le> k" "k \<le> 18" "buddy_free_list_heads s n k \<noteq> 0" by (simp_all del: upt_Suc)
qed

lemma find_order_None: "buddy_find_order n r s = None \<longleftrightarrow> (\<forall>k. r \<le> k \<and> k \<le> 18 \<longrightarrow> buddy_free_list_heads s n k = 0)"
  by (auto simp: buddy_find_order_def find_None_iff)

lemma find_remote_Some:
  assumes "buddy_find_remote l c r s = Some (n, k)"
  shows "n < c" "buddy_find_order n r s = Some k"
proof -
  obtain i where f: "find (\<lambda>i. buddy_find_order ((l + i) mod c) r s \<noteq> None) [1..<c] = Some i"
    and nk: "n = (l + i) mod c" "k = the (buddy_find_order ((l + i) mod c) r s)"
    using assms by (auto simp: buddy_find_remote_def split: option.splits)
  from f have "i \<in> set [1..<c]" "buddy_find_order ((l + i) mod c) r s \<noteq> None"
    by (auto simp: find_Some_iff in_set_conv_nth)
  then show "n < c" "buddy_find_order n r s = Some k" using nk by auto
qed

lemma find_remote_None:
  assumes "buddy_find_remote l c r s = None" "l < c" "n < c" "n \<noteq> l"
  shows "buddy_find_order n r s = None"
proof -
  have all: "\<forall>i \<in> set [1..<c]. buddy_find_order ((l + i) mod c) r s = None"
    using assms(1) by (auto simp: buddy_find_remote_def find_None_iff split: option.splits)
  let ?i = "if l < n then n - l else n + c - l"
  have "?i \<in> set [1..<c]" "(l + ?i) mod c = n" using assms(2-4) by auto
  then show ?thesis using all by metis
qed

definition free_run :: "pmm_state \<Rightarrow> nat \<Rightarrow> bool" where
  "free_run s r \<longleftrightarrow> (\<exists>a. 2 ^ r dvd a \<and> block_pages a r \<subseteq> free_pages (blocks_of s))"

lemma no_heads_no_run:
  assumes inv: "buddy_inv numa s" and r: "r \<le> 18"
    and none: "\<And>n. n < unat (numa_node_count numa) \<Longrightarrow> buddy_find_order n r s = None"
  shows "\<not> free_run s r"
proof
  assume "free_run s r"
  then obtain a where a: "2 ^ r dvd a" "block_pages a r \<subseteq> free_pages (blocks_of s)" by (auto simp: free_run_def)
  have core: "buddy_core numa s" and wf: "wf_blocks (blocks_of s)" and co: "coalesced (blocks_of s)" and ni: "numa_inv numa"
    using inv by (simp_all add: buddy_inv_def buddy_core_def)
  obtain i k where ik: "blocks_of s i = Some k" "r \<le> k"
    using aligned_run_in_block [OF wf co a(1) r a(2)] by blast
  let ?n = "frame_node numa (frame_addr i)"
  have k: "k \<le> 18" using block_ok_index(3) [OF wf_blocks_ok [of "blocks_of s", OF wf ik(1)]] .
  have n: "?n < unat (numa_node_count numa)"
    using ni by (auto simp: frame_node_def Let_def numa_policy_get_node_count_def numa_inv_def word_le_nat_alt not_le)
  have "buddy_free_list_heads s ?n k \<noteq> 0"
    using head_in_list(1) [OF core frame_node_less [OF ni] k] ik(1) by (auto simp: list_blocks_def)
  then show False using none [OF n] ik(2) k by (auto simp: find_order_None)
qed

lemma buddy_inv_hits [simp]:
  "buddy_inv numa (s\<lparr>pmm_local_hits := x\<rparr>) \<longleftrightarrow> buddy_inv numa s"
  "buddy_inv numa (s\<lparr>pmm_remote_hits := x\<rparr>) \<longleftrightarrow> buddy_inv numa s"
  "buddy_inv numa (s\<lparr>pmm_cross_node_fallbacks := x\<rparr>) \<longleftrightarrow> buddy_inv numa s"
  "buddy_inv numa (s\<lparr>buddy_rejected_free_count := x\<rparr>) \<longleftrightarrow> buddy_inv numa s"
  "buddy_inv numa (s\<lparr>buddy_double_free_count := x\<rparr>) \<longleftrightarrow> buddy_inv numa s"
  "buddy_inv numa (s\<lparr>buddy_population_in_progress := b\<rparr>) \<longleftrightarrow> buddy_inv numa s"
  by (simp_all add: buddy_inv_def buddy_core_def buddy_lists_def list_blocks_def allocated_pages_def cong: blocks_of_cong)

lemma remove_order_correct:
  assumes inv: "buddy_inv numa s" and loc: "local_node < numa_node_count numa" and r: "r \<le> 18"
  shows "\<exists>p s'. buddy_remove_order cfg numa local_node r s = Some (p, s') \<and> buddy_inv numa s' \<and>
     buddy_population_in_progress s' = buddy_population_in_progress s \<and>
     (if free_run s r then
        \<exists>i. p = frame_addr i \<and> block_ok i r \<and> block_pages i r \<subseteq> free_pages (blocks_of s) \<and>
            free_pages (blocks_of s') = free_pages (blocks_of s) - block_pages i r \<and>
            allocated_pages s' = allocated_pages s \<union> block_pages i r \<and>
            ram_frame (free_pages (blocks_of s')) s s'
      else p = 0 \<and> s' = s)"
proof -
  have ni: "numa_inv numa" and core: "buddy_core numa s" using inv by (simp_all add: buddy_inv_def buddy_core_def)
  have cnt: "unat (numa_node_count numa) \<le> 8" using ni by (simp add: numa_inv_def word_le_nat_alt)
  have l: "unat local_node < unat (numa_node_count numa)" using loc by (simp add: word_less_nat_alt)
  have success: ?thesis
    if f: "buddy_find_order n r s = Some k" "n < 8"
      and eq: "buddy_remove_order cfg numa local_node r s = Some (buddy_remove_from cfg numa r n k t)"
      and t: "buddy_inv numa t" "blocks_of t = blocks_of s" "allocated_pages t = allocated_pages s" "ram t = ram s"
        "buddy_free_list_heads t = buddy_free_list_heads s" "buddy_population_in_progress t = buddy_population_in_progress s"
    for n k t
  proof -
    note k = find_order_Some [OF f(1)]
    obtain i s' where res: "buddy_remove_from cfg numa r n k t = (frame_addr i, s')" "buddy_inv numa s'" "block_ok i r"
      "block_pages i r \<subseteq> free_pages (blocks_of s)" "free_pages (blocks_of s') = free_pages (blocks_of s) - block_pages i r"
      "allocated_pages s' = allocated_pages s \<union> block_pages i r" "ram_frame (free_pages (blocks_of s')) t s'"
      "buddy_population_in_progress s' = buddy_population_in_progress s"
      using remove_from_correct [OF t(1) f(2) k(1,2), of cfg] k(3) unfolding t by metis
    moreover have "free_run s r" using res(3,4) by (auto simp: free_run_def block_ok_def)
    moreover have "ram_frame (free_pages (blocks_of s')) s s'" using res(7) t(4) by (simp add: ram_frame_def)
    ultimately show ?thesis unfolding eq by auto
  qed
  show ?thesis
  proof (cases "buddy_find_order (unat local_node) r s")
    case (Some k)
    show ?thesis
      by (rule success [OF Some, where t = "s\<lparr>pmm_local_hits := pmm_local_hits s + push_bit r 1\<rparr>"])
        (use l cnt r inv Some in \<open>simp_all add: buddy_remove_order_def buddy_is_valid_order_def allocated_pages_def cong: blocks_of_cong\<close>)
  next
    case None
    show ?thesis
    proof (cases "buddy_find_remote (unat local_node) (unat (numa_node_count numa)) r s")
      case remote: (Some nk)
      obtain n k where nk: "nk = (n, k)" by (cases nk)
      note f = find_remote_Some [OF remote [unfolded nk]]
      show ?thesis
        by (rule success [OF f(2), where t = "s\<lparr>pmm_remote_hits := pmm_remote_hits s + push_bit r 1,
                pmm_cross_node_fallbacks := pmm_cross_node_fallbacks s + 1\<rparr>"])
          (use l cnt r inv f(1) None remote nk in \<open>simp_all add: buddy_remove_order_def buddy_is_valid_order_def
             numa_policy_get_node_count_def allocated_pages_def cong: blocks_of_cong\<close>)
    next
      case remote: None
      have "buddy_find_order n r s = None" if "n < unat (numa_node_count numa)" for n
        using None find_remote_None [OF remote l that] by (cases "n = unat local_node") auto
      then have "\<not> free_run s r" using no_heads_no_run [OF inv r] by blast
      then show ?thesis
        using None remote l cnt r inv
        by (simp add: buddy_remove_order_def buddy_is_valid_order_def numa_policy_get_node_count_def)
    qed
  qed
qed

section \<open>Rejected releases\<close>

lemma insert_order_malformed:
  assumes "\<not> (k \<le> 18 \<and> (\<exists>i < 262144. phys = frame_addr i \<and> 2 ^ k dvd i))"
  shows "buddy_insert_order cfg numa phys k s = Some (s\<lparr>buddy_rejected_free_count := buddy_rejected_free_count s + 1\<rparr>)"
proof (cases "k \<le> 18 \<and> buddy_is_valid_phys phys")
  case True
  then obtain i where i: "i < 262144" "phys = frame_addr i" by (auto simp: valid_phys_iff)
  with assms True have "\<not> buddy_is_order_aligned phys k" by (auto simp: order_aligned_frame)
  with True show ?thesis by (simp add: buddy_insert_order_def Let_def buddy_is_valid_order_def)
next
  case False
  then show ?thesis by (auto simp: buddy_insert_order_def Let_def buddy_is_valid_order_def)
qed

lemma insert_order_not_owned:
  assumes "\<not> buddy_population_in_progress s" "k \<le> 18" "i < 262144" "2 ^ k dvd i" "\<not> block_pages i k \<subseteq> allocated_pages s"
  shows "buddy_insert_order cfg numa (frame_addr i) k s =
     Some (s\<lparr>buddy_rejected_free_count := buddy_rejected_free_count s + 1,
             buddy_double_free_count := buddy_double_free_count s + 1\<rparr>)"
proof -
  have "buddy_is_valid_phys (frame_addr i)" using assms(3) by (auto simp: valid_phys_iff)
  then show ?thesis
    using assms by (simp add: buddy_insert_order_def Let_def buddy_is_valid_order_def order_aligned_frame
        range_is_allocated_iff allocated_pages_def)
qed

section \<open>A populated pool\<close>

lemma numa_inv_static: "numa_inv numa_state_static"
  by (simp add: numa_inv_def numa_state_static_def)

lemma buddy_inv_static: "numa_inv numa \<Longrightarrow> buddy_inv numa (pmm_static m)"
proof -
  have b: "blocks_of (pmm_static m) = (\<lambda>_. None)" by (simp add: blocks_of_def pmm_static_def)
  have "buddy_lists numa (pmm_static m)"
    by (simp add: buddy_lists_def list_blocks_def b) (simp add: pmm_static_def)
  moreover assume "numa_inv numa"
  ultimately show ?thesis
    by (simp add: buddy_inv_def buddy_core_def b allocated_pages_def) (simp add: pmm_static_def)
qed

end
