(* ===== verification/Freelist.thy ===== *)
theory Freelist
  imports Frames
begin

text \<open>
  Correctness of the client build's frame lists (\<open>freelist_push\<close>, \<open>freelist_pop\<close> in
  \<open>src/kernel/arch/i386/cpu/pmm.c\<close>): each node's list holds frames of that node, a pop prefers the
  local node and falls back to the others in index order, and the free-page counter is exact.
\<close>

definition freelist_at :: "numa_state \<Rightarrow> pmm_state \<Rightarrow> (nat \<Rightarrow> nat list) \<Rightarrow> bool" where
  "freelist_at numa s L \<longleftrightarrow> numa_inv numa \<and>
     (\<forall>n < 8. chain (link (ram s)) (free_list_heads s n) (map frame_addr (L n)) \<and>
        (\<forall>i \<in> set (L n). 0 < i \<and> i < 262144 \<and> frame_node numa (frame_addr i) = n))"

definition freelist_frames :: "pmm_state \<Rightarrow> nat set" where
  "freelist_frames s = {i. 0 < i \<and> i < 262144 \<and>
     (\<exists>n < 8. \<exists>xs. chain (link (ram s)) (free_list_heads s n) xs \<and> frame_addr i \<in> set xs)}"

definition freelist_inv :: "numa_state \<Rightarrow> pmm_state \<Rightarrow> bool" where
  "freelist_inv numa s \<longleftrightarrow> (\<exists>L. freelist_at numa s L) \<and> unat (free_page_count s) = card (freelist_frames s)"

lemma freelist_atD:
  assumes "freelist_at numa s L" "n < 8"
  shows "chain (link (ram s)) (free_list_heads s n) (map frame_addr (L n))"
    "i \<in> set (L n) \<Longrightarrow> 0 < i" "i \<in> set (L n) \<Longrightarrow> i < 262144" "i \<in> set (L n) \<Longrightarrow> frame_node numa (frame_addr i) = n"
  using assms by (simp_all add: freelist_at_def)

lemma freelist_frames_eq: "freelist_at numa s L \<Longrightarrow> freelist_frames s = (\<Union>n < 8. set (L n))"
proof -
  assume at: "freelist_at numa s L"
  note D = freelist_atD [OF at]
  show ?thesis
  proof (intro set_eqI iffI)
    fix i assume "i \<in> freelist_frames s"
    then obtain n xs where i: "0 < i" "i < 262144" "n < 8" "chain (link (ram s)) (free_list_heads s n) xs" "frame_addr i \<in> set xs"
      by (auto simp: freelist_frames_def)
    have "xs = map frame_addr (L n)" by (rule chain_unique [OF i(4) D(1) [OF i(3)]])
    then obtain j where "j \<in> set (L n)" "frame_addr i = frame_addr j" using i(5) by auto
    then have "i = j" using i(2) D(3) [OF i(3)] by (simp add: frame_addr_inj)
    then show "i \<in> (\<Union>n < 8. set (L n))" using \<open>j \<in> set (L n)\<close> i(3) by auto
  next
    fix i assume "i \<in> (\<Union>n < 8. set (L n))"
    then obtain n where "n < 8" "i \<in> set (L n)" by auto
    then show "i \<in> freelist_frames s"
      using D [OF \<open>n < 8\<close>] by (auto simp: freelist_frames_def intro!: exI [of _ n])
  qed
qed

lemma freelist_distinct: "freelist_at numa s L \<Longrightarrow> n < 8 \<Longrightarrow> distinct (L n)"
  using chain_distinct [OF freelist_atD(1), of numa s L n] by (simp add: distinct_map)

lemma finite_freelist_frames: "finite (freelist_frames s)"
  by (rule finite_subset [of _ "{..<262144}"]) (auto simp: freelist_frames_def)

lemma card_freelist_frames: "card (freelist_frames s) < 262144"
proof -
  have "freelist_frames s \<subseteq> {0<..<262144}" by (auto simp: freelist_frames_def)
  from card_mono [OF _ this] show ?thesis by simp
qed

lemma freelist_fields [simp]:
  "free_list_heads (pmm_update_watermarks s) = free_list_heads s"
  "ram (pmm_update_watermarks s) = ram s"
  "free_page_count (pmm_update_watermarks s) = free_page_count s"
  by (simp_all add: pmm_update_watermarks_def Let_def)

lemma freelist_at_cong:
  "free_list_heads s' = free_list_heads s \<Longrightarrow> ram s' = ram s \<Longrightarrow> freelist_at numa s' L \<longleftrightarrow> freelist_at numa s L"
  by (simp add: freelist_at_def)

lemma freelist_frames_cong:
  "free_list_heads s' = free_list_heads s \<Longrightarrow> ram s' = ram s \<Longrightarrow> freelist_frames s' = freelist_frames s"
  by (simp add: freelist_frames_def)

section \<open>Push\<close>

lemma push_at:
  assumes at: "freelist_at numa s L" and i: "0 < i" "i < 262144" "i \<notin> freelist_frames s"
  defines "n \<equiv> frame_node numa (frame_addr i)"
  shows "freelist_at numa (freelist_push numa (frame_addr i) s) (L(n := i # L n))" (is "freelist_at numa ?s _")
  unfolding freelist_at_def
proof (intro conjI allI impI)
  note D = freelist_atD [OF at]
  show inv: "numa_inv numa" using at by (simp add: freelist_at_def)
  have n: "n < 8" unfolding n_def by (rule frame_node_less [OF inv])
  have heads: "free_list_heads ?s = (free_list_heads s)(n := frame_addr i)"
    and ram: "ram ?s = store32 (ram s) (pmm_phys_to_virt (frame_addr i)) (free_list_heads s n)"
    by (simp_all add: freelist_push_def Let_def n_def)
  fix m :: nat assume m: "m < 8"
  have "link (ram ?s) x = link (ram s) x" if x: "x \<in> set (map frame_addr (L m))" for x
  proof -
    obtain j where "x = frame_addr j" "j \<in> set (L m)" using x by auto
    moreover have "j \<noteq> i" using i(3) freelist_frames_eq [OF at] m \<open>j \<in> set (L m)\<close> by auto
    ultimately show ?thesis
      using D(3) [OF m] link_store_other [OF i(2), of j] by (auto simp: ram)
  qed
  then have "chain (link (ram ?s)) (free_list_heads s m) (map frame_addr (L m))"
    using D(1) [OF m] chain_cong [of "map frame_addr (L m)" "link (ram ?s)" "link (ram s)"] by blast
  then show "chain (link (ram ?s)) (free_list_heads ?s m) (map frame_addr ((L(n := i # L n)) m))"
    using frame_addr_nonzero [OF i(1,2)] by (auto simp: heads ram)
  show "\<forall>j \<in> set ((L(n := i # L n)) m). 0 < j \<and> j < 262144 \<and> frame_node numa (frame_addr j) = m"
    using i D(2-4) [OF m] n_def by auto
qed

lemma push_frames:
  assumes at: "freelist_at numa s L" and i: "0 < i" "i < 262144" "i \<notin> freelist_frames s"
  shows "freelist_frames (freelist_push numa (frame_addr i) s) = insert i (freelist_frames s)"
proof -
  have "frame_node numa (frame_addr i) < 8" using at by (intro frame_node_less) (simp add: freelist_at_def)
  then show ?thesis
    unfolding freelist_frames_eq [OF push_at [OF at i]] freelist_frames_eq [OF at] by (auto split: if_splits)
qed

lemma freelist_push_correct:
  assumes "freelist_inv numa s" "0 < i" "i < 262144" "i \<notin> freelist_frames s"
  shows "freelist_inv numa (freelist_push numa (frame_addr i) s)"
    "freelist_frames (freelist_push numa (frame_addr i) s) = insert i (freelist_frames s)"
proof -
  obtain L where at: "freelist_at numa s L" using assms(1) by (auto simp: freelist_inv_def)
  show fr: "freelist_frames (freelist_push numa (frame_addr i) s) = insert i (freelist_frames s)"
    by (rule push_frames [OF at assms(2-4)])
  have "unat (free_page_count s) = card (freelist_frames s)" using assms(1) by (simp add: freelist_inv_def)
  then have "unat (free_page_count s + 1) = card (insert i (freelist_frames s))"
    using assms(4) card_freelist_frames [of s] finite_freelist_frames [of s] by (simp add: unat_word_ariths)
  moreover have "free_page_count (freelist_push numa (frame_addr i) s) = free_page_count s + 1"
    by (simp add: freelist_push_def Let_def)
  ultimately show "freelist_inv numa (freelist_push numa (frame_addr i) s)"
    using push_at [OF at assms(2-4)] by (auto simp: freelist_inv_def fr)
qed

section \<open>Pop\<close>

lemma unlink_at:
  assumes at: "freelist_at numa s L" and n: "n < 8" and head: "free_list_heads s n \<noteq> 0"
  obtains i js where "L n = i # js" "free_list_heads s n = frame_addr i"
    "freelist_at numa (freelist_unlink_head n s) (L(n := js))"
    "freelist_frames (freelist_unlink_head n s) = freelist_frames s - {i}" "i \<in> freelist_frames s"
proof -
  note D = freelist_atD [OF at]
  obtain i js where L: "L n = i # js"
    using D(1) [OF n] head by (cases "L n") auto
  have hd: "free_list_heads s n = frame_addr i" using D(1) [OF n] L by simp
  let ?s = "freelist_unlink_head n s"
  have f: "free_list_heads ?s = (free_list_heads s)(n := link (ram s) (frame_addr i))" "ram ?s = ram s"
    by (simp_all add: freelist_unlink_head_def hd link_def)
  have at': "freelist_at numa ?s (L(n := js))"
    using at D(1) [OF n] L unfolding freelist_at_def f by auto
  have "i \<notin> set (L m)" if "m \<noteq> n" "m < 8" for m
    using D(4) [of m i] D(4) [OF n, of i] L that by auto
  moreover have "i \<notin> set js" using freelist_distinct [OF at n] L by simp
  ultimately have "set ((L(n := js)) m) = set (L m) - {i}" if "m < 8" for m
    using that L by (cases "m = n") auto
  then have "(\<Union>m < 8. set ((L(n := js)) m)) = (\<Union>m < 8. set (L m)) - {i}"
    by (simp del: fun_upd_apply)
  then have "freelist_frames ?s = freelist_frames s - {i}"
    by (simp only: freelist_frames_eq [OF at] freelist_frames_eq [OF at'])
  moreover have "i \<in> freelist_frames s" unfolding freelist_frames_eq [OF at] using n L by (intro UN_I [of n]) auto
  ultimately show thesis using that L hd at' by blast
qed

lemma unlink_correct:
  assumes inv: "freelist_inv numa s" and n: "n < 8" and head: "free_list_heads s n \<noteq> 0"
  obtains i where "free_list_heads s n = frame_addr i" "i \<in> freelist_frames s"
    "freelist_inv numa (freelist_unlink_head n s)" "freelist_frames (freelist_unlink_head n s) = freelist_frames s - {i}"
proof -
  obtain L where at: "freelist_at numa s L" using inv by (auto simp: freelist_inv_def)
  obtain i js where u: "L n = i # js" "free_list_heads s n = frame_addr i"
    "freelist_at numa (freelist_unlink_head n s) (L(n := js))"
    "freelist_frames (freelist_unlink_head n s) = freelist_frames s - {i}" "i \<in> freelist_frames s"
    using unlink_at [OF at n head] .
  have c: "unat (free_page_count s) = card (freelist_frames s)" using inv by (simp add: freelist_inv_def)
  have "free_page_count s \<noteq> 0"
  proof
    assume "free_page_count s = 0"
    then have "card (freelist_frames s) = 0" using c by simp
    then show False using u(5) finite_freelist_frames [of s] by auto
  qed
  then have "unat (free_page_count s - 1) = card (freelist_frames s - {i})"
    using c u(5) by (simp add: unat_minus_one)
  then show thesis
    using that u by (auto simp: freelist_inv_def freelist_unlink_head_def)
qed

lemma freelist_inv_cong:
  assumes "free_list_heads s' = free_list_heads s" "ram s' = ram s" "free_page_count s' = free_page_count s"
  shows "freelist_inv numa s' \<longleftrightarrow> freelist_inv numa s"
  using assms by (simp add: freelist_inv_def freelist_at_cong [OF assms(1,2)] freelist_frames_cong [OF assms(1,2)])

lemma freelist_pop_correct:
  assumes inv: "freelist_inv numa s"
  shows "(\<exists>i s'. freelist_pop l s = (frame_addr i, s') \<and> i \<in> freelist_frames s \<and> freelist_inv numa s' \<and>
             freelist_frames s' = freelist_frames s - {i} \<and> ram s' = ram s) \<or>
         freelist_frames s = {} \<and> freelist_pop l s = (0, s)"
proof -
  let ?l = "if 8 \<le> unat l then 0 else unat l"
  have take: "\<exists>i s'. (free_list_heads s n, t) = (frame_addr i, s') \<and> i \<in> freelist_frames s \<and> freelist_inv numa s' \<and>
      freelist_frames s' = freelist_frames s - {i} \<and> ram s' = ram s"
    if n: "n < 8" "free_list_heads s n \<noteq> 0" and t: "free_list_heads t = free_list_heads (freelist_unlink_head n s)"
      "ram t = ram (freelist_unlink_head n s)" "free_page_count t = free_page_count (freelist_unlink_head n s)" for n t
  proof -
    obtain i where i: "free_list_heads s n = frame_addr i" "i \<in> freelist_frames s"
      "freelist_inv numa (freelist_unlink_head n s)" "freelist_frames (freelist_unlink_head n s) = freelist_frames s - {i}"
      using unlink_correct [OF inv n] .
    moreover have "ram t = ram s" by (simp add: t freelist_unlink_head_def)
    ultimately show ?thesis using freelist_inv_cong [OF t] freelist_frames_cong [OF t(1,2)] by auto
  qed
  show ?thesis
  proof (cases "free_list_heads s ?l = 0")
    case False
    then have "freelist_pop l s = (free_list_heads s ?l,
        (freelist_unlink_head ?l s)\<lparr>pmm_local_hits := pmm_local_hits (freelist_unlink_head ?l s) + 1\<rparr>)"
      by (simp add: freelist_pop_def Let_def)
    then show ?thesis using take [of ?l] False by simp
  next
    case True
    show ?thesis
    proof (cases "find (\<lambda>n. free_list_heads s n \<noteq> 0) [0..<8]")
      case (Some n)
      then have n: "n < 8" "free_list_heads s n \<noteq> 0" by (auto simp: find_Some_iff)
      have "freelist_pop l s = (free_list_heads s n,
          (freelist_unlink_head n s)\<lparr>pmm_remote_hits := pmm_remote_hits (freelist_unlink_head n s) + 1,
            pmm_cross_node_fallbacks := pmm_cross_node_fallbacks (freelist_unlink_head n s) + 1\<rparr>)"
        using True Some by (simp add: freelist_pop_def Let_def)
      then show ?thesis using take [OF n] by simp
    next
      case None
      then have "\<forall>n < 8. free_list_heads s n = 0" by (auto simp: find_None_iff)
      then have "freelist_frames s = {}" by (auto simp: freelist_frames_def)
      then show ?thesis using True None by (simp add: freelist_pop_def Let_def)
    qed
  qed
qed

lemma freelist_push_ram: "i < 262144 \<Longrightarrow> \<not> in_frame i x \<Longrightarrow> ram (freelist_push numa (frame_addr i) s) x = ram s x"
  by (simp add: freelist_push_def Let_def store32_frame)

lemma freelist_write:
  assumes inv: "freelist_inv numa s"
    and same: "\<And>x i. i \<in> freelist_frames s \<Longrightarrow> in_frame i x \<Longrightarrow> m x = ram s x"
  shows "freelist_inv numa (s\<lparr>ram := m\<rparr>)" "freelist_frames (s\<lparr>ram := m\<rparr>) = freelist_frames s"
proof -
  obtain L where at: "freelist_at numa s L" using inv by (auto simp: freelist_inv_def)
  note D = freelist_atD [OF at]
  have "chain (link m) (free_list_heads s n) (map frame_addr (L n))" if n: "n < 8" for n
  proof -
    have "link m x = link (ram s) x" if x: "x \<in> set (map frame_addr (L n))" for x
    proof -
      obtain i where i: "x = frame_addr i" "i \<in> set (L n)" using x by auto
      have "i \<in> freelist_frames s" unfolding freelist_frames_eq [OF at] using i(2) n by blast
      then show ?thesis unfolding i(1) using D(3) [OF n i(2)] same by (intro link_cong) blast+
    qed
    then show ?thesis using D(1) [OF n] chain_cong [of "map frame_addr (L n)" "link m" "link (ram s)"] by blast
  qed
  then have at': "freelist_at numa (s\<lparr>ram := m\<rparr>) L" using at by (simp add: freelist_at_def)
  show fr: "freelist_frames (s\<lparr>ram := m\<rparr>) = freelist_frames s"
    by (simp only: freelist_frames_eq [OF at] freelist_frames_eq [OF at'])
  show "freelist_inv numa (s\<lparr>ram := m\<rparr>)" using inv at' by (auto simp: freelist_inv_def fr)
qed

end
