(* ===== verification/Frame_Provider.thy ===== *)
theory Frame_Provider
  imports Buddy Freelist
begin

text \<open>
  The contract that the rest of the kernel relies on when it asks the physical memory manager for
  single frames (\<open>physical_memory_manager_page_frame_allocate\<close> and \<open>\<dots>_free\<close>), whichever build
  provides them, and what follows from the contract alone. Both builds are shown to satisfy it.
\<close>

text \<open>
  \<open>frames s\<close> are the frames on the free lists and \<open>releasable s\<close> those a caller may hand back.
  Bytes outside free frames belong to the callers: the provider never changes them when it allocates,
  and callers may write them without disturbing the lists.
\<close>

locale frame_provider =
  fixes inv :: "pmm_state \<Rightarrow> bool"
    and frames :: "pmm_state \<Rightarrow> nat set"
    and releasable :: "pmm_state \<Rightarrow> nat set"
    and alloc :: "pmm_state \<Rightarrow> (u32 \<times> pmm_state) option"
    and release :: "u32 \<Rightarrow> pmm_state \<Rightarrow> pmm_state option"
  assumes frames_range: "inv s \<Longrightarrow> frames s \<subseteq> {0<..<262144}"
    and releasable_range: "inv s \<Longrightarrow> releasable s \<subseteq> {0<..<262144} - frames s"
    and alloc_some: "inv s \<Longrightarrow> frames s \<noteq> {} \<Longrightarrow>
      \<exists>i s'. alloc s = Some (frame_addr i, s') \<and> i \<in> frames s \<and> inv s' \<and> frames s' = frames s - {i} \<and>
             releasable s' = insert i (releasable s) \<and> ram_frame (frames s') s s'"
    and alloc_none: "inv s \<Longrightarrow> frames s = {} \<Longrightarrow> alloc s = Some (0, s)"
    and release_law: "inv s \<Longrightarrow> i \<in> releasable s \<Longrightarrow>
      \<exists>s'. release (frame_addr i) s = Some s' \<and> inv s' \<and> frames s' = insert i (frames s) \<and>
           releasable s' = releasable s - {i} \<and> ram_frame (frames s') s s'"
    and write_law: "inv s \<Longrightarrow> (\<And>x i. i \<in> frames s \<Longrightarrow> in_frame i x \<Longrightarrow> m x = ram s x) \<Longrightarrow>
      inv (s\<lparr>ram := m\<rparr>) \<and> frames (s\<lparr>ram := m\<rparr>) = frames s \<and> releasable (s\<lparr>ram := m\<rparr>) = releasable s"
begin

lemma alloc_cases:
  assumes "inv s"
  obtains (none) "frames s = {}" "alloc s = Some (0, s)"
    | (some) i s' where "alloc s = Some (frame_addr i, s')" "frame_addr i \<noteq> 0" "i \<in> frames s" "inv s'"
        "frames s' = frames s - {i}" "releasable s' = insert i (releasable s)" "ram_frame (frames s') s s'"
proof (cases "frames s = {}")
  case True
  then show thesis using alloc_none [OF assms] none by blast
next
  case False
  from alloc_some [OF assms this] obtain i s' where "alloc s = Some (frame_addr i, s')" "i \<in> frames s" "inv s'"
    "frames s' = frames s - {i}" "releasable s' = insert i (releasable s)" "ram_frame (frames s') s s'" by blast
  moreover have "frame_addr i \<noteq> 0"
    using frames_range [OF assms] \<open>i \<in> frames s\<close> by (intro frame_addr_nonzero) auto
  ultimately show thesis using some by blast
qed

text \<open>Taking a frame and giving it back leaves the free frames as they were.\<close>

lemma alloc_release:
  assumes "inv s" "frames s \<noteq> {}"
  shows "\<exists>p s' s''. alloc s = Some (p, s') \<and> p \<noteq> 0 \<and> release p s' = Some s'' \<and>
     inv s'' \<and> frames s'' = frames s \<and> releasable s'' = releasable s"
proof (rule alloc_cases [OF assms(1)])
  fix i s' assume a: "alloc s = Some (frame_addr i, s')" "frame_addr i \<noteq> 0" "i \<in> frames s" "inv s'"
    "frames s' = frames s - {i}" "releasable s' = insert i (releasable s)" "ram_frame (frames s') s s'"
  from release_law [OF a(4), of i] a(6) obtain s'' where r: "release (frame_addr i) s' = Some s''" "inv s''"
    "frames s'' = insert i (frames s')" "releasable s'' = releasable s' - {i}" by blast
  have "i \<notin> releasable s" using releasable_range [OF assms(1)] a(3) by blast
  then show ?thesis using a r by auto
qed (use assms in simp)

end

text \<open>
  Some callers also ask for two adjacent frames at once. The request may be refused for any reason; a
  granted pair may be handed back frame by frame.
\<close>

locale pair_provider = frame_provider +
  fixes alloc_pair :: "pmm_state \<Rightarrow> (u32 \<times> pmm_state) option"
  assumes pair_law: "inv s \<Longrightarrow> alloc_pair s = Some (0, s) \<or>
      (\<exists>i s'. alloc_pair s = Some (frame_addr i, s') \<and> {i, Suc i} \<subseteq> frames s \<and> inv s' \<and> frames s' = frames s - {i, Suc i} \<and>
             releasable s' = releasable s \<union> {i, Suc i} \<and> ram_frame (frames s') s s')"
begin

lemma pair_cases:
  assumes "inv s"
  obtains (none) "alloc_pair s = Some (0, s)"
    | (some) i s' where "alloc_pair s = Some (frame_addr i, s')" "frame_addr i \<noteq> 0" "i \<in> frames s" "Suc i \<in> frames s" "inv s'"
        "frames s' = frames s - {i, Suc i}" "releasable s' = insert i (insert (Suc i) (releasable s))" "ram_frame (frames s') s s'"
proof (cases "alloc_pair s = Some (0, s)")
  case True
  then show thesis by (rule none)
next
  case False
  with pair_law [OF assms] obtain i s' where i: "alloc_pair s = Some (frame_addr i, s')" "{i, Suc i} \<subseteq> frames s" "inv s'"
    "frames s' = frames s - {i, Suc i}" "releasable s' = releasable s \<union> {i, Suc i}" "ram_frame (frames s') s s'" by blast
  moreover have "frame_addr i \<noteq> 0" using frames_range [OF assms] i(2) by (intro frame_addr_nonzero) auto
  ultimately show thesis by (intro some) auto
qed

end

text \<open>Taking \<open>n\<close> frames one after the other, stopping at the first failure.\<close>

fun take_frames :: "(pmm_state \<Rightarrow> (u32 \<times> pmm_state) option) \<Rightarrow> nat \<Rightarrow> pmm_state \<Rightarrow> (u32 list \<times> pmm_state) option" where
  "take_frames alloc 0 s = Some ([], s)"
| "take_frames alloc (Suc n) s = do {
     (p, s) \<leftarrow> alloc s;
     if p = 0 then Some ([], s)
     else do {
       (ps, s) \<leftarrow> take_frames alloc n s;
       Some (p # ps, s)
     }
   }"

context frame_provider
begin

lemma take_frames_correct:
  "inv s \<Longrightarrow> \<exists>js s'. take_frames alloc n s = Some (map frame_addr js, s') \<and> distinct js \<and> set js \<subseteq> frames s \<and>
     length js = min n (card (frames s)) \<and> inv s' \<and> frames s' = frames s - set js \<and>
     releasable s' = releasable s \<union> set js \<and> ram_frame (frames s) s s'"
proof (induction n arbitrary: s)
  case (Suc n)
  have fin: "finite (frames s)" using frames_range [OF Suc.prems] finite_subset by blast
  show ?case
  proof (rule alloc_cases [OF Suc.prems])
    assume "frames s = {}" "alloc s = Some (0, s)"
    then show ?thesis using Suc.prems by (auto intro!: exI [of _ "[]"])
  next
    fix i s1 assume a: "alloc s = Some (frame_addr i, s1)" "frame_addr i \<noteq> 0" "i \<in> frames s" "inv s1"
      "frames s1 = frames s - {i}" "releasable s1 = insert i (releasable s)" "ram_frame (frames s1) s s1"
    from Suc.IH [OF a(4)] obtain js s' where IH: "take_frames alloc n s1 = Some (map frame_addr js, s')" "distinct js"
      "set js \<subseteq> frames s1" "length js = min n (card (frames s1))" "inv s'" "frames s' = frames s1 - set js"
      "releasable s' = releasable s1 \<union> set js" "ram_frame (frames s1) s1 s'" by blast
    have "card (frames s) = Suc (card (frames s1))" using a(3,5) fin by (metis card_Suc_Diff1)
    moreover have "ram_frame (frames s) s s'"
      by (rule ram_frame_trans [OF ram_frame_mono [OF a(7)] ram_frame_mono [OF IH(8)]]) (auto simp: a(5))
    ultimately show ?thesis
      using a IH by (intro exI [of _ "i # js"] exI [of _ s']) auto
  qed
qed simp

end

section \<open>Both builds provide frames\<close>

lemma block_pages_0 [simp]: "block_pages i 0 = {i}"
  by (auto simp: block_pages_def)

lemma block_ok_0: "block_ok i 0 \<longleftrightarrow> 0 < i \<and> i < 262144"
  by (auto simp: block_ok_def)

lemma free_run_0: "free_run s 0 \<longleftrightarrow> free_pages (blocks_of s) \<noteq> {}"
  by (auto simp: free_run_def)

lemma buddy_lists_write:
  assumes "wf_blocks (blocks_of s)" "buddy_lists numa s"
    and same: "\<And>x i. i \<in> free_pages (blocks_of s) \<Longrightarrow> in_frame i x \<Longrightarrow> m x = ram s x"
  shows "buddy_lists numa (s\<lparr>ram := m\<rparr>)"
  unfolding buddy_lists_def
proof (intro allI impI)
  fix n k :: nat assume "n < 8" "k \<le> 18"
  obtain xs where xs: "chain (link (ram s)) (buddy_free_list_heads s n k) xs" "set xs = frame_addr ` list_blocks numa s n k"
    using buddy_listsE [OF assms(2) \<open>n < 8\<close> \<open>k \<le> 18\<close>] .
  have "link m x = link (ram s) x" if x: "x \<in> set xs" for x
  proof -
    obtain i where i: "x = frame_addr i" "i \<in> list_blocks numa s n k" using x xs(2) by blast
    have "i \<in> free_pages (blocks_of s)"
      using i(2) block_pages_free [of "blocks_of s" i k] block_pages_base [of i k] by (auto simp: list_blocks_def)
    then show ?thesis
      unfolding i(1) using block_ok_index(1) [OF list_blocks_ok [OF assms(1) i(2)]] same by (intro link_cong) blast+
  qed
  then have "chain (link m) (buddy_free_list_heads s n k) xs"
    using xs(1) chain_cong [of xs "link m" "link (ram s)"] by blast
  then show "\<exists>xs. chain (link (ram (s\<lparr>ram := m\<rparr>))) (buddy_free_list_heads (s\<lparr>ram := m\<rparr>) n k) xs \<and>
      set xs = frame_addr ` list_blocks numa (s\<lparr>ram := m\<rparr>) n k"
    using xs(2) by (intro exI [of _ xs]) (simp add: list_blocks_def cong: blocks_of_cong)
qed

definition buddy_ready :: "build_flags \<Rightarrow> numa_state \<Rightarrow> u32 \<Rightarrow> pmm_state \<Rightarrow> bool" where
  "buddy_ready cfg numa local_node s \<longleftrightarrow> \<not> real_time_mode cfg \<and> local_node < numa_node_count numa \<and>
     buddy_inv numa s \<and> \<not> buddy_population_in_progress s"

interpretation buddy_frames: frame_provider "buddy_ready cfg numa local_node" "\<lambda>s. free_pages (blocks_of s)" allocated_pages
  "physical_memory_manager_page_frame_allocate cfg numa local_node" "physical_memory_manager_page_frame_free cfg numa"
  for cfg numa local_node
proof
  fix s assume "buddy_ready cfg numa local_node s"
  then have inv: "buddy_inv numa s \<and> \<not> buddy_population_in_progress s" and ni: "local_node < numa_node_count numa"
    and srv: "\<not> real_time_mode cfg" by (simp_all add: buddy_ready_def)
  then have wf: "wf_blocks (blocks_of s)" by (simp add: buddy_inv_def buddy_core_def)
  show "free_pages (blocks_of s) \<subseteq> {0<..<262144}" by (rule free_pages_bounds [OF wf])
  show "allocated_pages s \<subseteq> {0<..<262144} - free_pages (blocks_of s)" using inv by (auto simp: buddy_inv_def)
  note rem = remove_order_correct [OF conjunct1 [OF inv] ni, of 0 cfg]
  {
    assume "free_pages (blocks_of s) \<noteq> {}"
    then show "\<exists>i s'. physical_memory_manager_page_frame_allocate cfg numa local_node s = Some (frame_addr i, s') \<and>
        i \<in> free_pages (blocks_of s) \<and> buddy_ready cfg numa local_node s' \<and>
        free_pages (blocks_of s') = free_pages (blocks_of s) - {i} \<and>
        allocated_pages s' = insert i (allocated_pages s) \<and> ram_frame (free_pages (blocks_of s')) s s'"
      using rem inv srv ni by (auto simp: buddy_ready_def free_run_0 physical_memory_manager_page_frame_allocate_def)
  next
    assume "free_pages (blocks_of s) = {}"
    then show "physical_memory_manager_page_frame_allocate cfg numa local_node s = Some (0, s)"
      using rem inv srv ni by (auto simp: buddy_ready_def free_run_0 physical_memory_manager_page_frame_allocate_def)
  next
    fix i assume i: "i \<in> allocated_pages s"
    then have ok: "block_ok i 0" and disj: "block_pages i 0 \<inter> free_pages (blocks_of s) = {}"
      using inv by (auto simp: buddy_inv_def block_ok_0)
    obtain s' where "buddy_insert_order cfg numa (frame_addr i) 0 s = Some s'" "buddy_inv numa s'"
      "free_pages (blocks_of s') = free_pages (blocks_of s) \<union> block_pages i 0"
      "allocated_pages s' = allocated_pages s - block_pages i 0" "ram_frame (free_pages (blocks_of s')) s s'"
      "buddy_population_in_progress s' = buddy_population_in_progress s"
      by (rule insert_core [OF conjunct1 [OF inv] ok disj, of cfg]) (use i in simp_all)
    then show "\<exists>s'. physical_memory_manager_page_frame_free cfg numa (frame_addr i) s = Some s' \<and>
        buddy_ready cfg numa local_node s' \<and> free_pages (blocks_of s') = insert i (free_pages (blocks_of s)) \<and>
        allocated_pages s' = allocated_pages s - {i} \<and> ram_frame (free_pages (blocks_of s')) s s'"
      using inv srv ni by (auto simp: buddy_ready_def physical_memory_manager_page_frame_free_def)
  next
    fix m :: mem assume "\<And>x i. i \<in> free_pages (blocks_of s) \<Longrightarrow> in_frame i x \<Longrightarrow> m x = ram s x"
    then have "buddy_lists numa (s\<lparr>ram := m\<rparr>)"
      using inv by (intro buddy_lists_write [OF wf]) (simp_all add: buddy_inv_def buddy_core_def)
    then show "buddy_ready cfg numa local_node (s\<lparr>ram := m\<rparr>) \<and>
        free_pages (blocks_of (s\<lparr>ram := m\<rparr>)) = free_pages (blocks_of s) \<and> allocated_pages (s\<lparr>ram := m\<rparr>) = allocated_pages s"
      using inv srv ni by (simp add: buddy_ready_def buddy_inv_def buddy_core_def allocated_pages_def cong: blocks_of_cong)
  }
qed

definition freelist_ready :: "build_flags \<Rightarrow> numa_state \<Rightarrow> pmm_state \<Rightarrow> bool" where
  "freelist_ready cfg numa s \<longleftrightarrow> real_time_mode cfg \<and> freelist_inv numa s"

interpretation list_frames: frame_provider "freelist_ready cfg numa" freelist_frames "\<lambda>s. {0<..<262144} - freelist_frames s"
  "physical_memory_manager_page_frame_allocate cfg numa local_node" "physical_memory_manager_page_frame_free cfg numa"
  for cfg numa local_node
proof
  fix s assume "freelist_ready cfg numa s"
  then have inv: "freelist_inv numa s" and rt: "real_time_mode cfg" by (simp_all add: freelist_ready_def)
  show range: "freelist_frames s \<subseteq> {0<..<262144}" by (auto simp: freelist_frames_def)
  show "{0<..<262144} - freelist_frames s \<subseteq> {0<..<262144} - freelist_frames s" by simp
  note pop = freelist_pop_correct [OF inv, of local_node]
  {
    assume "freelist_frames s \<noteq> {}"
    with pop obtain i s' where "freelist_pop local_node s = (frame_addr i, s')" "i \<in> freelist_frames s" "freelist_inv numa s'"
      "freelist_frames s' = freelist_frames s - {i}" "ram s' = ram s" by blast
    then show "\<exists>i s'. physical_memory_manager_page_frame_allocate cfg numa local_node s = Some (frame_addr i, s') \<and>
        i \<in> freelist_frames s \<and> freelist_ready cfg numa s' \<and> freelist_frames s' = freelist_frames s - {i} \<and>
        {0<..<262144} - freelist_frames s' = insert i ({0<..<262144} - freelist_frames s) \<and> ram_frame (freelist_frames s') s s'"
      using rt range by (auto simp: freelist_ready_def physical_memory_manager_page_frame_allocate_def ram_frame_def)
  next
    assume "freelist_frames s = {}"
    then show "physical_memory_manager_page_frame_allocate cfg numa local_node s = Some (0, s)"
      using pop rt by (auto simp: physical_memory_manager_page_frame_allocate_def)
  next
    fix i assume i: "i \<in> {0<..<262144} - freelist_frames s"
    then show "\<exists>s'. physical_memory_manager_page_frame_free cfg numa (frame_addr i) s = Some s' \<and> freelist_ready cfg numa s' \<and>
        freelist_frames s' = insert i (freelist_frames s) \<and>
        {0<..<262144} - freelist_frames s' = {0<..<262144} - freelist_frames s - {i} \<and> ram_frame (freelist_frames s') s s'"
      using rt freelist_push_correct [OF inv, of i] freelist_push_ram [of i]
      by (auto simp: freelist_ready_def physical_memory_manager_page_frame_free_def ram_frame_def)
  next
    fix m :: mem assume "\<And>x i. i \<in> freelist_frames s \<Longrightarrow> in_frame i x \<Longrightarrow> m x = ram s x"
    from freelist_write [OF inv this]
    show "freelist_ready cfg numa (s\<lparr>ram := m\<rparr>) \<and> freelist_frames (s\<lparr>ram := m\<rparr>) = freelist_frames s \<and>
        {0<..<262144} - freelist_frames (s\<lparr>ram := m\<rparr>) = {0<..<262144} - freelist_frames s"
      using rt by (simp add: freelist_ready_def)
  }
qed

section \<open>The pool of the running build\<close>

definition pool_frames :: "build_flags \<Rightarrow> pmm_state \<Rightarrow> nat set" where
  "pool_frames cfg s = (if real_time_mode cfg then freelist_frames s else free_pages (blocks_of s))"

definition held_frames :: "build_flags \<Rightarrow> pmm_state \<Rightarrow> nat set" where
  "held_frames cfg s = (if real_time_mode cfg then {0<..<262144} - freelist_frames s else allocated_pages s)"

definition frames_ready :: "build_flags \<Rightarrow> numa_state \<Rightarrow> u32 \<Rightarrow> pmm_state \<Rightarrow> bool" where
  "frames_ready cfg numa local_node s \<longleftrightarrow>
     (if real_time_mode cfg then freelist_ready cfg numa s else buddy_ready cfg numa local_node s)"

interpretation pool: pair_provider "frames_ready cfg numa local_node" "pool_frames cfg" "held_frames cfg"
  "physical_memory_manager_page_frame_allocate cfg numa local_node" "physical_memory_manager_page_frame_free cfg numa"
  "physical_memory_manager_page_frame_allocate_order cfg numa local_node 1"
  for cfg numa local_node
proof (cases "real_time_mode cfg")
  case True
  have eq: "frames_ready cfg numa local_node = freelist_ready cfg numa" "pool_frames cfg = freelist_frames"
    "held_frames cfg = (\<lambda>s. {0<..<262144} - freelist_frames s)"
    using True by (simp_all add: fun_eq_iff frames_ready_def pool_frames_def held_frames_def)
  show "pair_provider (frames_ready cfg numa local_node) (pool_frames cfg) (held_frames cfg)
      (physical_memory_manager_page_frame_allocate cfg numa local_node) (physical_memory_manager_page_frame_free cfg numa)
      (physical_memory_manager_page_frame_allocate_order cfg numa local_node 1)"
    unfolding eq
    by (intro pair_provider.intro list_frames.frame_provider_axioms pair_provider_axioms.intro)
      (simp add: physical_memory_manager_page_frame_allocate_order_def True)
next
  case False
  have eq: "frames_ready cfg numa local_node = buddy_ready cfg numa local_node" "pool_frames cfg = (\<lambda>s. free_pages (blocks_of s))"
    "held_frames cfg = allocated_pages"
    using False by (simp_all add: fun_eq_iff frames_ready_def pool_frames_def held_frames_def)
  have pair: "physical_memory_manager_page_frame_allocate_order cfg numa local_node 1 s = Some (0, s) \<or>
      (\<exists>i s'. physical_memory_manager_page_frame_allocate_order cfg numa local_node 1 s = Some (frame_addr i, s') \<and>
         {i, Suc i} \<subseteq> free_pages (blocks_of s) \<and> buddy_ready cfg numa local_node s' \<and>
         free_pages (blocks_of s') = free_pages (blocks_of s) - {i, Suc i} \<and>
         allocated_pages s' = allocated_pages s \<union> {i, Suc i} \<and> ram_frame (free_pages (blocks_of s')) s s')"
    if "buddy_ready cfg numa local_node s" for s
  proof -
    have inv: "buddy_inv numa s" "local_node < numa_node_count numa" "\<not> buddy_population_in_progress s"
      using that by (simp_all add: buddy_ready_def)
    have pages: "block_pages i 1 = {i, Suc i}" for i by (auto simp: block_pages_def)
    have one: "(1::nat) \<le> 18" by simp
    obtain p s' where r: "buddy_remove_order cfg numa local_node 1 s = Some (p, s')" "buddy_inv numa s'"
      "buddy_population_in_progress s' = buddy_population_in_progress s"
      "if free_run s 1 then \<exists>i. p = frame_addr i \<and> block_ok i 1 \<and> block_pages i 1 \<subseteq> free_pages (blocks_of s) \<and>
          free_pages (blocks_of s') = free_pages (blocks_of s) - block_pages i 1 \<and>
          allocated_pages s' = allocated_pages s \<union> block_pages i 1 \<and> ram_frame (free_pages (blocks_of s')) s s'
        else p = 0 \<and> s' = s"
      using remove_order_correct [OF inv(1,2) one, of cfg] by blast
    have "buddy_ready cfg numa local_node s'" using r(2,3) inv(2,3) False by (simp add: buddy_ready_def)
    then show ?thesis
      using r(1,4) False unfolding pages physical_memory_manager_page_frame_allocate_order_def by (cases "free_run s 1") auto
  qed
  show "pair_provider (frames_ready cfg numa local_node) (pool_frames cfg) (held_frames cfg)
      (physical_memory_manager_page_frame_allocate cfg numa local_node) (physical_memory_manager_page_frame_free cfg numa)
      (physical_memory_manager_page_frame_allocate_order cfg numa local_node 1)"
    unfolding eq by (intro pair_provider.intro buddy_frames.frame_provider_axioms pair_provider_axioms.intro) (rule pair)
qed

end
