(* ===== verification/Pmm_Init.thy ===== *)
theory Pmm_Init
  imports Frame_Provider
begin

text \<open>
  Populating the frame allocator from the boot loader's memory map
  (\<open>physical_memory_manager_initialize\<close> and the Multiboot helpers of
  \<open>src/kernel/arch/i386/cpu/pmm.c\<close>): which frames the pool holds afterwards. The \<open>MultibootInfo_t\<close>
  fields the code reads are a record, the memory map and the module table lie in the byte memory.
  \<open>kernel_end\<close> is the linker symbol \<open>global_kernel_end\<close>.
\<close>

record multiboot_info =
  mb_flags :: u32
  mb_mods_count :: u32
  mb_mods_addr :: u32
  mb_mmap_length :: u32
  mb_mmap_addr :: u32

definition pmm_get_multiboot_mmap :: "multiboot_info option \<Rightarrow> (u32 \<times> u32) option" where
  "pmm_get_multiboot_mmap multiboot_info =
     (case multiboot_info of
        None \<Rightarrow> None
      | Some mb \<Rightarrow>
          if mb_flags mb AND 64 = 0 then None
          else if mb_mmap_length mb = 0 \<or> mb_mmap_addr mb = 0 then None
          else Some (pmm_phys_to_virt (mb_mmap_addr mb), mb_mmap_length mb))"

text \<open>\<open>MemoryMapEntry_t\<close> is packed: size, 64-bit base at 4, 64-bit length at 12, type at 20.\<close>

definition pmm_compute_region_bounds :: "mem \<Rightarrow> u32 \<Rightarrow> (u32 \<times> u32) option" where
  "pmm_compute_region_bounds m entry =
     (if load32 m (entry + 8) \<noteq> 0 then None
      else
        let region_start = load32 m (entry + 4);
            region_length = (if load32 m (entry + 16) \<noteq> 0 then 0xFFFFFFFF - region_start else load32 m (entry + 12));
            region_end = (if region_start + region_length < region_start then 0xFFFFFFFF
                          else region_start + region_length);
            out_start = PAGE_ALIGN_UP region_start;
            out_end = PAGE_ALIGN_DOWN region_end
        in if out_start < out_end then Some (out_start, out_end) else None)"

definition pmm_is_kernel_page :: "u32 \<Rightarrow> u32 \<Rightarrow> u32 \<Rightarrow> bool" where
  "pmm_is_kernel_page phys_addr kernel_start kernel_end \<longleftrightarrow> kernel_start \<le> phys_addr \<and> phys_addr < kernel_end"

definition pmm_is_boot_module_page :: "mem \<Rightarrow> multiboot_info option \<Rightarrow> u32 \<Rightarrow> bool" where
  "pmm_is_boot_module_page m multiboot_info phys_addr =
     (case multiboot_info of
        None \<Rightarrow> False
      | Some mb \<Rightarrow>
          if mb_flags mb AND 8 = 0 then False
          else if mb_mods_count mb = 0 \<or> mb_mods_addr mb = 0 then False
          else
            let modules = pmm_phys_to_virt (mb_mods_addr mb);
                table_start = mb_mods_addr mb;
                table_end = table_start + mb_mods_count mb * 16
            in if table_start < phys_addr + 4096 \<and> phys_addr < table_end then True
               else list_ex (\<lambda>i.
                      let start = load32 m (modules + of_nat (16 * i));
                          region_fin = load32 m (modules + of_nat (16 * i) + 4)
                      in \<not> region_fin \<le> start \<and> start < phys_addr + 4096 \<and> phys_addr < region_fin)
                      [0..<unat (mb_mods_count mb)])"

definition pmm_next_mmap_entry :: "mem \<Rightarrow> u32 \<Rightarrow> u32 \<Rightarrow> u32 \<Rightarrow> u32 option" where
  "pmm_next_mmap_entry m mmap_base mmap_length offset =
     (if mmap_length < offset + 4 then None
      else
        let entry = mmap_base + offset in
        if load32 m entry < 20 then None
        else if mmap_length < offset + 4 + load32 m entry then None
        else Some entry)"

text \<open>The two nested loops that \<open>initialize\<close> and \<open>extend_mapping\<close> share, over the pages of a region and
  over the entries of the map; \<open>step\<close> is the loop body for one page.\<close>

partial_function (option) pmm_each_page ::
  "(u32 \<Rightarrow> 's \<Rightarrow> 's option) \<Rightarrow> u32 \<Rightarrow> u32 \<Rightarrow> 's \<Rightarrow> 's option" where
  "pmm_each_page step addr region_end s =
     (if addr < region_end then do {
        s \<leftarrow> step addr s;
        pmm_each_page step (addr + 4096) region_end s
      } else Some s)"

partial_function (option) pmm_each_entry ::
  "('s \<Rightarrow> mem) \<Rightarrow> (u32 \<Rightarrow> 's \<Rightarrow> 's option) \<Rightarrow> u32 \<Rightarrow> u32 \<Rightarrow> u32 \<Rightarrow> 's \<Rightarrow> 's option" where
  "pmm_each_entry mem_of step mmap_base mmap_length offset s =
     (case pmm_next_mmap_entry (mem_of s) mmap_base mmap_length offset of
        None \<Rightarrow> Some s
      | Some entry \<Rightarrow> do {
          s \<leftarrow> (if load32 (mem_of s) (entry + 20) = 1 then
                (case pmm_compute_region_bounds (mem_of s) entry of
                   Some (region_start, region_end) \<Rightarrow> pmm_each_page step region_start region_end s
                 | None \<Rightarrow> Some s)
               else Some s);
          pmm_each_entry mem_of step mmap_base mmap_length (offset + (4 + load32 (mem_of s) entry)) s
        })"

text \<open>\<open>put\<close> is \<open>physical_memory_manager_page_frame_free\<close> of the build at hand.\<close>

definition pmm_init_page ::
  "(u32 \<Rightarrow> pmm_state \<Rightarrow> pmm_state option) \<Rightarrow> multiboot_info option \<Rightarrow> u32 \<Rightarrow> u32 \<Rightarrow> pmm_state \<Rightarrow> pmm_state option" where
  "pmm_init_page put mb kernel_end addr s =
     (if addr < PMM_LOW_MEMORY_LIMIT then Some s
      else if pmm_is_kernel_page addr PMM_LOW_MEMORY_LIMIT (pmm_virt_to_phys kernel_end) then Some s
      else if pmm_is_boot_module_page (ram s) mb addr then Some s
      else if PMM_BOOT_MAP_LIMIT \<le> addr then Some s
      else if PMM_MAX_PHYS_ADDR \<le> addr then Some s
      else put addr s)"

definition pmm_reset :: "build_flags \<Rightarrow> pmm_state \<Rightarrow> pmm_state" where
  "pmm_reset cfg s =
     (let s = s\<lparr>free_page_count := 0, watermark_high := 0, watermark_low := 0xFFFFFFFF, watermarks_seeded := False\<rparr>
      in if real_time_mode cfg then s\<lparr>free_list_heads := (\<lambda>_. 0)\<rparr> else buddy_reset_state s)"

definition physical_memory_manager_initialize ::
  "build_flags \<Rightarrow> numa_state \<Rightarrow> multiboot_info option \<Rightarrow> u32 \<Rightarrow> pmm_state \<Rightarrow> pmm_state option" where
  "physical_memory_manager_initialize cfg numa mb kernel_end s =
     (case pmm_get_multiboot_mmap mb of
        None \<Rightarrow> Some s
      | Some (mmap_base, mmap_length) \<Rightarrow> do {
          let s = pmm_reset cfg s;
          let s = (if real_time_mode cfg then s else s\<lparr>buddy_population_in_progress := True\<rparr>);
          s \<leftarrow> pmm_each_entry ram (pmm_init_page (physical_memory_manager_page_frame_free cfg numa) mb kernel_end) mmap_base mmap_length 0 s;
          Some (if real_time_mode cfg then s else s\<lparr>buddy_population_in_progress := False\<rparr>)
        })"

section \<open>The frames a memory map offers\<close>

definition boot_frame :: "mem \<Rightarrow> multiboot_info option \<Rightarrow> u32 \<Rightarrow> nat \<Rightarrow> bool" where
  "boot_frame m mb kernel_end i \<longleftrightarrow> 256 \<le> i \<and> i < 16384 \<and>
     \<not> pmm_is_kernel_page (frame_addr i) PMM_LOW_MEMORY_LIMIT (pmm_virt_to_phys kernel_end) \<and>
     \<not> pmm_is_boot_module_page m mb (frame_addr i)"

definition region_frames :: "u32 \<times> u32 \<Rightarrow> nat set" where
  "region_frames r = {i. unat (fst r) \<le> 4096 * i \<and> 4096 * i < unat (snd r)}"

text \<open>A well-formed memory map: from \<open>offset\<close> on, its available regions in table order.\<close>

inductive mmap_table :: "mem \<Rightarrow> u32 \<Rightarrow> u32 \<Rightarrow> u32 \<Rightarrow> (u32 \<times> u32) list \<Rightarrow> bool" for m base len where
  mmap_end: "pmm_next_mmap_entry m base len off = None \<Longrightarrow> unat off \<le> unat len \<Longrightarrow> mmap_table m base len off []"
| mmap_skip: "pmm_next_mmap_entry m base len off = Some e \<Longrightarrow> unat off + 4 + unat (load32 m e) \<le> unat len \<Longrightarrow>
    load32 m (e + 20) \<noteq> 1 \<or> pmm_compute_region_bounds m e = None \<Longrightarrow>
    mmap_table m base len (off + (4 + load32 m e)) rs \<Longrightarrow> mmap_table m base len off rs"
| mmap_region: "pmm_next_mmap_entry m base len off = Some e \<Longrightarrow> unat off + 4 + unat (load32 m e) \<le> unat len \<Longrightarrow>
    load32 m (e + 20) = 1 \<Longrightarrow> pmm_compute_region_bounds m e = Some r \<Longrightarrow>
    mmap_table m base len (off + (4 + load32 m e)) rs \<Longrightarrow> mmap_table m base len off (r # rs)"

fun disjoint_regions :: "(u32 \<times> u32) list \<Rightarrow> bool" where
  "disjoint_regions [] \<longleftrightarrow> True"
| "disjoint_regions (r # rs) \<longleftrightarrow> (\<forall>q \<in> set rs. region_frames r \<inter> region_frames q = {}) \<and> disjoint_regions rs"

text \<open>The loop over pages visits the page addresses of the region in order.\<close>

fun each_frame :: "(u32 \<Rightarrow> 's \<Rightarrow> 's option) \<Rightarrow> nat list \<Rightarrow> 's \<Rightarrow> 's option" where
  "each_frame step [] s = Some s"
| "each_frame step (i # js) s = do { s \<leftarrow> step (frame_addr i) s; each_frame step js s }"

lemma each_page_frames:
  "y < 1048576 \<Longrightarrow> x \<le> y \<Longrightarrow> pmm_each_page step (frame_addr x) (frame_addr y) s = each_frame step [x..<y] s"
proof (induction "y - x" arbitrary: x s)
  case 0
  then show ?case by (subst pmm_each_page.simps) (simp add: upt_conv_Nil)
next
  case (Suc d)
  have "frame_addr x + 4096 = frame_addr (Suc x)" by (simp add: frame_addr_def algebra_simps)
  moreover have "frame_addr x < frame_addr y"
    using Suc by (simp add: word_less_nat_alt unat_page_addr)
  moreover have "pmm_each_page step (frame_addr (Suc x)) (frame_addr y) = each_frame step [Suc x..<y]"
    using Suc.hyps(1) [of "Suc x"] Suc.hyps(2) Suc.prems by (intro ext) simp
  ultimately show ?case
    using Suc.hyps(2) by (subst pmm_each_page.simps) (simp add: upt_conv_Cons)
qed

lemma region_bounds_frames:
  assumes "pmm_compute_region_bounds m e = Some r"
  obtains x y where "r = (frame_addr x, frame_addr y)" "x \<le> y" "y < 1048576" "region_frames r = {x..<y}"
proof -
  obtain a b where r: "r = (frame_addr (unat a div 4096), frame_addr (unat b div 4096))"
    "frame_addr (unat (a :: u32) div 4096) < frame_addr (unat (b :: u32) div 4096)"
    using assms unfolding pmm_compute_region_bounds_def Let_def PAGE_ALIGN_UP_def PAGE_ALIGN_DOWN_def and_page_mask
    by (metis (no_types, lifting) option.distinct(1) option.inject)
  have small: "unat a div 4096 < 1048576" "unat b div 4096 < 1048576"
    by (rule page_number_less)+
  have "4096 * x \<le> 4096 * i \<and> 4096 * i < 4096 * y \<longleftrightarrow> x \<le> i \<and> i < y" for x y i :: nat by auto
  then have "region_frames r = {unat a div 4096..<unat b div 4096}"
    using small by (auto simp: region_frames_def r(1) unat_page_addr)
  with r small show thesis
    by (intro that [of "unat a div 4096" "unat b div 4096"]) (auto simp: word_less_nat_alt unat_page_addr)
qed

section \<open>Population\<close>

text \<open>What the boot loader promises: the module table lies in the direct map, the memory map in low memory.\<close>

definition boot_layout :: "multiboot_info option \<Rightarrow> bool" where
  "boot_layout mb \<longleftrightarrow>
     (case mb of None \<Rightarrow> True
      | Some mb \<Rightarrow> unat (mb_mods_addr mb) + 16 * unat (mb_mods_count mb) \<le> 1073741824 \<and>
                   unat (mb_mmap_addr mb) + unat (mb_mmap_length mb) \<le> 1048576)"

definition boot_agree :: "mem \<Rightarrow> multiboot_info option \<Rightarrow> u32 \<Rightarrow> pmm_state \<Rightarrow> bool" where
  "boot_agree m mb kernel_end s \<longleftrightarrow> (\<forall>x. (\<forall>i. boot_frame m mb kernel_end i \<longrightarrow> \<not> in_frame i x) \<longrightarrow> ram s x = m x)"

lemma module_byte_kept:
  assumes "boot_layout (Some mb)" "mb_flags mb AND 8 \<noteq> 0" "mb_mods_count mb \<noteq> 0" "mb_mods_addr mb \<noteq> 0"
    and "j < unat (mb_mods_count mb)" "t < 8" and bf: "boot_frame m (Some mb) kernel_end i"
  shows "\<not> in_frame i (pmm_phys_to_virt (mb_mods_addr mb) + of_nat (16 * j) + of_nat t)"
proof
  let ?a = "unat (mb_mods_addr mb)" and ?c = "unat (mb_mods_count mb)"
  let ?x = "pmm_phys_to_virt (mb_mods_addr mb) + of_nat (16 * j) + of_nat t"
  have lay: "?a + 16 * ?c \<le> 1073741824" using assms(1) by (simp add: boot_layout_def)
  have "?x = of_nat (?a + 3221225472 + 16 * j + t)" by (simp add: pmm_phys_to_virt_def)
  moreover have "?a + 3221225472 + 16 * j + t < 2 ^ 32" using lay assms(5,6) by simp
  ultimately have x: "unat ?x = ?a + 3221225472 + 16 * j + t"
    by (simp only:) (subst unat_of_nat, simp)
  assume "in_frame i ?x"
  then have d: "(?a + 3221225472 + 16 * j + t) div 4096 = i + 786432" unfolding in_frame_def x .
  have i: "i < 16384" using bf by (simp add: boot_frame_def)
  have "4096 * (i + 786432) \<le> ?a + 3221225472 + 16 * j + t" "?a + 3221225472 + 16 * j + t < 4096 * (i + 786432) + 4096"
    unfolding d [symmetric] by (simp, simp add: dividend_less_times_div)
  then have "4096 * i \<le> ?a + 16 * j + t" "?a + 16 * j + t < 4096 * i + 4096"
    by simp_all
  then have "?a < 4096 * i + 4096" "4096 * i < ?a + ?c * 16" using assms(5,6) by simp_all
  moreover have "unat (frame_addr i + 4096) = 4096 * i + 4096" "unat (mb_mods_addr mb + mb_mods_count mb * 16) = ?a + ?c * 16"
    using i lay by (simp_all add: unat_word_ariths unat_page_addr)
  ultimately have "mb_mods_addr mb < frame_addr i + 4096" "frame_addr i < mb_mods_addr mb + mb_mods_count mb * 16"
    using i by (simp_all add: word_less_nat_alt unat_page_addr)
  then have "pmm_is_boot_module_page m (Some mb) (frame_addr i)"
    using assms(2-4) by (simp add: pmm_is_boot_module_page_def Let_def)
  then show False using bf by (simp add: boot_frame_def)
qed

lemma module_page_agree:
  assumes "boot_layout mb" "boot_agree m mb kernel_end s"
  shows "pmm_is_boot_module_page (ram s) mb a = pmm_is_boot_module_page m mb a"
proof (cases mb)
  case (Some b)
  have same: "load32 (ram s) (pmm_phys_to_virt (mb_mods_addr b) + of_nat (16 * j) + of_nat t) =
        load32 m (pmm_phys_to_virt (mb_mods_addr b) + of_nat (16 * j) + of_nat t)"
    if g: "mb_flags b AND 8 \<noteq> 0" "mb_mods_count b \<noteq> 0" "mb_mods_addr b \<noteq> 0" and j: "j < unat (mb_mods_count b)" and t: "t \<le> 4" for j t
  proof (rule load32_cong)
    fix x assume "unat (x - (pmm_phys_to_virt (mb_mods_addr b) + of_nat (16 * j) + of_nat t)) < 4" (is "unat ?d < 4")
    moreover define d where "d = unat ?d"
    ultimately have d: "d < 4" and x: "x = pmm_phys_to_virt (mb_mods_addr b) + of_nat (16 * j) + of_nat (t + d)" by simp_all
    have "\<not> in_frame i x" if bf: "boot_frame m mb kernel_end i" for i
      unfolding x by (rule module_byte_kept [OF _ g j, of "t + d" m kernel_end i]) (use assms(1) t d bf Some in simp_all)
    then show "ram s x = m x" using assms(2) by (simp add: boot_agree_def)
  qed
  show ?thesis
  proof (cases "mb_flags b AND 8 \<noteq> 0 \<and> mb_mods_count b \<noteq> 0 \<and> mb_mods_addr b \<noteq> 0")
    case True
    let ?M = "pmm_phys_to_virt (mb_mods_addr b)"
    have "load32 (ram s) (?M + of_nat (16 * j)) = load32 m (?M + of_nat (16 * j))"
      "load32 (ram s) (?M + of_nat (16 * j) + 4) = load32 m (?M + of_nat (16 * j) + 4)" if "j < unat (mb_mods_count b)" for j
      using same [of j 0] same [of j 4] that True by simp_all
    then show ?thesis
      unfolding Some pmm_is_boot_module_page_def option.case Let_def list_ex_iff by (intro if_cong refl bex_cong) simp_all
  next
    case False
    then show ?thesis unfolding Some pmm_is_boot_module_page_def by auto
  qed
qed (simp add: pmm_is_boot_module_page_def)

lemma mmap_read:
  assumes lay: "boot_layout (Some mb)" and agree: "boot_agree m (Some mb) ke s"
    and k: "unat off + k + 4 \<le> unat (mb_mmap_length mb)"
  shows "load32 (ram s) (pmm_phys_to_virt (mb_mmap_addr mb) + off + of_nat k) =
         load32 m (pmm_phys_to_virt (mb_mmap_addr mb) + off + of_nat k)"
proof (rule load32_cong)
  let ?p = "pmm_phys_to_virt (mb_mmap_addr mb) + off + of_nat k"
  let ?a = "unat (mb_mmap_addr mb)"
  fix x assume "unat (x - ?p) < 4"
  moreover define d where "d = unat (x - ?p)"
  ultimately have d: "d < 4" and x: "x = ?p + of_nat d" by simp_all
  have l: "?a + unat (mb_mmap_length mb) \<le> 1048576" using lay by (simp add: boot_layout_def)
  have "x = of_nat (?a + 3221225472 + unat off + k + d)" unfolding x by (simp add: pmm_phys_to_virt_def)
  moreover have "?a + 3221225472 + unat off + k + d < 2 ^ 32" using l k d by simp
  ultimately have ux: "unat x = ?a + 3221225472 + unat off + k + d"
    by (simp only:) (subst unat_of_nat, simp)
  have "\<not> in_frame i x" if bf: "boot_frame m (Some mb) ke i" for i
  proof
    assume "in_frame i x"
    then have "4096 * (i + 786432) \<le> ?a + 3221225472 + unat off + k + d"
      unfolding in_frame_def ux by (metis times_div_less_eq_dividend)
    moreover have "256 \<le> i" using bf by (simp add: boot_frame_def)
    ultimately show False using l k d by simp
  qed
  then show "ram s x = m x" using agree by (simp add: boot_agree_def)
qed

lemma next_entry_agree:
  assumes lay: "boot_layout (Some mb)" and agree: "boot_agree m (Some mb) ke s" and off: "unat off \<le> unat (mb_mmap_length mb)"
  shows "pmm_next_mmap_entry (ram s) (pmm_phys_to_virt (mb_mmap_addr mb)) (mb_mmap_length mb) off =
         pmm_next_mmap_entry m (pmm_phys_to_virt (mb_mmap_addr mb)) (mb_mmap_length mb) off"
proof (cases "mb_mmap_length mb < off + 4")
  case False
  have "unat (mb_mmap_length mb) \<le> 1048576" using lay by (simp add: boot_layout_def)
  then have "unat (off + 4) = unat off + 4" using off by (simp add: unat_word_ariths)
  then have "unat off + 4 \<le> unat (mb_mmap_length mb)" using False by (simp add: not_less word_le_nat_alt)
  then have "load32 (ram s) (pmm_phys_to_virt (mb_mmap_addr mb) + off) = load32 m (pmm_phys_to_virt (mb_mmap_addr mb) + off)"
    using mmap_read [OF lay agree, of off 0] by simp
  then show ?thesis unfolding pmm_next_mmap_entry_def Let_def by (simp only:)
qed (simp add: pmm_next_mmap_entry_def)

lemma next_entry_Some:
  "pmm_next_mmap_entry m base len off = Some e \<Longrightarrow> e = base + off \<and> 20 \<le> unat (load32 m e)"
  by (auto simp: pmm_next_mmap_entry_def Let_def not_less word_le_nat_alt split: if_splits)

lemma entry_agree:
  assumes "boot_layout (Some mb)" "boot_agree m (Some mb) ke s" "e = pmm_phys_to_virt (mb_mmap_addr mb) + off"
    and "unat off + 24 \<le> unat (mb_mmap_length mb)"
  shows "load32 (ram s) e = load32 m e" "load32 (ram s) (e + 20) = load32 m (e + 20)"
    "pmm_compute_region_bounds (ram s) e = pmm_compute_region_bounds m e"
proof -
  have "load32 (ram s) (e + of_nat k) = load32 m (e + of_nat k)" if "k \<le> 20" for k
    unfolding assms(3) by (rule mmap_read [OF assms(1,2)]) (use assms(4) that in simp)
  from this [of 0] this [of 4] this [of 8] this [of 12] this [of 16] this [of 20]
  have eqs: "load32 (ram s) e = load32 m e" "load32 (ram s) (e + 4) = load32 m (e + 4)" "load32 (ram s) (e + 8) = load32 m (e + 8)"
    "load32 (ram s) (e + 12) = load32 m (e + 12)" "load32 (ram s) (e + 16) = load32 m (e + 16)" "load32 (ram s) (e + 20) = load32 m (e + 20)"
    by simp_all
  show "load32 (ram s) e = load32 m e" "load32 (ram s) (e + 20) = load32 m (e + 20)" by (fact eqs)+
  show "pmm_compute_region_bounds (ram s) e = pmm_compute_region_bounds m e"
    unfolding pmm_compute_region_bounds_def Let_def eqs ..
qed

text \<open>
  The allocator during population: it accepts every frame it does not hold yet. Both builds do.
\<close>

locale frame_pool =
  fixes inv :: "pmm_state \<Rightarrow> bool"
    and frames :: "pmm_state \<Rightarrow> nat set"
    and put :: "u32 \<Rightarrow> pmm_state \<Rightarrow> pmm_state option"
  assumes put_law: "inv s \<Longrightarrow> 0 < i \<Longrightarrow> i < 262144 \<Longrightarrow> i \<notin> frames s \<Longrightarrow>
    \<exists>s'. put (frame_addr i) s = Some s' \<and> inv s' \<and> frames s' = insert i (frames s) \<and> ram_frame (frames s') s s'"
begin

lemma boot_agree_ram_frame:
  assumes "boot_agree m mb ke s" "ram_frame P s s'" "P \<subseteq> Collect (boot_frame m mb ke)"
  shows "boot_agree m mb ke s'"
  using assms unfolding boot_agree_def ram_frame_def by (metis mem_Collect_eq subsetD)

lemma init_page_correct:
  assumes "inv s" "boot_layout mb" "boot_agree m mb ke s" "frames s \<subseteq> Collect (boot_frame m mb ke)"
    and "boot_frame m mb ke i \<Longrightarrow> i \<notin> frames s" and "i < 1048576"
  obtains s' where "pmm_init_page put mb ke (frame_addr i) s = Some s'" "inv s'" "boot_agree m mb ke s'"
    "frames s' = frames s \<union> ({i} \<inter> Collect (boot_frame m mb ke))" "ram_frame (frames s') s s'"
proof (cases "boot_frame m mb ke i")
  case True
  then have i: "256 \<le> i" "i < 16384" by (simp_all add: boot_frame_def)
  obtain s' where s': "put (frame_addr i) s = Some s'" "inv s'" "frames s' = insert i (frames s)" "ram_frame (frames s') s s'"
    using put_law [OF assms(1), of i] assms(5) [OF True] i by auto
  have "pmm_init_page put mb ke (frame_addr i) s = put (frame_addr i) s"
    using True i by (simp add: pmm_init_page_def boot_frame_def module_page_agree [OF assms(2,3)] word_less_nat_alt word_le_nat_alt unat_page_addr)
  moreover have "boot_agree m mb ke s'"
    by (rule boot_agree_ram_frame [OF assms(3) s'(4)]) (use s'(3) assms(4) True in auto)
  ultimately show thesis using that s' True by auto
next
  case False
  have "pmm_init_page put mb ke (frame_addr i) s = Some s"
    using False assms(6) by (auto simp: pmm_init_page_def boot_frame_def module_page_agree [OF assms(2,3)] word_less_nat_alt word_le_nat_alt unat_page_addr)
  then show thesis using that [of s] assms False by auto
qed

lemma each_frame_correct:
  assumes "boot_layout mb"
  shows "inv s \<Longrightarrow> boot_agree m mb ke s \<Longrightarrow> frames s \<subseteq> Collect (boot_frame m mb ke) \<Longrightarrow>
    set js \<inter> Collect (boot_frame m mb ke) \<inter> frames s = {} \<Longrightarrow> distinct js \<Longrightarrow> set js \<subseteq> {..<1048576} \<Longrightarrow>
    \<exists>s'. each_frame (pmm_init_page put mb ke) js s = Some s' \<and> inv s' \<and> boot_agree m mb ke s' \<and>
      frames s' = frames s \<union> (set js \<inter> Collect (boot_frame m mb ke)) \<and> ram_frame (frames s') s s'"
proof (induction js arbitrary: s)
  case (Cons i js)
  obtain s1 where s1: "pmm_init_page put mb ke (frame_addr i) s = Some s1" "inv s1" "boot_agree m mb ke s1"
    "frames s1 = frames s \<union> ({i} \<inter> Collect (boot_frame m mb ke))" "ram_frame (frames s1) s s1"
    by (rule init_page_correct [OF Cons.prems(1) assms Cons.prems(2,3), of i]) (use Cons.prems in auto)
  have "\<exists>s'. each_frame (pmm_init_page put mb ke) js s1 = Some s' \<and> inv s' \<and> boot_agree m mb ke s' \<and>
      frames s' = frames s1 \<union> (set js \<inter> Collect (boot_frame m mb ke)) \<and> ram_frame (frames s') s1 s'"
    by (rule Cons.IH [OF s1(2,3)]) (use Cons.prems s1(4) in auto)
  then obtain s' where s': "each_frame (pmm_init_page put mb ke) js s1 = Some s'" "inv s'" "boot_agree m mb ke s'"
    "frames s' = frames s1 \<union> (set js \<inter> Collect (boot_frame m mb ke))" "ram_frame (frames s') s1 s'" by blast
  have "ram_frame (frames s') s s'"
    by (rule ram_frame_trans [OF ram_frame_mono [OF s1(5)] s'(5)]) (use s'(4) in blast)
  then show ?case using s1(1) s' s1(4) by auto
qed simp

lemma each_entry_correct:
  assumes lay: "boot_layout (Some mb)"
  shows "mmap_table m (pmm_phys_to_virt (mb_mmap_addr mb)) (mb_mmap_length mb) off rs \<Longrightarrow>
    inv s \<Longrightarrow> boot_agree m (Some mb) ke s \<Longrightarrow> frames s \<subseteq> Collect (boot_frame m (Some mb) ke) \<Longrightarrow>
    (\<forall>r \<in> set rs. region_frames r \<inter> frames s = {}) \<Longrightarrow> disjoint_regions rs \<Longrightarrow>
    \<exists>s'. pmm_each_entry ram (pmm_init_page put (Some mb) ke) (pmm_phys_to_virt (mb_mmap_addr mb)) (mb_mmap_length mb) off s = Some s' \<and>
      inv s' \<and> frames s' = frames s \<union> (\<Union>(region_frames ` set rs) \<inter> Collect (boot_frame m (Some mb) ke)) \<and> ram_frame (frames s') s s'"
proof (induction arbitrary: s rule: mmap_table.induct)
  case (mmap_end off)
  then show ?case
    using next_entry_agree [OF lay mmap_end(4,2)] by (subst pmm_each_entry.simps) simp
next
  case (mmap_skip off e rs)
  note e = next_entry_Some [OF mmap_skip(1)]
  note agree = entry_agree [OF lay mmap_skip(7), of e off] next_entry_agree [OF lay mmap_skip(7), of off]
  show ?case
    using mmap_skip.IH [OF mmap_skip.prems] agree e mmap_skip.hyps
    by (subst pmm_each_entry.simps) auto
next
  case (mmap_region off e r rs)
  note e = next_entry_Some [OF mmap_region(1)]
  have off: "unat off + 24 \<le> unat (mb_mmap_length mb)" using conjunct2 [OF e] mmap_region(2) by linarith
  obtain x y where xy: "r = (frame_addr x, frame_addr y)" "x \<le> y" "y < 1048576" "region_frames r = {x..<y}"
    using region_bounds_frames [OF mmap_region(4)] .
  have "\<exists>s'. each_frame (pmm_init_page put (Some mb) ke) [x..<y] s = Some s' \<and> inv s' \<and> boot_agree m (Some mb) ke s' \<and>
      frames s' = frames s \<union> (set [x..<y] \<inter> Collect (boot_frame m (Some mb) ke)) \<and> ram_frame (frames s') s s'"
    by (rule each_frame_correct [OF lay mmap_region.prems(1-3)]) (use mmap_region.prems(4) xy in auto)
  then obtain s1 where s1: "each_frame (pmm_init_page put (Some mb) ke) [x..<y] s = Some s1" "inv s1" "boot_agree m (Some mb) ke s1"
    "frames s1 = frames s \<union> (region_frames r \<inter> Collect (boot_frame m (Some mb) ke))" "ram_frame (frames s1) s s1"
    using xy(4) by auto
  have page: "pmm_each_page (pmm_init_page put (Some mb) ke) (frame_addr x) (frame_addr y) s = Some s1"
    unfolding each_page_frames [OF xy(3,2)] by (rule s1(1))
  have step: "pmm_each_entry ram (pmm_init_page put (Some mb) ke) (pmm_phys_to_virt (mb_mmap_addr mb)) (mb_mmap_length mb) off s =
      pmm_each_entry ram (pmm_init_page put (Some mb) ke) (pmm_phys_to_virt (mb_mmap_addr mb)) (mb_mmap_length mb) (off + (4 + load32 m e)) s1"
    using entry_agree [OF lay mmap_region.prems(2) conjunct1 [OF e] off] entry_agree(1) [OF lay s1(3) conjunct1 [OF e] off]
      next_entry_agree [OF lay mmap_region.prems(2), of off] off mmap_region.hyps page xy(1)
    by (subst pmm_each_entry.simps) simp
  have "\<exists>s'. pmm_each_entry ram (pmm_init_page put (Some mb) ke) (pmm_phys_to_virt (mb_mmap_addr mb)) (mb_mmap_length mb) (off + (4 + load32 m e)) s1 = Some s' \<and>
      inv s' \<and> frames s' = frames s1 \<union> (\<Union>(region_frames ` set rs) \<inter> Collect (boot_frame m (Some mb) ke)) \<and> ram_frame (frames s') s1 s'"
    by (rule mmap_region.IH [OF s1(2,3)]) (use mmap_region.prems s1(4) in auto)
  then obtain s' where s': "pmm_each_entry ram (pmm_init_page put (Some mb) ke) (pmm_phys_to_virt (mb_mmap_addr mb)) (mb_mmap_length mb) (off + (4 + load32 m e)) s1 = Some s'"
      "inv s'" "frames s' = frames s1 \<union> (\<Union>(region_frames ` set rs) \<inter> Collect (boot_frame m (Some mb) ke))" "ram_frame (frames s') s1 s'" by blast
  have "ram_frame (frames s') s s'"
    by (rule ram_frame_trans [OF ram_frame_mono [OF s1(5)] s'(4)]) (use s'(3) in blast)
  then show ?case unfolding step using s' s1(4) by auto
qed

end

definition buddy_populating :: "build_flags \<Rightarrow> numa_state \<Rightarrow> pmm_state \<Rightarrow> bool" where
  "buddy_populating cfg numa s \<longleftrightarrow> \<not> real_time_mode cfg \<and> buddy_inv numa s \<and> buddy_population_in_progress s \<and>
     allocated_pages s = {}"

interpretation buddy_pool: frame_pool "buddy_populating cfg numa" "\<lambda>s. free_pages (blocks_of s)"
  "physical_memory_manager_page_frame_free cfg numa"
  for cfg numa
proof
  fix s i assume inv: "buddy_populating cfg numa s" and i: "0 < i" "i < 262144" "i \<notin> free_pages (blocks_of s)"
  then have bi: "buddy_inv numa s" by (simp add: buddy_populating_def)
  obtain s' where "buddy_insert_order cfg numa (frame_addr i) 0 s = Some s'" "buddy_inv numa s'"
    "free_pages (blocks_of s') = free_pages (blocks_of s) \<union> block_pages i 0"
    "allocated_pages s' = allocated_pages s - block_pages i 0" "ram_frame (free_pages (blocks_of s')) s s'"
    "buddy_population_in_progress s' = buddy_population_in_progress s"
    by (rule insert_core [OF bi, of i 0 cfg]) (use inv i in \<open>simp_all add: block_ok_0 buddy_populating_def\<close>)
  then show "\<exists>s'. physical_memory_manager_page_frame_free cfg numa (frame_addr i) s = Some s' \<and> buddy_populating cfg numa s' \<and>
      free_pages (blocks_of s') = insert i (free_pages (blocks_of s)) \<and> ram_frame (free_pages (blocks_of s')) s s'"
    using inv by (auto simp: buddy_populating_def physical_memory_manager_page_frame_free_def)
qed

interpretation list_pool: frame_pool "freelist_ready cfg numa" freelist_frames "physical_memory_manager_page_frame_free cfg numa"
  for cfg numa
proof
  fix s i assume "freelist_ready cfg numa s" "0 < i" "i < 262144" "i \<notin> freelist_frames s"
  then show "\<exists>s'. physical_memory_manager_page_frame_free cfg numa (frame_addr i) s = Some s' \<and> freelist_ready cfg numa s' \<and>
      freelist_frames s' = insert i (freelist_frames s) \<and> ram_frame (freelist_frames s') s s'"
    using list_frames.release_law [of cfg numa s i] by auto
qed

text \<open>The frames on the lists of the build at hand, and its invariant once the pool is populated.\<close>

definition pool_ready :: "build_flags \<Rightarrow> numa_state \<Rightarrow> pmm_state \<Rightarrow> bool" where
  "pool_ready cfg numa s \<longleftrightarrow>
     (if real_time_mode cfg then freelist_inv numa s
      else buddy_inv numa s \<and> \<not> buddy_population_in_progress s \<and> allocated_pages s = {})"

lemma buddy_reset_inv:
  assumes "numa_inv numa" "\<not> real_time_mode cfg"
  shows "buddy_populating cfg numa ((pmm_reset cfg s)\<lparr>buddy_population_in_progress := True\<rparr>)"
    "free_pages (blocks_of ((pmm_reset cfg s)\<lparr>buddy_population_in_progress := True\<rparr>)) = {}"
proof -
  let ?s = "(pmm_reset cfg s)\<lparr>buddy_population_in_progress := True\<rparr>"
  have b: "blocks_of ?s = (\<lambda>_. None)"
    using assms(2) by (simp add: blocks_of_def pmm_reset_def Let_def buddy_reset_state_def)
  then show "free_pages (blocks_of ?s) = {}" by simp
  have "buddy_lists numa ?s"
    using assms(2) by (simp add: buddy_lists_def list_blocks_def b) (simp add: pmm_reset_def Let_def buddy_reset_state_def)
  then show "buddy_populating cfg numa ?s"
    using assms by (simp add: buddy_populating_def buddy_inv_def buddy_core_def b allocated_pages_def)
      (simp add: pmm_reset_def Let_def buddy_reset_state_def)
qed

lemma freelist_reset_inv:
  assumes "numa_inv numa" "real_time_mode cfg"
  shows "freelist_ready cfg numa (pmm_reset cfg s)" "freelist_frames (pmm_reset cfg s) = {}"
proof -
  have h: "free_list_heads (pmm_reset cfg s) = (\<lambda>_. 0)" "free_page_count (pmm_reset cfg s) = 0"
    using assms(2) by (simp_all add: pmm_reset_def Let_def)
  then show "freelist_frames (pmm_reset cfg s) = {}" by (simp add: freelist_frames_def)
  then show "freelist_ready cfg numa (pmm_reset cfg s)"
    using assms h by (auto simp: freelist_ready_def freelist_inv_def freelist_at_def intro!: exI [of _ "\<lambda>_. []"])
qed

lemma pmm_reset_ram [simp]: "ram (pmm_reset cfg s) = ram s"
  by (simp add: pmm_reset_def Let_def buddy_reset_state_def)

lemma pmm_initialize_pool:
  assumes "numa_inv numa" "boot_layout (Some mb)"
    and "mb_flags mb AND 64 \<noteq> 0" "mb_mmap_length mb \<noteq> 0" "mb_mmap_addr mb \<noteq> 0"
    and table: "mmap_table (ram s) (pmm_phys_to_virt (mb_mmap_addr mb)) (mb_mmap_length mb) 0 rs"
    and "disjoint_regions rs"
  shows "\<exists>s'. physical_memory_manager_initialize cfg numa (Some mb) kernel_end s = Some s' \<and> pool_ready cfg numa s' \<and>
     pool_frames cfg s' = \<Union>(region_frames ` set rs) \<inter> Collect (boot_frame (ram s) (Some mb) kernel_end) \<and>
     ram_frame (pool_frames cfg s') s s'"
proof -
  have mm: "pmm_get_multiboot_mmap (Some mb) = Some (pmm_phys_to_virt (mb_mmap_addr mb), mb_mmap_length mb)"
    using assms(3-5) by (simp add: pmm_get_multiboot_mmap_def)
  show ?thesis
  proof (cases "real_time_mode cfg")
    case True
    note start = freelist_reset_inv [OF assms(1) True, of s]
    from list_pool.each_entry_correct [OF assms(2) table start(1), of kernel_end]
    show ?thesis
      using True assms(7) start
      by (auto simp: physical_memory_manager_initialize_def mm boot_agree_def pool_ready_def pool_frames_def freelist_ready_def ram_frame_def)
  next
    case False
    let ?s = "(pmm_reset cfg s)\<lparr>buddy_population_in_progress := True\<rparr>"
    note start = buddy_reset_inv [OF assms(1) False, of s]
    have "\<exists>s'. pmm_each_entry ram (pmm_init_page (physical_memory_manager_page_frame_free cfg numa) (Some mb) kernel_end)
        (pmm_phys_to_virt (mb_mmap_addr mb)) (mb_mmap_length mb) 0 ?s = Some s' \<and> buddy_populating cfg numa s' \<and>
        free_pages (blocks_of s') = \<Union>(region_frames ` set rs) \<inter> Collect (boot_frame (ram s) (Some mb) kernel_end) \<and>
        ram_frame (free_pages (blocks_of s')) ?s s'"
      using buddy_pool.each_entry_correct [OF assms(2) table start(1), of kernel_end] assms(7) start(2)
      by (simp add: boot_agree_def)
    then obtain s' where s': "pmm_each_entry ram (pmm_init_page (physical_memory_manager_page_frame_free cfg numa) (Some mb) kernel_end)
        (pmm_phys_to_virt (mb_mmap_addr mb)) (mb_mmap_length mb) 0 ?s = Some s'" "buddy_populating cfg numa s'"
      "free_pages (blocks_of s') = \<Union>(region_frames ` set rs) \<inter> Collect (boot_frame (ram s) (Some mb) kernel_end)"
      "ram_frame (free_pages (blocks_of s')) ?s s'" by blast
    have b: "blocks_of (s'\<lparr>buddy_population_in_progress := False\<rparr>) = blocks_of s'" by (rule blocks_of_cong) simp_all
    show ?thesis
      using False s' by (simp add: physical_memory_manager_initialize_def mm pool_ready_def pool_frames_def
          buddy_populating_def ram_frame_def allocated_pages_def b)
  qed
qed

end
