(* ===== verification/Pmm_Correct.thy ===== *)
theory Pmm_Correct
  imports Pmm_Init
begin

text \<open>
  The properties of the physical memory manager (\<open>src/kernel/arch/i386/cpu/pmm.c\<close>) over its public
  interface, with a small populated pool as the concrete input of the witnesses.
\<close>

abbreviation (input) server :: build_flags where
  "server \<equiv> \<lparr>real_time_mode = False, debug_poison = False\<rparr>"

abbreviation (input) client :: build_flags where
  "client \<equiv> \<lparr>real_time_mode = True, debug_poison = False\<rparr>"

section \<open>A pool of two frames\<close>

definition two_frames :: pmm_state where
  "two_frames = the (buddy_insert_order server numa_state_static 0x100000 1
     ((pmm_static (\<lambda>_. 0))\<lparr>buddy_population_in_progress := True\<rparr>))\<lparr>buddy_population_in_progress := False\<rparr>"

lemma frame_256: "frame_addr 256 = 0x100000"
  by (simp add: frame_addr_def)

lemma two_frames:
  "buddy_inv numa_state_static two_frames" "\<not> buddy_population_in_progress two_frames"
  "free_pages (blocks_of two_frames) = {256, 257}" "allocated_pages two_frames = {}"
proof -
  let ?s = "(pmm_static (\<lambda>_. 0))\<lparr>buddy_population_in_progress := True\<rparr>"
  have inv: "buddy_inv numa_state_static ?s" using buddy_inv_static [OF numa_inv_static] by simp
  have b: "blocks_of ?s = (\<lambda>_. None)" by (simp add: blocks_of_def pmm_static_def)
  have "block_ok 256 1" by (simp add: block_ok_def)
  obtain t where t: "buddy_insert_order server numa_state_static (frame_addr 256) 1 ?s = Some t" "buddy_inv numa_state_static t"
    "free_pages (blocks_of t) = free_pages (blocks_of ?s) \<union> block_pages 256 1" "allocated_pages t = allocated_pages ?s - block_pages 256 1"
    by (rule insert_core [OF inv \<open>block_ok 256 1\<close>, of server]) (simp_all add: b)
  have tf: "two_frames = t\<lparr>buddy_population_in_progress := False\<rparr>"
    using t(1) by (simp add: two_frames_def frame_256)
  have tb: "blocks_of two_frames = blocks_of t" unfolding tf by (rule blocks_of_cong) simp_all
  show "buddy_inv numa_state_static two_frames" "\<not> buddy_population_in_progress two_frames"
    using t(2) by (simp_all add: tf)
  show "free_pages (blocks_of two_frames) = {256, 257}"
    unfolding tb t(3) by (auto simp: b block_pages_def)
  show "allocated_pages two_frames = {}"
    using t(4) by (simp add: tf allocated_pages_def pmm_static_def)
qed

section \<open>Server build\<close>

lemma owned_block_ok:
  assumes "k \<le> 18" "2 ^ k dvd i" "block_pages i k \<subseteq> {0<..<262144}"
  shows "block_ok i k"
proof -
  have "(1::nat) \<le> 2 ^ k" by simp
  then have "i \<in> block_pages i k" "i + 2 ^ k - 1 \<in> block_pages i k"
    unfolding block_pages_def atLeastLessThan_iff by linarith+
  with assms(3) have "i \<in> {0<..<262144}" "i + 2 ^ k - 1 \<in> {0<..<262144}" by blast+
  with assms(1,2) \<open>1 \<le> 2 ^ k\<close> show ?thesis unfolding block_ok_def greaterThanLessThan_iff by linarith
qed

text \<open>
  C1 (functional): on a server build, a request for \<open>2^order\<close> contiguous frames succeeds exactly when the
  pool has an aligned free run of that size: the block returned is aligned, inside the managed range and
  was free, exactly its frames move from free to allocated, and no byte outside the frames that stay free
  is written. Otherwise the answer is 0 and nothing changes. The walk of the lists always ends and the
  allocator's invariant (well-formed, fully coalesced blocks, exact lists, exact counter) is kept.
\<close>

theorem allocate_order_correct:
  assumes "\<not> real_time_mode cfg" "buddy_inv numa s" "local_node < numa_node_count numa" "order \<le> 18"
  shows "\<exists>p s'. physical_memory_manager_page_frame_allocate_order cfg numa local_node order s = Some (p, s') \<and>
     buddy_inv numa s' \<and>
     (if free_run s order then
        \<exists>i. p = frame_addr i \<and> block_ok i order \<and> block_pages i order \<subseteq> free_pages (blocks_of s) \<and>
            free_pages (blocks_of s') = free_pages (blocks_of s) - block_pages i order \<and>
            allocated_pages s' = allocated_pages s \<union> block_pages i order \<and>
            ram_frame (free_pages (blocks_of s')) s s'
      else p = 0 \<and> s' = s)"
proof -
  have run: "physical_memory_manager_page_frame_allocate_order cfg numa local_node order s =
      buddy_remove_order cfg numa local_node order s"
    using assms(1) by (simp add: physical_memory_manager_page_frame_allocate_order_def)
  show ?thesis unfolding run using remove_order_correct [OF assms(2-4), of cfg] by blast
qed

theorem allocate_order_correct_witness:
  "\<exists>p s'. physical_memory_manager_page_frame_allocate_order server numa_state_static 0 1 two_frames = Some (p, s') \<and>
     p = 0x100000 \<and> free_pages (blocks_of s') = {} \<and> allocated_pages s' = {256, 257}"
proof -
  have run: "free_run two_frames 1"
    unfolding free_run_def two_frames(3) by (intro exI [of _ 256]) (auto simp: block_pages_def)
  have "(0::u32) < numa_node_count numa_state_static" by (simp add: numa_state_static_def)
  from allocate_order_correct [OF _ two_frames(1) this, of server 1]
  obtain p s' i where r: "physical_memory_manager_page_frame_allocate_order server numa_state_static 0 1 two_frames = Some (p, s')"
    "p = frame_addr i" "block_pages i 1 \<subseteq> {256, 257}" "free_pages (blocks_of s') = {256, 257} - block_pages i 1"
    "allocated_pages s' = {} \<union> block_pages i 1"
    using run by (auto simp: two_frames(3,4))
  have "i \<in> block_pages i 1" "i + 1 \<in> block_pages i 1" by (simp_all add: block_pages_def)
  then have "i \<in> {256, 257}" "i + 1 \<in> {256, 257}" using r(3) by blast+
  then have "i = 256" by auto
  then have "block_pages i 1 = {256, 257}" by (auto simp: block_pages_def)
  then show ?thesis using r \<open>i = 256\<close> frame_256 by auto
qed

text \<open>
  C2 (error): on a server build outside population, handing back \<open>2^order\<close> frames at any address is
  decided exactly: when the order is supported, the address is an aligned frame below 1 GiB and every
  frame of the range is currently allocated, exactly those frames become free again, merged with their
  free buddies, and only bytes of free frames are written. In every other case, double frees included,
  the lists, the page maps and the memory are untouched and the rejection is counted.
\<close>

theorem free_order_correct:
  assumes "\<not> real_time_mode cfg" "buddy_inv numa s" "\<not> buddy_population_in_progress s"
  shows "\<exists>s'. physical_memory_manager_page_frame_free_order cfg numa phys order s = Some s' \<and> buddy_inv numa s' \<and>
     (if order \<le> 18 \<and> (\<exists>i < 262144. phys = frame_addr i \<and> 2 ^ order dvd i \<and> block_pages i order \<subseteq> allocated_pages s) then
        \<exists>i. phys = frame_addr i \<and>
          free_pages (blocks_of s') = free_pages (blocks_of s) \<union> block_pages i order \<and>
          allocated_pages s' = allocated_pages s - block_pages i order \<and>
          ram_frame (free_pages (blocks_of s')) s s' \<and> buddy_rejected_free_count s' = buddy_rejected_free_count s
      else blocks_of s' = blocks_of s \<and> allocated_pages s' = allocated_pages s \<and> ram s' = ram s \<and>
        buddy_free_list_heads s' = buddy_free_list_heads s \<and>
        buddy_rejected_free_count s' = buddy_rejected_free_count s + 1)"
proof -
  have run: "physical_memory_manager_page_frame_free_order cfg numa phys order s = buddy_insert_order cfg numa phys order s"
    using assms(1) by (simp add: physical_memory_manager_page_frame_free_order_def)
  show ?thesis
  proof (cases "order \<le> 18 \<and> (\<exists>i < 262144. phys = frame_addr i \<and> 2 ^ order dvd i \<and> block_pages i order \<subseteq> allocated_pages s)")
    case True
    then obtain i where i: "i < 262144" "phys = frame_addr i" "2 ^ order dvd i" "block_pages i order \<subseteq> allocated_pages s" by blast
    have al: "allocated_pages s \<subseteq> {0<..<262144}" "free_pages (blocks_of s) \<inter> allocated_pages s = {}"
      using assms(2) by (simp_all add: buddy_inv_def)
    have ok: "block_ok i order" using True i(3,4) al(1) by (intro owned_block_ok) auto
    obtain s' where "buddy_insert_order cfg numa (frame_addr i) order s = Some s'" "buddy_inv numa s'"
      "free_pages (blocks_of s') = free_pages (blocks_of s) \<union> block_pages i order"
      "allocated_pages s' = allocated_pages s - block_pages i order" "ram_frame (free_pages (blocks_of s')) s s'"
      "buddy_rejected_free_count s' = buddy_rejected_free_count s"
      by (rule insert_core [OF assms(2) ok, of cfg]) (use i(4) al(2) in auto)
    then show ?thesis unfolding run if_P [OF True] using i(2) by blast
  next
    case False
    have stays: "blocks_of (s\<lparr>buddy_rejected_free_count := a\<rparr>) = blocks_of s"
      "blocks_of (s\<lparr>buddy_rejected_free_count := a, buddy_double_free_count := b\<rparr>) = blocks_of s" for a b
      by (rule blocks_of_cong; simp)+
    show ?thesis
    proof (cases "order \<le> 18 \<and> (\<exists>i < 262144. phys = frame_addr i \<and> 2 ^ order dvd i)")
      case True
      then obtain i where i: "i < 262144" "phys = frame_addr i" "2 ^ order dvd i" by blast
      have "\<not> block_pages i order \<subseteq> allocated_pages s" using False True i by blast
      from insert_order_not_owned [OF assms(3) conjunct1 [OF True] i(1,3) this, of cfg numa]
      show ?thesis
        unfolding run if_not_P [OF False] using assms(2) i(2) by (simp add: stays allocated_pages_def)
    next
      case mal: False
      from insert_order_malformed [OF mal, of cfg numa s]
      show ?thesis
        unfolding run if_not_P [OF False] using assms(2) by (simp add: stays allocated_pages_def)
    qed
  qed
qed

theorem free_order_correct_witness:
  "\<exists>s'. physical_memory_manager_page_frame_free_order server numa_state_static 0x100000 1 two_frames = Some s' \<and>
     ram s' = ram two_frames \<and> allocated_pages s' = {} \<and>
     buddy_rejected_free_count s' = buddy_rejected_free_count two_frames + 1"
proof -
  have "block_pages i 1 \<noteq> {}" for i using block_pages_base by blast
  then have no: "\<not> ((1::nat) \<le> 18 \<and> (\<exists>i < 262144. (0x100000::u32) = frame_addr i \<and> 2 ^ 1 dvd i \<and>
      block_pages i 1 \<subseteq> allocated_pages two_frames))"
    unfolding two_frames(4) by blast
  from free_order_correct [of server, OF _ two_frames(1,2), of "0x100000" 1] show ?thesis
    unfolding if_not_P [OF no] using two_frames(4) by auto
qed

text \<open>
  C3 (roundtrip): on a server build, an allocation followed by the release of the block it returned
  restores the free lists' contents exactly: the same blocks at the same orders, the same ownership map.
\<close>

theorem allocate_free_roundtrip:
  assumes "\<not> real_time_mode cfg" "buddy_inv numa s" "\<not> buddy_population_in_progress s"
    and "local_node < numa_node_count numa" "order \<le> 18" "free_run s order"
  shows "\<exists>p s' s''. physical_memory_manager_page_frame_allocate_order cfg numa local_node order s = Some (p, s') \<and> p \<noteq> 0 \<and>
     physical_memory_manager_page_frame_free_order cfg numa p order s' = Some s'' \<and>
     blocks_of s'' = blocks_of s \<and> allocated_pages s'' = allocated_pages s \<and> free_page_count s'' = free_page_count s"
proof -
  obtain p s' i where a: "buddy_remove_order cfg numa local_node order s = Some (p, s')" "buddy_inv numa s'"
    "buddy_population_in_progress s' = buddy_population_in_progress s"
    "p = frame_addr i" "block_ok i order" "block_pages i order \<subseteq> free_pages (blocks_of s)"
    "free_pages (blocks_of s') = free_pages (blocks_of s) - block_pages i order"
    "allocated_pages s' = allocated_pages s \<union> block_pages i order"
    using remove_order_correct [OF assms(2,4,5), of cfg] unfolding if_P [OF assms(6)] by blast
  obtain s'' where f: "buddy_insert_order cfg numa (frame_addr i) order s' = Some s''" "buddy_inv numa s''"
    "free_pages (blocks_of s'') = free_pages (blocks_of s') \<union> block_pages i order"
    "allocated_pages s'' = allocated_pages s' - block_pages i order"
    by (rule insert_core [OF a(2,5), of cfg]) (use a(7,8) in auto)
  have fp: "free_pages (blocks_of s'') = free_pages (blocks_of s)" using f(3) a(6,7) by blast
  have "blocks_of s'' = blocks_of s"
    using assms(2) f(2) fp by (intro coalesced_unique) (simp_all add: buddy_inv_def buddy_core_def)
  moreover have "allocated_pages s'' = allocated_pages s"
    using f(4) a(6,8) assms(2) by (auto simp: buddy_inv_def)
  moreover have "free_page_count s'' = free_page_count s"
    using assms(2) f(2) fp by (simp add: buddy_inv_def word_unat_eq_iff)
  moreover have "p \<noteq> 0" using a(4) frame_addr_nonzero block_ok_index [OF a(5)] by simp
  ultimately show ?thesis
    using a(1,4) f(1) assms(1)
    by (intro exI [of _ p] exI [of _ s'] exI [of _ s''])
      (simp add: physical_memory_manager_page_frame_allocate_order_def physical_memory_manager_page_frame_free_order_def)
qed

theorem allocate_free_roundtrip_witness:
  "\<exists>p s' s''. physical_memory_manager_page_frame_allocate_order server numa_state_static 0 0 two_frames = Some (p, s') \<and> p \<noteq> 0 \<and>
     physical_memory_manager_page_frame_free_order server numa_state_static p 0 s' = Some s'' \<and>
     blocks_of s'' = blocks_of two_frames"
proof -
  have run: "free_run two_frames 0" by (simp add: free_run_0 two_frames(3))
  have "(0::u32) < numa_node_count numa_state_static" by (simp add: numa_state_static_def)
  from allocate_free_roundtrip [of server, OF _ two_frames(1,2) this _ run] show ?thesis by auto
qed

section \<open>Every state the pool can reach\<close>

text \<open>Server builds: any interleaving of allocations from any node and of releases, right or wrong.\<close>

inductive pmm_step :: "build_flags \<Rightarrow> numa_state \<Rightarrow> pmm_state \<Rightarrow> pmm_state \<Rightarrow> bool" for cfg numa where
  alloc: "local_node < numa_node_count numa \<Longrightarrow>
    physical_memory_manager_page_frame_allocate_order cfg numa local_node order s = Some (p, s') \<Longrightarrow> pmm_step cfg numa s s'"
| release: "physical_memory_manager_page_frame_free_order cfg numa phys order s = Some s' \<Longrightarrow> pmm_step cfg numa s s'"

inductive pmm_run :: "build_flags \<Rightarrow> numa_state \<Rightarrow> pmm_state \<Rightarrow> pmm_state \<Rightarrow> bool" for cfg numa where
  refl: "pmm_run cfg numa s s"
| step: "pmm_run cfg numa s t \<Longrightarrow> pmm_step cfg numa t u \<Longrightarrow> pmm_run cfg numa s u"

inductive_cases pmm_stepE: "pmm_step cfg numa s s'"

lemma insert_order_total:
  assumes "buddy_inv numa s" "\<not> buddy_population_in_progress s" "buddy_insert_order cfg numa phys order s = Some s'"
  shows "buddy_inv numa s' \<and> \<not> buddy_population_in_progress s' \<and>
    free_pages (blocks_of s') \<union> allocated_pages s' = free_pages (blocks_of s) \<union> allocated_pages s"
proof -
  consider (bad) "\<not> (order \<le> 18 \<and> (\<exists>i < 262144. phys = frame_addr i \<and> 2 ^ order dvd i))"
    | (foreign) i where "order \<le> 18" "i < 262144" "phys = frame_addr i" "2 ^ order dvd i" "\<not> block_pages i order \<subseteq> allocated_pages s"
    | (owned) i where "order \<le> 18" "i < 262144" "phys = frame_addr i" "2 ^ order dvd i" "block_pages i order \<subseteq> allocated_pages s"
    by blast
  then show ?thesis
  proof cases
    case bad
    from insert_order_malformed [OF bad, of cfg numa s] assms show ?thesis
      by (auto simp: allocated_pages_def cong: blocks_of_cong)
  next
    case foreign
    from insert_order_not_owned [OF assms(2) foreign(1,2,4,5), of cfg numa] assms foreign(3) show ?thesis
      by (auto simp: allocated_pages_def cong: blocks_of_cong)
  next
    case owned
    have al: "allocated_pages s \<subseteq> {0<..<262144}" "free_pages (blocks_of s) \<inter> allocated_pages s = {}"
      using assms(1) by (simp_all add: buddy_inv_def)
    have ok: "block_ok i order" using owned(1,4,5) al(1) by (intro owned_block_ok) auto
    obtain t where "buddy_insert_order cfg numa (frame_addr i) order s = Some t" "buddy_inv numa t"
      "free_pages (blocks_of t) = free_pages (blocks_of s) \<union> block_pages i order"
      "allocated_pages t = allocated_pages s - block_pages i order"
      "buddy_population_in_progress t = buddy_population_in_progress s"
      by (rule insert_core [OF assms(1) ok, of cfg]) (use owned(5) al(2) in auto)
    then show ?thesis using assms(2,3) owned(3,5) by auto
  qed
qed

lemma remove_order_total:
  assumes "buddy_inv numa s" "\<not> buddy_population_in_progress s" "local_node < numa_node_count numa"
    and "buddy_remove_order cfg numa local_node order s = Some (p, s')"
  shows "buddy_inv numa s' \<and> \<not> buddy_population_in_progress s' \<and>
    free_pages (blocks_of s') \<union> allocated_pages s' = free_pages (blocks_of s) \<union> allocated_pages s"
proof (cases "order \<le> 18")
  case True
  from remove_order_correct [OF assms(1,3) True, of cfg] assms(2,4) show ?thesis
    by (auto split: if_splits)
next
  case False
  with assms show ?thesis by (simp add: buddy_remove_order_def buddy_is_valid_order_def)
qed

text \<open>
  C4 (invariant): on a server build, whatever sequence of allocations and releases runs after population,
  well or ill behaved (foreign addresses, double frees, unsupported orders), the allocator's invariant
  holds and the frames that are free or allocated are always the frames it started with: none is lost,
  none is invented, none is free and allocated at once.
\<close>

theorem pmm_run_conserves:
  assumes "pmm_run cfg numa s t" "\<not> real_time_mode cfg" "buddy_inv numa s" "\<not> buddy_population_in_progress s"
  shows "buddy_inv numa t \<and> free_pages (blocks_of t) \<inter> allocated_pages t = {} \<and>
    free_pages (blocks_of t) \<union> allocated_pages t = free_pages (blocks_of s) \<union> allocated_pages s"
proof -
  have "buddy_inv numa t \<and> \<not> buddy_population_in_progress t \<and>
    free_pages (blocks_of t) \<union> allocated_pages t = free_pages (blocks_of s) \<union> allocated_pages s"
    using assms
  proof (induction rule: pmm_run.induct)
    case (step s t u)
    then have t: "buddy_inv numa t" "\<not> buddy_population_in_progress t" by simp_all
    from \<open>pmm_step cfg numa t u\<close>
    have "buddy_inv numa u \<and> \<not> buddy_population_in_progress u \<and>
      free_pages (blocks_of u) \<union> allocated_pages u = free_pages (blocks_of t) \<union> allocated_pages t"
      using \<open>\<not> real_time_mode cfg\<close> remove_order_total [OF t] insert_order_total [OF t]
      by (elim pmm_stepE) (simp_all add: physical_memory_manager_page_frame_allocate_order_def physical_memory_manager_page_frame_free_order_def)
    with step show ?case by simp
  qed simp
  then show ?thesis by (simp add: buddy_inv_def)
qed

theorem pmm_run_conserves_witness:
  "\<exists>t. pmm_run server numa_state_static two_frames t \<and> t \<noteq> two_frames \<and>
     free_pages (blocks_of t) \<union> allocated_pages t = {256, 257}"
proof -
  let ?t = "two_frames\<lparr>buddy_rejected_free_count := buddy_rejected_free_count two_frames + 1\<rparr>"
  have "buddy_insert_order server numa_state_static 0x100000 19 two_frames = Some ?t"
    by (rule insert_order_malformed) simp
  then have "pmm_step server numa_state_static two_frames ?t"
    by (intro pmm_step.release [of server numa_state_static "0x100000" 19])
      (simp add: physical_memory_manager_page_frame_free_order_def)
  then have run: "pmm_run server numa_state_static two_frames ?t"
    by (rule pmm_run.step [OF pmm_run.refl])
  have "buddy_rejected_free_count ?t \<noteq> buddy_rejected_free_count two_frames" by simp
  then have "?t \<noteq> two_frames" by metis
  with run pmm_run_conserves [OF run _ two_frames(1,2)] show ?thesis
    by (intro exI [of _ ?t]) (simp add: two_frames(3,4))
qed

section \<open>Both builds\<close>

text \<open>
  C6 (safety): in either build, taking \<open>n\<close> frames one by one after population hands out
  \<open>min n |free|\<close> pairwise distinct non-zero frames of the pool and then reports exhaustion by 0; the free
  frames are exactly those not handed out, and no byte outside the pool's free frames is touched.
\<close>

theorem take_frames_distinct:
  assumes "pool_ready cfg numa s" "local_node < numa_node_count numa"
  shows "\<exists>js s'. take_frames (physical_memory_manager_page_frame_allocate cfg numa local_node) n s = Some (map frame_addr js, s') \<and>
     distinct (map frame_addr js) \<and> 0 \<notin> set (map frame_addr js) \<and> set js \<subseteq> pool_frames cfg s \<and>
     length js = min n (card (pool_frames cfg s)) \<and> pool_frames cfg s' = pool_frames cfg s - set js \<and>
     ram_frame (pool_frames cfg s) s s'"
proof -
  have nodup: "distinct (map frame_addr js) \<and> 0 \<notin> set (map frame_addr js)"
    if "distinct js" "set js \<subseteq> {0<..<262144}" for js
  proof -
    have "inj_on frame_addr (set js)"
      using that(2) by (intro inj_onI) (metis frame_addr_inj greaterThanLessThan_iff subsetD)
    moreover have "frame_addr i \<noteq> 0" if "i \<in> set js" for i
      using that \<open>set js \<subseteq> _\<close> by (intro frame_addr_nonzero) auto
    ultimately show ?thesis using that(1) by (auto simp: distinct_map)
  qed
  show ?thesis
  proof (cases "real_time_mode cfg")
    case True
    then have inv: "freelist_ready cfg numa s" using assms(1) by (simp add: pool_ready_def freelist_ready_def)
    obtain js s' where "take_frames (physical_memory_manager_page_frame_allocate cfg numa local_node) n s = Some (map frame_addr js, s')"
      "distinct js" "set js \<subseteq> freelist_frames s" "length js = min n (card (freelist_frames s))"
      "freelist_frames s' = freelist_frames s - set js" "ram_frame (freelist_frames s) s s'"
      using list_frames.take_frames_correct [OF inv, of local_node n] by blast
    with nodup [of js] list_frames.frames_range [OF inv] show ?thesis
      unfolding pool_frames_def if_P [OF True] by blast
  next
    case False
    then have inv: "buddy_ready cfg numa local_node s"
      using assms by (simp add: pool_ready_def buddy_ready_def)
    obtain js s' where "take_frames (physical_memory_manager_page_frame_allocate cfg numa local_node) n s = Some (map frame_addr js, s')"
      "distinct js" "set js \<subseteq> free_pages (blocks_of s)" "length js = min n (card (free_pages (blocks_of s)))"
      "free_pages (blocks_of s') = free_pages (blocks_of s) - set js" "ram_frame (free_pages (blocks_of s)) s s'"
      using buddy_frames.take_frames_correct [OF inv, of n] by blast
    with nodup [of js] buddy_frames.frames_range [OF inv] show ?thesis
      unfolding pool_frames_def if_not_P [OF False] by blast
  qed
qed

theorem take_frames_distinct_witness:
  "\<exists>js s'. take_frames (physical_memory_manager_page_frame_allocate server numa_state_static 0) 3 two_frames = Some (map frame_addr js, s') \<and>
     set js = {256, 257} \<and> length js = 2 \<and> pool_frames server s' = {}"
proof -
  have ready: "pool_ready server numa_state_static two_frames"
    by (simp add: pool_ready_def two_frames)
  have pf: "pool_frames server two_frames = {256, 257}" by (simp add: pool_frames_def two_frames(3))
  have "(0::u32) < numa_node_count numa_state_static" by (simp add: numa_state_static_def)
  from take_frames_distinct [OF ready this, of 3] obtain js s' where
    r: "take_frames (physical_memory_manager_page_frame_allocate server numa_state_static 0) 3 two_frames = Some (map frame_addr js, s')"
      "distinct (map frame_addr js)" "set js \<subseteq> {256, 257}" "length js = 2" "pool_frames server s' = {256, 257} - set js"
    unfolding pf by auto
  have "card (set js) = 2" using r(2,4) by (simp add: distinct_map distinct_card)
  then have "set js = {256, 257}" using r(3) by (intro card_subset_eq) simp_all
  then show ?thesis using r by blast
qed


text \<open>A map at 0x9000 with one available entry of 5 MiB at 1 MiB, the kernel image up to 3 MiB, no modules.\<close>

definition boot_info :: multiboot_info where
  "boot_info = \<lparr>mb_flags = 64, mb_mods_count = 0, mb_mods_addr = 0, mb_mmap_length = 24, mb_mmap_addr = 0x9000\<rparr>"

definition boot_ram :: mem where
  "boot_ram = (\<lambda>_. 0)(0xC0009000 := 20, 0xC0009006 := 0x10, 0xC000900E := 0x40, 0xC0009014 := 1)"

lemma boot_table: "mmap_table boot_ram (pmm_phys_to_virt 0x9000) 24 0 [(0x100000, 0x500000)]"
proof (rule mmap_table.mmap_region)
  show "pmm_next_mmap_entry boot_ram (pmm_phys_to_virt 0x9000) 24 0 = Some 0xC0009000" by code_simp
  show "unat (0::u32) + 4 + unat (load32 boot_ram 0xC0009000) \<le> unat (24::u32)" by code_simp
  show "load32 boot_ram (0xC0009000 + 20) = 1" by code_simp
  show "pmm_compute_region_bounds boot_ram 0xC0009000 = Some (0x100000, 0x500000)" by code_simp
  show "mmap_table boot_ram (pmm_phys_to_virt 0x9000) 24 (0 + (4 + load32 boot_ram 0xC0009000)) []"
    by (rule mmap_table.mmap_end) code_simp+
qed


end
