(* ===== verification/Paging.thy ===== *)
theory Paging
  imports Frame_Provider
begin

text \<open>
  \<open>src/kernel/arch/i386/cpu/paging.c\<close>: runtime mapping on the two-level page tables of the i386. The
  directory and the tables are words of the byte memory the frame allocator also uses, at their
  higher-half aliases; a directory or table entry is its 32-bit word, bits 0 to 11 being the flag
  bit-fields and bits 12 to 31 the frame number. A flag structure passed by value is such a word.
  Invalidations of translations are recorded in the order the code requests them.
\<close>

datatype tlb_request = Invlpg u32 | Tlb_Shootdown u32

record paging =
  current_page_directory :: u32
  page_table_runtime_owned :: "nat \<Rightarrow> bool"
  page_table_runtime_owned_count :: u32
  paging_cached_page_table_phys :: u32
  tlb_requests :: "tlb_request list"
  pmm :: pmm_state

definition PAGE_DIRECTORY_INDEX :: "u32 \<Rightarrow> u32" where "PAGE_DIRECTORY_INDEX virt_addr = drop_bit 22 virt_addr AND 0x3FF"
definition PAGE_TABLE_INDEX :: "u32 \<Rightarrow> u32" where "PAGE_TABLE_INDEX virt_addr = drop_bit 12 virt_addr AND 0x3FF"
definition PAGE_FRAME_ADDR :: "u32 \<Rightarrow> u32" where "PAGE_FRAME_ADDR entry = push_bit 12 (drop_bit 12 entry)"
definition PAGE_OFFSET :: "u32 \<Rightarrow> u32" where "PAGE_OFFSET virt_addr = virt_addr AND 0xFFF"

abbreviation entry_present :: "u32 \<Rightarrow> bool" where "entry_present w \<equiv> bit w 0"

definition set_ram :: "mem \<Rightarrow> paging \<Rightarrow> paging" where
  "set_ram m s = s\<lparr>pmm := (pmm s)\<lparr>ram := m\<rparr>\<rparr>"

definition mem_zero :: "mem \<Rightarrow> u32 \<Rightarrow> nat \<Rightarrow> mem" where
  "mem_zero m a n = (\<lambda>x. if unat (x - a) < n then 0 else m x)"

section \<open>Page table helpers\<close>

definition paging_allocate_page_table_frame :: "build_flags \<Rightarrow> numa_state \<Rightarrow> u32 \<Rightarrow> paging \<Rightarrow> (u32 \<times> paging) option" where
  "paging_allocate_page_table_frame cfg numa local_node s =
     (if real_time_mode cfg then do {
        (p, m) \<leftarrow> physical_memory_manager_page_frame_allocate cfg numa local_node (pmm s);
        Some (p, s\<lparr>pmm := m\<rparr>)
      }
      else if paging_cached_page_table_phys s \<noteq> 0 then
        Some (paging_cached_page_table_phys s, s\<lparr>paging_cached_page_table_phys := 0\<rparr>)
      else do {
        (block_phys, m) \<leftarrow> physical_memory_manager_page_frame_allocate_order cfg numa local_node 1 (pmm s);
        let s = s\<lparr>pmm := m\<rparr>;
        if block_phys \<noteq> 0 then Some (block_phys, s\<lparr>paging_cached_page_table_phys := block_phys + 4096\<rparr>)
        else do {
          (p, m) \<leftarrow> physical_memory_manager_page_frame_allocate cfg numa local_node (pmm s);
          Some (p, s\<lparr>pmm := m\<rparr>)
        }
      })"

definition paging_create_page_table ::
  "build_flags \<Rightarrow> numa_state \<Rightarrow> u32 \<Rightarrow> u32 \<Rightarrow> u32 \<Rightarrow> paging \<Rightarrow> (bool \<times> paging) option" where
  "paging_create_page_table cfg numa local_node pde pde_flags s = do {
     (new_pt_phys, s) \<leftarrow> paging_allocate_page_table_frame cfg numa local_node s;
     if new_pt_phys = 0 then Some (False, s)
     else
       let m = mem_zero (ram (pmm s)) (pmm_phys_to_virt new_pt_phys) 4096
       in Some (True, set_ram (store32 m pde ((pde_flags AND 0x1E) OR 1 OR push_bit 12 (drop_bit 12 new_pt_phys))) s)
   }"

definition paging_update_pde_flags :: "u32 \<Rightarrow> u32 \<Rightarrow> u32" where
  "paging_update_pde_flags pde pde_flags = (pde AND 0xFFFFF000) OR (pde_flags AND 0xFFF)"

definition paging_install_pte :: "u32 \<Rightarrow> u32 \<Rightarrow> u32" where
  "paging_install_pte phys_addr pte_flags = push_bit 12 (drop_bit 12 phys_addr) OR (pte_flags AND 0xFFF)"

definition paging_clear_pte :: "u32 \<Rightarrow> mem \<Rightarrow> mem" where
  [simp]: "paging_clear_pte pte m = store32 m pte 0"

definition paging_is_page_table_empty :: "mem \<Rightarrow> u32 \<Rightarrow> bool" where
  "paging_is_page_table_empty m page_table = list_all (\<lambda>i. \<not> entry_present (load32 m (page_table + 4 * of_nat i))) [0..<1024]"

section \<open>Public operations\<close>

definition paging_initialize_runtime :: "u32 \<Rightarrow> paging \<Rightarrow> paging" where
  "paging_initialize_runtime boot_page_directory s =
     s\<lparr>current_page_directory := boot_page_directory, page_table_runtime_owned_count := 0,
       page_table_runtime_owned := (\<lambda>i. if i < 1024 then False else page_table_runtime_owned s i)\<rparr>"

definition paging_require_page_table ::
  "build_flags \<Rightarrow> numa_state \<Rightarrow> u32 \<Rightarrow> u32 \<Rightarrow> u32 \<Rightarrow> paging \<Rightarrow> (bool \<times> paging) option" where
  "paging_require_page_table cfg numa local_node pd_index pde_flags s =
     (let pde = current_page_directory s + 4 * pd_index in
      if \<not> entry_present (load32 (ram (pmm s)) pde) then do {
        (created, s) \<leftarrow> paging_create_page_table cfg numa local_node pde pde_flags s;
        if \<not> created then Some (False, s)
        else Some (True, s\<lparr>page_table_runtime_owned := (page_table_runtime_owned s)(unat pd_index := True),
                           page_table_runtime_owned_count := page_table_runtime_owned_count s + 1\<rparr>)
      }
      else Some (True, set_ram (store32 (ram (pmm s)) pde (paging_update_pde_flags (load32 (ram (pmm s)) pde) pde_flags)) s))"

definition paging_map_page ::
  "build_flags \<Rightarrow> numa_state \<Rightarrow> u32 \<Rightarrow> u32 \<Rightarrow> u32 \<Rightarrow> u32 \<Rightarrow> u32 \<Rightarrow> paging \<Rightarrow> (bool \<times> paging) option" where
  "paging_map_page cfg numa local_node virt_addr phys_addr pde_flags pte_flags s =
     (if current_page_directory s = 0 then Some (False, s) else
      let virt_addr = PAGE_ALIGN_DOWN virt_addr; phys_addr = PAGE_ALIGN_DOWN phys_addr;
          pd_index = PAGE_DIRECTORY_INDEX virt_addr; pt_index = PAGE_TABLE_INDEX virt_addr
      in do {
        (ok, s) \<leftarrow> paging_require_page_table cfg numa local_node pd_index pde_flags s;
        if \<not> ok then Some (False, s)
        else
          let pde = load32 (ram (pmm s)) (current_page_directory s + 4 * pd_index);
              page_table = pmm_phys_to_virt (PAGE_FRAME_ADDR pde);
              s = set_ram (store32 (ram (pmm s)) (page_table + 4 * pt_index) (paging_install_pte phys_addr pte_flags)) s
          in Some (True, s\<lparr>tlb_requests := tlb_requests s @ [Invlpg virt_addr]\<rparr>)
      })"

definition paging_unmap_page :: "build_flags \<Rightarrow> numa_state \<Rightarrow> u32 \<Rightarrow> paging \<Rightarrow> (bool \<times> paging) option" where
  "paging_unmap_page cfg numa virt_addr s =
     (if current_page_directory s = 0 then Some (False, s) else
      let virt_addr = PAGE_ALIGN_DOWN virt_addr;
          pd_index = PAGE_DIRECTORY_INDEX virt_addr; pt_index = PAGE_TABLE_INDEX virt_addr;
          pde = current_page_directory s + 4 * pd_index
      in if \<not> entry_present (load32 (ram (pmm s)) pde) then Some (False, s) else
      let page_table_phys = PAGE_FRAME_ADDR (load32 (ram (pmm s)) pde); page_table = pmm_phys_to_virt page_table_phys;
          pte = page_table + 4 * pt_index
      in if \<not> entry_present (load32 (ram (pmm s)) pte) then Some (False, s) else
      let s = set_ram (paging_clear_pte pte (ram (pmm s))) s
      in do {
        s \<leftarrow>
          (if page_table_runtime_owned s (unat pd_index) \<and> paging_is_page_table_empty (ram (pmm s)) page_table then
             let s = set_ram (store32 (ram (pmm s)) pde 0) s;
                 s = s\<lparr>page_table_runtime_owned := (page_table_runtime_owned s)(unat pd_index := False),
                       page_table_runtime_owned_count :=
                         (if 0 < page_table_runtime_owned_count s then page_table_runtime_owned_count s - 1
                          else page_table_runtime_owned_count s)\<rparr>
             in do {
               m \<leftarrow> physical_memory_manager_page_frame_free cfg numa page_table_phys (pmm s);
               Some (s\<lparr>pmm := m\<rparr>)
             }
           else Some s);
        Some (True, s\<lparr>tlb_requests := tlb_requests s @ [Tlb_Shootdown virt_addr]\<rparr>)
      })"

definition paging_get_physical_address :: "u32 \<Rightarrow> paging \<Rightarrow> u32 option" where
  "paging_get_physical_address virt_addr s =
     (if current_page_directory s = 0 then None else
      let pd_index = PAGE_DIRECTORY_INDEX virt_addr; pt_index = PAGE_TABLE_INDEX virt_addr; offset = PAGE_OFFSET virt_addr;
          pde = load32 (ram (pmm s)) (current_page_directory s + 4 * pd_index)
      in if \<not> entry_present pde then None else
      let pte = load32 (ram (pmm s)) (pmm_phys_to_virt (PAGE_FRAME_ADDR pde) + 4 * pt_index)
      in if \<not> entry_present pte then None else Some (push_bit 12 (drop_bit 12 pte) OR offset))"

definition paging_is_mapped :: "u32 \<Rightarrow> paging \<Rightarrow> bool" where
  "paging_is_mapped virt_addr s \<longleftrightarrow> paging_get_physical_address virt_addr s \<noteq> None"

definition paging_set_page_read_only :: "u32 \<Rightarrow> paging \<Rightarrow> bool \<times> paging" where
  "paging_set_page_read_only virt_addr s =
     (if current_page_directory s = 0 then (False, s) else
      let virt_addr = PAGE_ALIGN_DOWN virt_addr;
          pd_index = PAGE_DIRECTORY_INDEX virt_addr; pt_index = PAGE_TABLE_INDEX virt_addr;
          pde = load32 (ram (pmm s)) (current_page_directory s + 4 * pd_index)
      in if \<not> entry_present pde then (False, s) else
      let pte = pmm_phys_to_virt (PAGE_FRAME_ADDR pde) + 4 * pt_index; w = load32 (ram (pmm s)) pte
      in if \<not> entry_present w then (False, s)
      else (True, (set_ram (store32 (ram (pmm s)) pte (unset_bit 1 w)) s)\<lparr>tlb_requests := tlb_requests s @ [Invlpg virt_addr]\<rparr>))"

definition paging_page_is_read_only :: "u32 \<Rightarrow> paging \<Rightarrow> bool option" where
  "paging_page_is_read_only virt_addr s =
     (if current_page_directory s = 0 then None else
      let virt_addr = PAGE_ALIGN_DOWN virt_addr;
          pd_index = PAGE_DIRECTORY_INDEX virt_addr; pt_index = PAGE_TABLE_INDEX virt_addr;
          pde = load32 (ram (pmm s)) (current_page_directory s + 4 * pd_index)
      in if \<not> entry_present pde then None else
      let w = load32 (ram (pmm s)) (pmm_phys_to_virt (PAGE_FRAME_ADDR pde) + 4 * pt_index)
      in if \<not> entry_present w then None else Some (\<not> bit w 1))"

section \<open>Entries in memory\<close>

abbreviation entry_addr :: "nat \<Rightarrow> nat \<Rightarrow> u32" where
  "entry_addr t j \<equiv> pmm_phys_to_virt (frame_addr t) + 4 * of_nat j"

abbreviation entry :: "mem \<Rightarrow> nat \<Rightarrow> nat \<Rightarrow> u32" where
  "entry m t j \<equiv> load32 m (entry_addr t j)"

lemma unat_entry_addr: "t < 262144 \<Longrightarrow> j < 1024 \<Longrightarrow> unat (entry_addr t j) = 4096 * (t + 786432) + 4 * j"
proof -
  assume "t < 262144" "j < 1024"
  moreover from this have "unat (4 * of_nat j :: u32) = 4 * j" by (simp add: unat_word_ariths unsigned_of_nat take_bit_nat_eq_self)
  ultimately show ?thesis by (simp add: unat_word_ariths unat_frame_virt)
qed

lemma entry_byte:
  assumes "t < 262144" "j < 1024" "unat (x - entry_addr t j) < 4"
  shows "in_frame t x"
proof -
  let ?v = "pmm_phys_to_virt (frame_addr t)"
  define a b where "a = x - entry_addr t j" and "b = (4 * of_nat j :: u32)"
  have b: "unat b = 4 * j" using assms(2) by (simp add: b_def unat_word_ariths unsigned_of_nat take_bit_nat_eq_self)
  have "x - ?v = a + b" by (simp add: a_def b_def)
  moreover have "unat a < 4" using assms(3) by (simp add: a_def)
  ultimately have "unat (x - ?v) < 4096" using assms(2) b by (simp add: unat_word_ariths)
  then show ?thesis by (rule in_frame_offset [OF assms(1)])
qed

lemma entry_cong:
  assumes "t < 262144" "j < 1024" "\<And>x. in_frame t x \<Longrightarrow> m x = m' x"
  shows "entry m t j = entry m' t j"
  using assms entry_byte by (intro load32_cong) blast

lemma store_entry_other: "t < 262144 \<Longrightarrow> j < 1024 \<Longrightarrow> \<not> in_frame t x \<Longrightarrow> store32 m (entry_addr t j) v x = m x"
  using entry_byte [of t j x] by (intro store32_other) fastforce

lemma entry_store:
  assumes "t < 262144" "j < 1024" "t' < 262144" "j' < 1024"
  shows "entry (store32 m (entry_addr t j) v) t' j' = (if t = t' \<and> j = j' then v else entry m t' j')"
proof (cases "t = t' \<and> j = j'")
  case False
  have u: "unat (entry_addr t j) = 4 * (1024 * (t + 786432) + j)" "unat (entry_addr t' j') = 4 * (1024 * (t' + 786432) + j')"
    using assms by (simp_all add: unat_entry_addr)
  have "1024 * (t + 786432) + j \<noteq> 1024 * (t' + 786432) + j'"
  proof
    assume "1024 * (t + 786432) + j = 1024 * (t' + 786432) + j'"
    then have eq: "j + 1024 * t = j' + 1024 * t'" by simp
    from arg_cong [OF eq, of "\<lambda>x. x div 1024"] arg_cong [OF eq, of "\<lambda>x. x mod 1024"]
    show False using False assms(2,4) by simp
  qed
  then have "entry_addr t j \<noteq> entry_addr t' j'" using u by (metis nat_mult_eq_cancel1 zero_less_numeral)
  moreover have "4 dvd unat (entry_addr t j)" "4 dvd unat (entry_addr t' j')" unfolding u by simp_all
  ultimately have "load32 (store32 m (entry_addr t j) v) (entry_addr t' j') = load32 m (entry_addr t' j')"
    by (intro load32_store32_aligned)
  then show ?thesis unfolding if_not_P [OF False] .
qed simp

lemma index_less: "unat (PAGE_DIRECTORY_INDEX v) < 1024" "unat (PAGE_TABLE_INDEX v) < 1024"
  using unat_and_ones [of "drop_bit 22 v" 10] unat_and_ones [of "drop_bit 12 v" 10]
  by (simp_all add: PAGE_DIRECTORY_INDEX_def PAGE_TABLE_INDEX_def)

lemma entry_addr_index: "pmm_phys_to_virt (frame_addr t) + 4 * w = entry_addr t (unat w)"
  by simp

section \<open>Entry words\<close>

definition entry_frame :: "u32 \<Rightarrow> nat" where
  "entry_frame w = unat (drop_bit 12 w)"

lemma page_of_word: "push_bit 12 (drop_bit 12 w) = frame_addr (entry_frame w)" "(w::u32) AND 0xFFFFF000 = frame_addr (entry_frame w)"
proof -
  have d: "entry_frame w = unat w div 4096" by (simp add: entry_frame_def drop_bit_eq_div unat_div)
  show m: "w AND 0xFFFFF000 = frame_addr (entry_frame w)" unfolding d by (rule and_page_mask)
  have "frame_addr (entry_frame w) = 4096 * of_nat (unat (drop_bit 12 w))" by (simp add: frame_addr_def entry_frame_def)
  then show "push_bit 12 (drop_bit 12 w) = frame_addr (entry_frame w)" by (simp add: push_bit_eq_mult)
qed

lemma entry_frame_less: "entry_frame w < 1048576"
  using page_number_less [of w] by (simp add: entry_frame_def drop_bit_eq_div unat_div)

lemma entry_frame_addr: "i < 1048576 \<Longrightarrow> entry_frame (frame_addr i) = i"
  by (simp add: entry_frame_def drop_bit_eq_div unat_div unat_page_addr)

lemma low_bits_frame: "bit (0xFFF::u32) n \<longleftrightarrow> n < 12"
proof -
  have "bit (mask 12 :: u32) n \<longleftrightarrow> n < 12" by (auto simp: bit_mask_iff)
  moreover have "(mask 12 :: u32) = 0xFFF" by (simp add: mask_eq_exp_minus_1)
  ultimately show ?thesis by (simp only:)
qed

lemma drop_push_drop: "drop_bit 12 (push_bit 12 (drop_bit 12 p)) = drop_bit 12 (p::u32)"
proof (rule bit_word_eqI)
  fix n assume "n < LENGTH(32)"
  then show "bit (drop_bit 12 (push_bit 12 (drop_bit 12 p))) n = bit (drop_bit 12 p) n"
    using bit_imp_le_length [of p "12 + n"] by (auto simp: bit_simps)
qed

lemma drop_entry: "drop_bit 12 (push_bit 12 (drop_bit 12 p) OR (f AND 0xFFF)) = drop_bit 12 (p::u32)"
  by (simp add: drop_bit_or drop_bit_and drop_push_drop)

lemma entry_words:
  "entry_frame (paging_install_pte p f) = entry_frame p" "bit (paging_install_pte p f) 0 = bit f 0"
  "entry_frame (paging_update_pde_flags w f) = entry_frame w" "bit (paging_update_pde_flags w f) 0 = bit f 0"
  "entry_frame ((f AND 0x1E) OR 1 OR push_bit 12 (drop_bit 12 p)) = entry_frame p" "bit ((f AND 0x1E) OR 1 OR push_bit 12 (drop_bit 12 p)) 0"
proof -
  have u: "paging_update_pde_flags w f = push_bit 12 (drop_bit 12 w) OR (f AND 0xFFF)"
    by (simp add: paging_update_pde_flags_def page_of_word)
  show "entry_frame (paging_install_pte p f) = entry_frame p" "entry_frame (paging_update_pde_flags w f) = entry_frame w"
    unfolding u paging_install_pte_def entry_frame_def drop_entry by simp_all
  show "bit (paging_install_pte p f) 0 = bit f 0" "bit (paging_update_pde_flags w f) 0 = bit f 0"
    unfolding u paging_install_pte_def by (simp_all add: bit_simps low_bits_frame)
  have "drop_bit 12 ((f AND 0x1E) OR 1 OR push_bit 12 (drop_bit 12 p)) = drop_bit 12 p"
    by (simp add: drop_bit_or drop_bit_and drop_push_drop)
  then show "entry_frame ((f AND 0x1E) OR 1 OR push_bit 12 (drop_bit 12 p)) = entry_frame p" by (simp add: entry_frame_def)
  show "bit ((f AND 0x1E) OR 1 OR push_bit 12 (drop_bit 12 p)) 0" by (simp add: bit_simps)
qed

text \<open>The page of an address, and its two indices.\<close>

definition page_of :: "u32 \<Rightarrow> nat" where
  "page_of v = unat v div 4096"

lemma index_page: "unat (PAGE_DIRECTORY_INDEX v) = page_of v div 1024" "unat (PAGE_TABLE_INDEX v) = page_of v mod 1024"
proof -
  have d: "unat (PAGE_DIRECTORY_INDEX v) = unat v div 4194304 mod 1024"
    using unat_and_ones [of "drop_bit 22 v" 10] by (simp add: PAGE_DIRECTORY_INDEX_def drop_bit_eq_div unat_div)
  have "unat v < 1024 * 4194304" using unsigned_less [where 'a = nat, of v] by simp
  then have "unat v div 4194304 < 1024" by (rule less_mult_imp_div_less)
  moreover have "unat v div 4194304 = unat v div 4096 div 1024" by (simp flip: div_mult2_eq)
  ultimately show "unat (PAGE_DIRECTORY_INDEX v) = page_of v div 1024" unfolding d page_of_def by simp
  show "unat (PAGE_TABLE_INDEX v) = page_of v mod 1024"
    using unat_and_ones [of "drop_bit 12 v" 10] by (simp add: PAGE_TABLE_INDEX_def drop_bit_eq_div unat_div page_of_def)
qed

lemma page_of_less: "page_of v < 1048576"
  unfolding page_of_def by (rule page_number_less)

lemma page_of_align: "page_of (PAGE_ALIGN_DOWN v) = page_of v"
  using page_number_less [of v] by (simp add: page_of_def PAGE_ALIGN_DOWN_def and_page_mask unat_page_addr)

lemma page_eqI: "page_of v div 1024 = page_of w div 1024 \<Longrightarrow> page_of v mod 1024 = page_of w mod 1024 \<Longrightarrow> page_of v = page_of w"
  by (metis div_mult_mod_eq)

lemma entry_frame_align: "entry_frame (PAGE_ALIGN_DOWN p) = entry_frame p"
  by (simp add: PAGE_ALIGN_DOWN_def page_of_word entry_frame_addr entry_frame_less)

section \<open>Invariant\<close>

text \<open>
  \<open>D\<close> is the frame of the directory. A present directory entry names a frame below 1 GiB (the higher-half
  window) that is neither free nor the directory, and no two entries share one. The tables created at
  runtime are held by the paging code, as is the spare frame of the server build.
\<close>

definition table :: "mem \<Rightarrow> nat \<Rightarrow> nat \<Rightarrow> nat" where
  "table m D d = entry_frame (entry m D d)"

definition present :: "mem \<Rightarrow> nat \<Rightarrow> nat set" where
  "present m D = {d. d < 1024 \<and> entry_present (entry m D d)}"

definition walk :: "mem \<Rightarrow> nat \<Rightarrow> nat \<Rightarrow> nat option" where
  "walk m D n = (if n div 1024 \<in> present m D \<and> entry_present (entry m (table m D (n div 1024)) (n mod 1024))
     then Some (entry_frame (entry m (table m D (n div 1024)) (n mod 1024))) else None)"

definition spare :: "paging \<Rightarrow> nat set" where
  "spare s = (if paging_cached_page_table_phys s = 0 then {} else {entry_frame (paging_cached_page_table_phys s)})"

definition tables_ok :: "mem \<Rightarrow> nat \<Rightarrow> nat set \<Rightarrow> bool" where
  "tables_ok m D pool \<longleftrightarrow> 0 < D \<and> D < 262144 \<and> D \<notin> pool \<and> inj_on (table m D) (present m D) \<and>
     (\<forall>d \<in> present m D. 0 < table m D d \<and> table m D d < 262144 \<and> table m D d \<noteq> D \<and> table m D d \<notin> pool)"

definition owned :: "paging \<Rightarrow> nat set" where
  "owned s = {d. page_table_runtime_owned s d}"

definition paging_inv :: "build_flags \<Rightarrow> numa_state \<Rightarrow> u32 \<Rightarrow> nat \<Rightarrow> paging \<Rightarrow> bool" where
  "paging_inv cfg numa local_node D s \<longleftrightarrow>
     frames_ready cfg numa local_node (pmm s) \<and> current_page_directory s = pmm_phys_to_virt (frame_addr D) \<and>
     tables_ok (ram (pmm s)) D (pool_frames cfg (pmm s)) \<and>
     owned s \<subseteq> present (ram (pmm s)) D \<and> table (ram (pmm s)) D ` owned s \<subseteq> held_frames cfg (pmm s) \<and>
     page_table_runtime_owned_count s = of_nat (card (owned s)) \<and>
     (real_time_mode cfg \<longrightarrow> paging_cached_page_table_phys s = 0) \<and>
     (paging_cached_page_table_phys s \<noteq> 0 \<longrightarrow> paging_cached_page_table_phys s = frame_addr (entry_frame (paging_cached_page_table_phys s))) \<and>
     spare s \<subseteq> held_frames cfg (pmm s) - {D} - table (ram (pmm s)) D ` present (ram (pmm s)) D"

text \<open>The frames the paging code has a claim on: the pool, the tables it created and its spare.\<close>

definition paging_frames :: "build_flags \<Rightarrow> nat \<Rightarrow> paging \<Rightarrow> nat set" where
  "paging_frames cfg D s = pool_frames cfg (pmm s) \<union> table (ram (pmm s)) D ` owned s \<union> spare s"

text \<open>
  Every frame the paging code may touch. The frames that are held but not among these belong to the
  callers: they stay held whatever the paging code does.
\<close>

definition paging_claims :: "build_flags \<Rightarrow> nat \<Rightarrow> paging \<Rightarrow> nat set" where
  "paging_claims cfg D s = pool_frames cfg (pmm s) \<union> {D} \<union> table (ram (pmm s)) D ` present (ram (pmm s)) D \<union> spare s"

definition keeps_clients :: "build_flags \<Rightarrow> nat \<Rightarrow> paging \<Rightarrow> paging \<Rightarrow> bool" where
  "keeps_clients cfg D s s' \<longleftrightarrow> paging_claims cfg D s' = paging_claims cfg D s \<and>
     held_frames cfg (pmm s) - paging_claims cfg D s \<subseteq> held_frames cfg (pmm s')"

lemma keeps_clients_refl: "keeps_clients cfg D s s"
  by (simp add: keeps_clients_def)

lemma keeps_clients_trans: "keeps_clients cfg D s t \<Longrightarrow> keeps_clients cfg D t u \<Longrightarrow> keeps_clients cfg D s u"
  unfolding keeps_clients_def by auto

lemma directory_nonzero: "D < 262144 \<Longrightarrow> pmm_phys_to_virt (frame_addr D) \<noteq> 0"
  using unat_frame_virt [of D] by auto

lemma table_cong:
  assumes "D < 262144" "\<And>x. in_frame D x \<Longrightarrow> m x = m' x"
  shows "present m' D = present m D" "d < 1024 \<Longrightarrow> table m' D d = table m D d"
  using entry_cong [OF assms(1) _ assms(2)] by (auto simp: present_def table_def)

lemma walk_cong:
  assumes "D < 262144" "\<And>x. in_frame D x \<Longrightarrow> m x = m' x" and "\<forall>d \<in> present m D. table m D d < 262144"
    and "\<And>x d. d \<in> present m D \<Longrightarrow> in_frame (table m D d) x \<Longrightarrow> m x = m' x"
  shows "walk m' D n = walk m D n"
proof (cases "n div 1024 \<in> present m D")
  case True
  have d: "table m' D (n div 1024) = table m D (n div 1024)"
    using True table_cong(2) [OF assms(1,2)] by (simp add: present_def)
  have "entry m (table m D (n div 1024)) (n mod 1024) = entry m' (table m D (n div 1024)) (n mod 1024)"
    using assms(3,4) True by (intro entry_cong) auto
  then show ?thesis using table_cong(1) [OF assms(1,2)] by (simp add: walk_def d)
qed (use table_cong(1) [OF assms(1,2)] in \<open>simp add: walk_def\<close>)

lemma tables_ok_cong:
  assumes "tables_ok m D pool" "\<And>x. in_frame D x \<Longrightarrow> m x = m' x" "pool' \<subseteq> pool"
  shows "tables_ok m' D pool'"
proof -
  have D: "D < 262144" using assms(1) by (simp add: tables_ok_def)
  have "table m' D d = table m D d" if "d \<in> present m D" for d
    using table_cong(2) [OF D assms(2)] that by (simp add: present_def)
  then show ?thesis
    using assms(1,3) table_cong(1) [OF D assms(2)] by (auto simp: tables_ok_def inj_on_def)
qed

lemma translate_walk:
  assumes "current_page_directory s = pmm_phys_to_virt (frame_addr D)" "D < 262144"
  shows "paging_get_physical_address v s = map_option (\<lambda>f. frame_addr f OR PAGE_OFFSET v) (walk (ram (pmm s)) D (page_of v))"
proof -
  have j: "page_of v div 1024 < 1024" using page_of_less [of v] by (simp add: less_mult_imp_div_less)
  have i: "4 * PAGE_DIRECTORY_INDEX v = 4 * of_nat (page_of v div 1024)" "4 * PAGE_TABLE_INDEX v = 4 * of_nat (page_of v mod 1024)"
    by (simp_all flip: index_page)
  show ?thesis
    using directory_nonzero [OF assms(2)] j
    unfolding paging_get_physical_address_def Let_def i assms(1) page_of_word PAGE_FRAME_ADDR_def walk_def present_def table_def
    by simp
qed

section \<open>Obtaining a frame for a table\<close>

lemma in_frame_unique: "in_frame i x \<Longrightarrow> in_frame j x \<Longrightarrow> i = j"
  by (simp add: in_frame_def)

lemma ram_frame_at: "ram_frame P s s' \<Longrightarrow> i \<notin> P \<Longrightarrow> in_frame i x \<Longrightarrow> ram s x = ram s' x"
  unfolding ram_frame_def using in_frame_unique by metis

lemma inv_D: "paging_inv cfg numa ln D s \<Longrightarrow> D < 262144" "paging_inv cfg numa ln D s \<Longrightarrow> D \<notin> pool_frames cfg (pmm s)"
  "paging_inv cfg numa ln D s \<Longrightarrow> current_page_directory s \<noteq> 0"
  using directory_nonzero by (auto simp: paging_inv_def tables_ok_def)

lemma inv_table:
  assumes "paging_inv cfg numa ln D s" "d \<in> present (ram (pmm s)) D"
  shows "0 < table (ram (pmm s)) D d" "table (ram (pmm s)) D d < 262144" "table (ram (pmm s)) D d \<noteq> D"
    "table (ram (pmm s)) D d \<notin> pool_frames cfg (pmm s)" "table (ram (pmm s)) D d \<notin> spare s"
  using assms by (auto simp: paging_inv_def tables_ok_def)

text \<open>A step of the allocator that writes neither the directory nor a table keeps every translation.\<close>

lemma memory_outside:
  assumes ok: "tables_ok (ram a) D pool" and m: "ram_frame P a b" "D \<notin> P" "table (ram a) D ` present (ram a) D \<inter> P = {}"
  shows "in_frame D x \<Longrightarrow> ram a x = ram b x" "walk (ram b) D n = walk (ram a) D n" "present (ram b) D = present (ram a) D"
    "d < 1024 \<Longrightarrow> table (ram b) D d = table (ram a) D d"
    "A \<subseteq> present (ram a) D \<Longrightarrow> table (ram b) D ` A = table (ram a) D ` A"
proof -
  have D: "D < 262144" using ok by (simp add: tables_ok_def)
  have agree: "ram a x = ram b x" if "in_frame D x" for x using ram_frame_at [OF m(1,2) that] .
  have T: "table (ram b) D d = table (ram a) D d" if "d < 1024" for d
    using table_cong(2) [OF D, of "ram a" "ram b"] agree that by blast
  show "in_frame D x \<Longrightarrow> ram a x = ram b x" by (rule agree)
  show "present (ram b) D = present (ram a) D" using table_cong(1) [OF D, of "ram a" "ram b"] agree by blast
  show "d < 1024 \<Longrightarrow> table (ram b) D d = table (ram a) D d" by (rule T)
  show "A \<subseteq> present (ram a) D \<Longrightarrow> table (ram b) D ` A = table (ram a) D ` A"
    using T by (intro image_cong) (auto simp: present_def)
  show "walk (ram b) D n = walk (ram a) D n"
    using agree ok m(3) ram_frame_at [OF m(1)] by (intro walk_cong [OF D]) (auto simp: tables_ok_def)
qed

lemma memory_kept:
  assumes inv: "paging_inv cfg numa ln D s" and m: "ram_frame P (pmm s) m" "P \<subseteq> pool_frames cfg (pmm s)"
  shows "in_frame D x \<Longrightarrow> ram (pmm s) x = ram m x"
    "walk (ram m) D n = walk (ram (pmm s)) D n" "present (ram m) D = present (ram (pmm s)) D"
    "A \<subseteq> present (ram (pmm s)) D \<Longrightarrow> table (ram m) D ` A = table (ram (pmm s)) D ` A"
proof -
  have ok: "tables_ok (ram (pmm s)) D (pool_frames cfg (pmm s))" using inv by (simp add: paging_inv_def)
  have "D \<notin> P" "table (ram (pmm s)) D ` present (ram (pmm s)) D \<inter> P = {}"
    using ok m(2) by (auto simp: tables_ok_def)
  note out = memory_outside [OF ok m(1) this]
  show "in_frame D x \<Longrightarrow> ram (pmm s) x = ram m x" "walk (ram m) D n = walk (ram (pmm s)) D n"
    "present (ram m) D = present (ram (pmm s)) D"
    "A \<subseteq> present (ram (pmm s)) D \<Longrightarrow> table (ram m) D ` A = table (ram (pmm s)) D ` A"
    using out(1,2,3,5) by blast+
qed

lemma inv_new_pmm:
  assumes inv: "paging_inv cfg numa ln D s" and m: "frames_ready cfg numa ln m" "pool_frames cfg m \<subseteq> pool_frames cfg (pmm s)"
    "held_frames cfg (pmm s) \<subseteq> held_frames cfg m" "ram_frame (pool_frames cfg m) (pmm s) m"
  shows "paging_inv cfg numa ln D (s\<lparr>pmm := m\<rparr>)"
proof -
  note kept = memory_kept [OF inv m(4,2)]
  have ok: "tables_ok (ram m) D (pool_frames cfg m)"
    by (rule tables_ok_cong [OF _ kept(1) m(2)]) (use inv in \<open>simp_all add: paging_inv_def\<close>)
  have o: "owned s \<subseteq> present (ram (pmm s)) D" using inv by (simp add: paging_inv_def)
  show ?thesis
    using inv m(1,3) ok kept(3) kept(4) [OF o] kept(4) [OF order_refl] by (auto simp: paging_inv_def owned_def spare_def)
qed

lemma allocate_frame:
  assumes inv: "paging_inv cfg numa ln D s"
  obtains (none) "paging_allocate_page_table_frame cfg numa ln s = Some (0, s)" "pool_frames cfg (pmm s) = {}" "spare s = {}"
  | (some) t s' where "paging_allocate_page_table_frame cfg numa ln s = Some (frame_addr t, s')" "0 < t" "t < 262144" "t \<noteq> D"
      "t \<notin> table (ram (pmm s)) D ` present (ram (pmm s)) D" "t \<notin> spare s'" "t \<in> held_frames cfg (pmm s')" "t \<notin> pool_frames cfg (pmm s')"
      "paging_inv cfg numa ln D s'" "owned s' = owned s" "tlb_requests s' = tlb_requests s" "current_page_directory s' = current_page_directory s"
      "insert t (pool_frames cfg (pmm s') \<union> spare s') = pool_frames cfg (pmm s) \<union> spare s"
      "ram_frame (pool_frames cfg (pmm s')) (pmm s) (pmm s')" "pool_frames cfg (pmm s') \<subseteq> pool_frames cfg (pmm s)"
      "page_table_runtime_owned s' = page_table_runtime_owned s" "held_frames cfg (pmm s) \<subseteq> held_frames cfg (pmm s')"
proof -
  have ready: "frames_ready cfg numa ln (pmm s)" using inv by (simp add: paging_inv_def)
  have range: "pool_frames cfg (pmm s) \<subseteq> {0<..<262144}" by (rule pool.frames_range [OF ready])
  have disj: "table (ram (pmm s)) D ` present (ram (pmm s)) D \<inter> pool_frames cfg (pmm s) = {}" "D \<notin> pool_frames cfg (pmm s)"
    using inv by (auto simp: paging_inv_def tables_ok_def)
  have single: thesis
    if c: "paging_cached_page_table_phys s = 0"
      and a: "paging_allocate_page_table_frame cfg numa ln s = do {
        (p, m) \<leftarrow> physical_memory_manager_page_frame_allocate cfg numa ln (pmm s); Some (p, s\<lparr>pmm := m\<rparr>) }"
  proof (rule pool.alloc_cases [OF ready])
    assume "pool_frames cfg (pmm s) = {}" "physical_memory_manager_page_frame_allocate cfg numa ln (pmm s) = Some (0, pmm s)"
    then show thesis using a c by (intro none) (simp_all add: spare_def)
  next
    fix i m assume i: "physical_memory_manager_page_frame_allocate cfg numa ln (pmm s) = Some (frame_addr i, m)" "frame_addr i \<noteq> 0"
      "i \<in> pool_frames cfg (pmm s)" "frames_ready cfg numa ln m" "pool_frames cfg m = pool_frames cfg (pmm s) - {i}"
      "held_frames cfg m = insert i (held_frames cfg (pmm s))" "ram_frame (pool_frames cfg m) (pmm s) m"
    then have "paging_inv cfg numa ln D (s\<lparr>pmm := m\<rparr>)" by (intro inv_new_pmm [OF inv]) auto
    then show thesis
      using i a c disj range by (intro some [of i "s\<lparr>pmm := m\<rparr>"]) (auto simp: spare_def owned_def)
  qed
  show thesis
  proof (cases "real_time_mode cfg")
    case True
    then have "paging_cached_page_table_phys s = 0" using inv by (simp add: paging_inv_def)
    then show thesis by (rule single) (simp add: paging_allocate_page_table_frame_def True)
  next
    case False
    show thesis
    proof (cases "paging_cached_page_table_phys s = 0")
      case c: True
      show thesis
      proof (rule pool.pair_cases [OF ready])
        assume "physical_memory_manager_page_frame_allocate_order cfg numa ln 1 (pmm s) = Some (0, pmm s)"
        then show thesis using c False by (intro single) (simp_all add: paging_allocate_page_table_frame_def)
      next
        fix i m assume i: "physical_memory_manager_page_frame_allocate_order cfg numa ln 1 (pmm s) = Some (frame_addr i, m)" "frame_addr i \<noteq> 0"
          "i \<in> pool_frames cfg (pmm s)" "Suc i \<in> pool_frames cfg (pmm s)" "frames_ready cfg numa ln m"
          "pool_frames cfg m = pool_frames cfg (pmm s) - {i, Suc i}"
          "held_frames cfg m = insert i (insert (Suc i) (held_frames cfg (pmm s)))" "ram_frame (pool_frames cfg m) (pmm s) m"
        let ?s = "s\<lparr>pmm := m, paging_cached_page_table_phys := frame_addr (Suc i)\<rparr>"
        have si: "Suc i < 262144" "i < 262144" "0 < i" using range i(3,4) by auto
        have alloc: "paging_allocate_page_table_frame cfg numa ln s = Some (frame_addr i, ?s)"
          using i(1,2) c False by (simp add: paging_allocate_page_table_frame_def frame_addr_def algebra_simps)
        have inv': "paging_inv cfg numa ln D (s\<lparr>pmm := m\<rparr>)"
          using i by (intro inv_new_pmm [OF inv]) auto
        have tabs: "table (ram m) D ` present (ram m) D = table (ram (pmm s)) D ` present (ram (pmm s)) D"
          using memory_kept(3,4) [OF inv i(8)] i(6) by blast
        have nz: "frame_addr (Suc i) \<noteq> 0" using si by (intro frame_addr_nonzero) simp_all
        have ef: "entry_frame (frame_addr (Suc i)) = Suc i" using si by (simp add: entry_frame_addr)
        have "paging_inv cfg numa ln D ?s"
          using inv' i(4,7) disj tabs nz ef False by (auto simp: paging_inv_def owned_def spare_def)
        then show thesis
          using i disj range nz ef c si by (intro some [OF alloc]) (auto simp: spare_def owned_def)
      qed
    next
      case c: False
      let ?t = "entry_frame (paging_cached_page_table_phys s)" and ?s = "s\<lparr>paging_cached_page_table_phys := 0\<rparr>"
      have t: "?t \<in> held_frames cfg (pmm s)" "?t \<noteq> D" "?t \<notin> table (ram (pmm s)) D ` present (ram (pmm s)) D"
        "paging_cached_page_table_phys s = frame_addr ?t"
        using inv c by (auto simp: paging_inv_def spare_def)
      have alloc: "paging_allocate_page_table_frame cfg numa ln s = Some (frame_addr ?t, ?s)"
        using c False t(4) by (simp add: paging_allocate_page_table_frame_def)
      have r: "?t \<in> {0<..<262144} - pool_frames cfg (pmm s)" using pool.releasable_range [OF ready] t(1) by blast
      have "paging_inv cfg numa ln D ?s" using inv by (auto simp: paging_inv_def owned_def spare_def)
      then show thesis
        using t r c by (intro some [OF alloc]) (auto simp: spare_def owned_def ram_frame_def)
    qed
  qed
qed

section \<open>Writing entries\<close>

lemma dir_store:
  assumes "D < 262144" "d < 1024"
  shows "present (store32 m (entry_addr D d) w) D = (if entry_present w then insert d (present m D) else present m D - {d})"
    "d' < 1024 \<Longrightarrow> table (store32 m (entry_addr D d) w) D d' = (if d' = d then entry_frame w else table m D d')"
  using entry_store [OF assms assms(1), of _ m w] assms(2) by (auto simp: present_def table_def split: if_splits)

lemma tab_store:
  assumes "D < 262144" "t < 262144" "t \<noteq> D" "j < 1024"
  shows "present (store32 m (entry_addr t j) w) D = present m D" "d < 1024 \<Longrightarrow> table (store32 m (entry_addr t j) w) D d = table m D d"
proof -
  have agree: "m x = store32 m (entry_addr t j) w x" if "in_frame D x" for x
    using store_entry_other [OF assms(2,4)] in_frame_unique [OF that] assms(3) by metis
  show "present (store32 m (entry_addr t j) w) D = present m D" "d < 1024 \<Longrightarrow> table (store32 m (entry_addr t j) w) D d = table m D d"
    by (rule table_cong [OF assms(1)], erule agree)+
qed

lemma page_split: "n div 1024 = d \<and> n mod 1024 = j \<longleftrightarrow> n = 1024 * d + j \<and> j < (1024::nat)"
  by auto

lemma walk_pte:
  assumes "tables_ok m D pool" "d \<in> present m D" "j < 1024"
  shows "walk (store32 m (entry_addr (table m D d) j) w) D n =
    (if n = 1024 * d + j then if entry_present w then Some (entry_frame w) else None else walk m D n)"
proof -
  let ?m = "store32 m (entry_addr (table m D d) j) w"
  have D: "D < 262144" and t: "table m D d < 262144" "table m D d \<noteq> D" using assms(1,2) by (auto simp: tables_ok_def)
  note st = tab_store [OF D t assms(3), where m = m and w = w]
  show ?thesis
  proof (cases "n div 1024 \<in> present m D")
    case True
    then have e: "n div 1024 < 1024" and t': "table m D (n div 1024) < 262144" using assms(1) by (auto simp: present_def tables_ok_def)
    have same: "table m D d = table m D (n div 1024) \<longleftrightarrow> d = n div 1024"
      using assms(1,2) True by (auto simp: tables_ok_def inj_on_def)
    have "entry ?m (table m D (n div 1024)) (n mod 1024) =
        (if d = n div 1024 \<and> j = n mod 1024 then w else entry m (table m D (n div 1024)) (n mod 1024))"
      using entry_store [OF t(1) assms(3) t', of "n mod 1024" m w] same by simp
    then have w: "walk (store32 m (entry_addr (table m D d) j) w) D n =
        (if entry_present (if d = n div 1024 \<and> j = n mod 1024 then w else entry m (table m D (n div 1024)) (n mod 1024))
         then Some (entry_frame (if d = n div 1024 \<and> j = n mod 1024 then w else entry m (table m D (n div 1024)) (n mod 1024))) else None)"
      unfolding walk_def st(1) st(2) [OF e] using True by simp
    show ?thesis unfolding w using True page_split [of n d j] assms(3) by (auto simp: walk_def)
  next
    case False
    then have "n \<noteq> 1024 * d + j" using assms(2,3) by auto
    then show ?thesis using False by (simp add: walk_def st(1))
  qed
qed

lemma walk_pde:
  assumes "tables_ok m D pool" "d < 1024"
    and "\<And>j. j < 1024 \<Longrightarrow> d \<in> present m D \<and> entry_present (entry m (table m D d) j) \<Longrightarrow> entry_present w \<and> entry_frame w = table m D d"
    and "\<And>j. j < 1024 \<Longrightarrow> entry_present w \<and> entry_present (entry m (entry_frame w) j) \<Longrightarrow> d \<in> present m D \<and> entry_frame w = table m D d"
    and "entry_present w \<Longrightarrow> entry_frame w < 262144 \<and> entry_frame w \<noteq> D"
  shows "walk (store32 m (entry_addr D d) w) D n = walk m D n"
proof -
  let ?m = "store32 m (entry_addr D d) w"
  have D: "D < 262144" using assms(1) by (simp add: tables_ok_def)
  note st = dir_store [OF D assms(2), where m = m and w = w]
  have keep: "entry ?m t j = entry m t j" if "t < 262144" "t \<noteq> D" "j < 1024" for t j
    using entry_store [OF D assms(2) that(1,3), of m w] that(2) by simp
  show ?thesis
  proof (cases "n div 1024 = d")
    case True
    have k: "entry_present w \<Longrightarrow> entry ?m (entry_frame w) (n mod 1024) = entry m (entry_frame w) (n mod 1024)"
      using assms(5) keep by simp
    let ?j = "n mod 1024"
    have l: "walk ?m D n = (if entry_present w \<and> entry_present (entry m (entry_frame w) ?j) then Some (entry_frame (entry m (entry_frame w) ?j)) else None)"
      using k st(2) [OF assms(2)] unfolding walk_def True st(1) by simp
    have r: "walk m D n = (if d \<in> present m D \<and> entry_present (entry m (table m D d) ?j) then Some (entry_frame (entry m (table m D d) ?j)) else None)"
      unfolding walk_def True ..
    have j: "?j < 1024" by simp
    show ?thesis unfolding l r using assms(3) [OF j] assms(4) [OF j] by metis
  next
    case False
    show ?thesis
    proof (cases "n div 1024 \<in> present m D")
      case p: True
      then have "n div 1024 < 1024" "table m D (n div 1024) < 262144" "table m D (n div 1024) \<noteq> D"
        using assms(1) by (auto simp: present_def tables_ok_def)
      then show ?thesis using False p st(2) [of "n div 1024"] keep by (simp add: walk_def st(1))
    qed (use False st(1) in \<open>auto simp: walk_def\<close>)
  qed
qed

lemma ready_write:
  assumes "frames_ready cfg numa ln s" "\<And>x i. i \<in> pool_frames cfg s \<Longrightarrow> in_frame i x \<Longrightarrow> m x = ram s x"
  shows "frames_ready cfg numa ln (s\<lparr>ram := m\<rparr>)" "pool_frames cfg (s\<lparr>ram := m\<rparr>) = pool_frames cfg s"
    "held_frames cfg (s\<lparr>ram := m\<rparr>) = held_frames cfg s"
  using pool.write_law [OF assms(1), of m] assms(2) by blast+

text \<open>A write outside the free frames that keeps the directory entries keeps the invariant.\<close>

lemma inv_write:
  assumes inv: "paging_inv cfg numa ln D s" and out: "\<And>x i. i \<in> pool_frames cfg (pmm s) \<Longrightarrow> in_frame i x \<Longrightarrow> m x = ram (pmm s) x"
    and P: "present m D = present (ram (pmm s)) D" and T: "\<And>d. d \<in> present m D \<Longrightarrow> table m D d = table (ram (pmm s)) D d"
  shows "paging_inv cfg numa ln D (set_ram m s)" "paging_frames cfg D (set_ram m s) = paging_frames cfg D s"
    "owned (set_ram m s) = owned s" "keeps_clients cfg D s (set_ram m s)"
proof -
  have ready: "frames_ready cfg numa ln (pmm s)" using inv by (simp add: paging_inv_def)
  note rw = ready_write [OF ready out]
  have img: "table m D ` A = table (ram (pmm s)) D ` A" if "A \<subseteq> present (ram (pmm s)) D" for A
    using T that P by (intro image_cong) auto
  have o: "owned s \<subseteq> present (ram (pmm s)) D" using inv by (simp add: paging_inv_def)
  have "tables_ok m D (pool_frames cfg (pmm s))"
    using inv P T by (auto simp: paging_inv_def tables_ok_def inj_on_def)
  then show "paging_inv cfg numa ln D (set_ram m s)"
    using inv rw P img [OF o] img [OF order_refl] by (auto simp: paging_inv_def set_ram_def owned_def spare_def)
  show "paging_frames cfg D (set_ram m s) = paging_frames cfg D s" "owned (set_ram m s) = owned s"
    using rw(2) img [OF o] by (simp_all add: paging_frames_def set_ram_def owned_def spare_def)
  show "keeps_clients cfg D s (set_ram m s)"
    using rw(2,3) img [OF order_refl] P by (auto simp: keeps_clients_def paging_claims_def set_ram_def spare_def)
qed

end
