(* ===== verification/Paging_Correct.thy ===== *)
theory Paging_Correct
  imports Paging
begin

text \<open>
  What mapping and unmapping a page do to the translations, to the invariant of the page tables and to
  the frames, over any build of the frame allocator that satisfies the \<open>pair_provider\<close> contract.
\<close>

section \<open>Providing the table of a page\<close>

lemma in_frame_iff: "i < 262144 \<Longrightarrow> in_frame i x \<longleftrightarrow> unat (x - pmm_phys_to_virt (frame_addr i)) < 4096"
proof
  assume i: "i < 262144" "in_frame i x"
  have v: "unat (pmm_phys_to_virt (frame_addr i)) = 4096 * (i + 786432)" using i(1) by (rule unat_frame_virt)
  have "4096 * (i + 786432) \<le> unat x" "unat x < 4096 * (i + 786432) + 4096" using i(2) unfolding in_frame_def by auto
  then show "unat (x - pmm_phys_to_virt (frame_addr i)) < 4096" using v by (simp add: unat_sub_if')
qed (rule in_frame_offset)

lemma mem_zero_frame:
  assumes "t < 262144"
  shows "\<not> in_frame t x \<Longrightarrow> mem_zero m (pmm_phys_to_virt (frame_addr t)) 4096 x = m x"
    "j < 1024 \<Longrightarrow> entry (mem_zero m (pmm_phys_to_virt (frame_addr t)) 4096) t j = 0"
proof -
  show "\<not> in_frame t x \<Longrightarrow> mem_zero m (pmm_phys_to_virt (frame_addr t)) 4096 x = m x"
    using in_frame_iff [OF assms] by (simp add: mem_zero_def)
  assume j: "j < 1024"
  have "entry (mem_zero m (pmm_phys_to_virt (frame_addr t)) 4096) t j = entry (\<lambda>_. 0) t j"
    using in_frame_iff [OF assms] by (intro entry_cong [OF assms j]) (simp add: mem_zero_def)
  then show "entry (mem_zero m (pmm_phys_to_virt (frame_addr t)) 4096) t j = 0" by (simp add: load32_def)
qed

text \<open>Installing a zeroed table \<open>t\<close> in the absent entry \<open>d\<close>.\<close>

lemma install_table:
  assumes inv: "paging_inv cfg numa ln D s" and d: "d < 1024" "d \<notin> present (ram (pmm s)) D"
    and t: "0 < t" "t < 262144" "t \<noteq> D" "t \<notin> table (ram (pmm s)) D ` present (ram (pmm s)) D" "t \<notin> spare s"
      "t \<in> held_frames cfg (pmm s)" "t \<notin> pool_frames cfg (pmm s)"
    and w: "entry_present w" "entry_frame w = t"
    and s': "s' = (set_ram (store32 (mem_zero (ram (pmm s)) (pmm_phys_to_virt (frame_addr t)) 4096) (entry_addr D d) w) s)
      \<lparr>page_table_runtime_owned := (page_table_runtime_owned s)(d := True),
       page_table_runtime_owned_count := page_table_runtime_owned_count s + 1\<rparr>"
  shows "paging_inv cfg numa ln D s'" "walk (ram (pmm s')) D n = walk (ram (pmm s)) D n" "d \<in> present (ram (pmm s')) D"
    "paging_frames cfg D s' = insert t (paging_frames cfg D s)" "owned s' = insert d (owned s)"
    "paging_claims cfg D s' = insert t (paging_claims cfg D s)" "held_frames cfg (pmm s') = held_frames cfg (pmm s)"
    "present (ram (pmm s')) D = insert d (present (ram (pmm s)) D)"
proof -
  let ?old = "ram (pmm s)" and ?zero = "mem_zero (ram (pmm s)) (pmm_phys_to_virt (frame_addr t)) 4096" and ?m = "ram (pmm s')"
  note D = inv_D(1,2) [OF inv]
  have m: "?m = store32 ?zero (entry_addr D d) w" by (simp add: s' set_ram_def)
  have ok: "tables_ok ?old D (pool_frames cfg (pmm s))" using inv by (simp add: paging_inv_def)
  have ag: "?old x = ?zero x" if "in_frame D x" for x using mem_zero_frame(1) [OF t(2)] in_frame_unique [OF that] t(3) by metis
  have P1: "present ?zero D = present ?old D" and T1: "\<And>e. e < 1024 \<Longrightarrow> table ?zero D e = table ?old D e"
    using table_cong [OF D(1), of ?old ?zero] ag by blast+
  have P: "present ?m D = insert d (present ?old D)" unfolding m dir_store(1) [OF D(1) d(1)] P1 using w by simp
  have T: "table ?m D e = (if e = d then t else table ?old D e)" if "e < 1024" for e
    unfolding m dir_store(2) [OF D(1) d(1) that] T1 [OF that] using w by simp
  have img: "table ?m D ` A = table ?old D ` A" if "A \<subseteq> present ?old D" for A
    using T that d(2) by (intro image_cong) (auto simp: present_def)
  have ok1: "tables_ok ?zero D (pool_frames cfg (pmm s))" using tables_ok_cong [OF ok, of ?zero] ag by blast
  have "walk ?m D n = walk ?zero D n" unfolding m
    using mem_zero_frame(2) [OF t(2)] w d(2) t(2,3) P1 by (intro walk_pde [OF ok1 d(1)]) auto
  also have "\<dots> = walk ?old D n"
  proof (rule walk_cong [OF D(1)])
    show "?old x = ?zero x" if "in_frame D x" for x using that by (rule ag)
    show "\<forall>d \<in> present ?old D. table ?old D d < 262144" using ok by (simp add: tables_ok_def)
    show "?old x = ?zero x" if "e \<in> present ?old D" "in_frame (table ?old D e) x" for x e
      using mem_zero_frame(1) [OF t(2)] in_frame_unique [OF that(2)] t(4) that(1) by (metis imageI)
  qed
  finally show "walk ?m D n = walk ?old D n" .
  show "d \<in> present ?m D" "present ?m D = insert d (present ?old D)" using P by simp_all
  have o: "owned s' = insert d (owned s)" "owned s \<subseteq> present ?old D" using inv by (auto simp: s' owned_def set_ram_def paging_inv_def)
  show "owned s' = insert d (owned s)" by (rule o)
  have "?m x = ?old x" if i: "i \<in> pool_frames cfg (pmm s)" "in_frame i x" for x i
    using store_entry_other [OF D(1) d(1)] mem_zero_frame(1) [OF t(2)] in_frame_unique [OF i(2)] i(1) D(2) t(7) unfolding m by metis
  moreover have "frames_ready cfg numa ln (pmm s)" using inv by (simp add: paging_inv_def)
  ultimately have rw: "frames_ready cfg numa ln (pmm s')" "pool_frames cfg (pmm s') = pool_frames cfg (pmm s)"
    "held_frames cfg (pmm s') = held_frames cfg (pmm s)"
    using ready_write [of cfg numa ln "pmm s" ?m] by (simp_all add: s' set_ram_def)
  have io: "table ?m D ` owned s' = insert t (table ?old D ` owned s)"
    unfolding o(1) image_insert img [OF o(2)] using T [OF d(1)] by simp
  have ip: "table ?m D ` present ?m D = insert t (table ?old D ` present ?old D)"
    unfolding P image_insert img [OF order_refl] using T [OF d(1)] by simp
  have "inj_on (table ?m D) (present ?m D)"
    unfolding P using ok t(4) T d by (auto simp: inj_on_def tables_ok_def present_def)
  moreover have "\<forall>x \<in> insert t (table ?old D ` present ?old D). 0 < x \<and> x < 262144 \<and> x \<noteq> D \<and> x \<notin> pool_frames cfg (pmm s)"
    using ok t by (simp add: tables_ok_def)
  ultimately have ok': "tables_ok ?m D (pool_frames cfg (pmm s'))"
    using ok unfolding ip [symmetric] tables_ok_def rw(2) by simp
  have fin: "finite (owned s)" using o(2) by (rule finite_subset) (simp add: present_def)
  have "card (owned s') = Suc (card (owned s))" unfolding o(1) using fin o(2) d(2) by (intro card_insert_disjoint) auto
  then show "paging_inv cfg numa ln D s'"
    using inv rw ok' o P io ip t(5,6) unfolding paging_inv_def by (auto simp: s' set_ram_def spare_def)
  show "paging_frames cfg D s' = insert t (paging_frames cfg D s)" "held_frames cfg (pmm s') = held_frames cfg (pmm s)"
    unfolding paging_frames_def io rw by (simp_all add: s' set_ram_def spare_def)
  show "paging_claims cfg D s' = insert t (paging_claims cfg D s)"
    unfolding paging_claims_def ip rw(2) by (auto simp: s' set_ram_def spare_def)
qed

lemma require_table:
  assumes inv: "paging_inv cfg numa ln D s" and d: "d = unat pd_index" "d < 1024" and f: "entry_present pde_flags"
  obtains (full) "paging_require_page_table cfg numa ln pd_index pde_flags s = Some (False, s)" "d \<notin> present (ram (pmm s)) D"
      "pool_frames cfg (pmm s) = {}" "spare s = {}"
  | (ok) s' where "paging_require_page_table cfg numa ln pd_index pde_flags s = Some (True, s')"
      "d \<in> present (ram (pmm s)) D \<or> pool_frames cfg (pmm s) \<union> spare s \<noteq> {}" "paging_inv cfg numa ln D s'" "d \<in> present (ram (pmm s')) D"
      "\<And>n. walk (ram (pmm s')) D n = walk (ram (pmm s)) D n" "paging_frames cfg D s' = paging_frames cfg D s"
      "tlb_requests s' = tlb_requests s" "owned s' = (if d \<in> present (ram (pmm s)) D then owned s else insert d (owned s))"
      "keeps_clients cfg D s s'" "present (ram (pmm s')) D = insert d (present (ram (pmm s)) D)"
proof -
  note D = inv_D(1,2) [OF inv]
  have tok: "tables_ok (ram (pmm s)) D (pool_frames cfg (pmm s))" using inv by (simp add: paging_inv_def)
  have a: "current_page_directory s + 4 * pd_index = entry_addr D d" using inv d(1) by (simp add: paging_inv_def)
  show thesis
  proof (cases "d \<in> present (ram (pmm s)) D")
    case True
    let ?w = "paging_update_pde_flags (entry (ram (pmm s)) D d) pde_flags"
    let ?m = "store32 (ram (pmm s)) (entry_addr D d) ?w"
    have w: "entry_present ?w" "entry_frame ?w = table (ram (pmm s)) D d" using entry_words(3,4) f by (simp_all add: table_def)
    have P: "present ?m D = present (ram (pmm s)) D" using dir_store(1) [OF D(1) d(2)] w(1) True by auto
    have T: "table ?m D e = table (ram (pmm s)) D e" if "e \<in> present ?m D" for e
      using dir_store(2) [OF D(1) d(2)] that w(2) by (simp add: present_def)
    have out: "?m x = ram (pmm s) x" if "i \<in> pool_frames cfg (pmm s)" "in_frame i x" for x i
      using store_entry_other [OF D(1) d(2)] in_frame_unique [OF that(2)] that(1) D(2) by metis
    have wk: "walk ?m D n = walk (ram (pmm s)) D n" for n
      using w True inv_table(2,3) [OF inv True] by (intro walk_pde [OF tok d(2)]) auto
    have r: "paging_require_page_table cfg numa ln pd_index pde_flags s = Some (True, set_ram ?m s)"
      using True unfolding paging_require_page_table_def Let_def a by (simp add: present_def)
    have rm: "ram (pmm (set_ram ?m s)) = ?m" "tlb_requests (set_ram ?m s) = tlb_requests s" by (simp_all add: set_ram_def)
    show thesis
      using True inv_write [OF inv out P T] wk P by (intro ok [OF r]) (simp_all add: rm insert_absorb)
  next
    case False
    then have np: "\<not> entry_present (entry (ram (pmm s)) D d)" using d(2) by (simp add: present_def)
    show thesis
    proof (rule allocate_frame [OF inv])
      assume "paging_allocate_page_table_frame cfg numa ln s = Some (0, s)" "pool_frames cfg (pmm s) = {}" "spare s = {}"
      then show thesis
        using False np by (intro full) (simp_all add: paging_require_page_table_def paging_create_page_table_def Let_def a)
    next
      fix t s1 assume t: "paging_allocate_page_table_frame cfg numa ln s = Some (frame_addr t, s1)" "0 < t" "t < 262144" "t \<noteq> D"
        "t \<notin> table (ram (pmm s)) D ` present (ram (pmm s)) D" "t \<notin> spare s1" "t \<in> held_frames cfg (pmm s1)" "t \<notin> pool_frames cfg (pmm s1)"
        "paging_inv cfg numa ln D s1" "owned s1 = owned s" "tlb_requests s1 = tlb_requests s" "current_page_directory s1 = current_page_directory s"
        "insert t (pool_frames cfg (pmm s1) \<union> spare s1) = pool_frames cfg (pmm s) \<union> spare s"
        "ram_frame (pool_frames cfg (pmm s1)) (pmm s) (pmm s1)" "pool_frames cfg (pmm s1) \<subseteq> pool_frames cfg (pmm s)"
        "page_table_runtime_owned s1 = page_table_runtime_owned s" "held_frames cfg (pmm s) \<subseteq> held_frames cfg (pmm s1)"
      note kept = memory_kept [OF inv t(14,15)]
      let ?w = "(pde_flags AND 0x1E) OR 1 OR push_bit 12 (drop_bit 12 (frame_addr t))"
      have w: "entry_present ?w" "entry_frame ?w = t" using entry_words(5,6) entry_frame_addr [of t] t(3) by simp_all
      define s' where "s' = (set_ram (store32 (mem_zero (ram (pmm s1)) (pmm_phys_to_virt (frame_addr t)) 4096) (entry_addr D d) ?w) s1)
        \<lparr>page_table_runtime_owned := (page_table_runtime_owned s1)(d := True),
         page_table_runtime_owned_count := page_table_runtime_owned_count s1 + 1\<rparr>"
      have tab: "t \<notin> table (ram (pmm s1)) D ` present (ram (pmm s1)) D" using t(5) kept(3,4) by blast
      have np1: "d \<notin> present (ram (pmm s1)) D" using False kept(3) by blast
      note inst = install_table [OF t(9) d(2) np1 t(2-4) tab t(6-8) w s'_def]
      have "frame_addr t \<noteq> 0" using t(2,3) by (rule frame_addr_nonzero)
      then have r: "paging_require_page_table cfg numa ln pd_index pde_flags s = Some (True, s')"
        using np t(1) d(1) by (simp add: paging_require_page_table_def paging_create_page_table_def Let_def a s'_def set_ram_def)
      have o: "owned s \<subseteq> present (ram (pmm s)) D" using inv by (simp add: paging_inv_def)
      have fr: "paging_frames cfg D s' = paging_frames cfg D s"
        unfolding inst(4) using t(13) kept(4) [OF o] t(10) by (auto simp: paging_frames_def)
      have "paging_claims cfg D s' = paging_claims cfg D s"
        unfolding inst(6) using t(13) kept(3) kept(4) [OF order_refl] by (auto simp: paging_claims_def)
      then have kc: "keeps_clients cfg D s s'" using t(17) inst(7) by (auto simp: keeps_clients_def)
      show thesis
        using inst(1,3,5) inst(2) inst(8) kept(2,3) fr kc t(10,11,13) False by (intro ok [OF r]) (auto simp: s'_def set_ram_def)
    qed
  qed
qed

section \<open>Mapping a page\<close>

lemma page_parts: "page_of v div 1024 < 1024" "1024 * (page_of v div 1024) + page_of v mod 1024 = page_of v"
  using page_of_less [of v] by (simp_all add: less_mult_imp_div_less)

lemma scaled_index:
  "4 * PAGE_DIRECTORY_INDEX (PAGE_ALIGN_DOWN u) = 4 * of_nat (page_of u div 1024)"
  "4 * PAGE_TABLE_INDEX (PAGE_ALIGN_DOWN u) = 4 * of_nat (page_of u mod 1024)"
proof -
  have i: "unat (PAGE_DIRECTORY_INDEX (PAGE_ALIGN_DOWN u)) = page_of u div 1024"
    "unat (PAGE_TABLE_INDEX (PAGE_ALIGN_DOWN u)) = page_of u mod 1024"
    by (simp_all add: index_page page_of_align)
  show "4 * PAGE_DIRECTORY_INDEX (PAGE_ALIGN_DOWN u) = 4 * of_nat (page_of u div 1024)"
    "4 * PAGE_TABLE_INDEX (PAGE_ALIGN_DOWN u) = 4 * of_nat (page_of u mod 1024)" by (simp_all flip: i)
qed

lemma tlb_irrelevant [simp]:
  "keeps_clients cfg D t (s\<lparr>tlb_requests := x\<rparr>) = keeps_clients cfg D t s"
  "paging_inv cfg numa ln D (s\<lparr>tlb_requests := x\<rparr>) = paging_inv cfg numa ln D s"
  "paging_frames cfg D (s\<lparr>tlb_requests := x\<rparr>) = paging_frames cfg D s"
  by (simp_all add: keeps_clients_def paging_claims_def paging_inv_def paging_frames_def owned_def spare_def)

lemma map_page_effect:
  assumes inv: "paging_inv cfg numa ln D s" and f: "entry_present pde_flags" "entry_present pte_flags"
  shows "\<exists>ok s'. paging_map_page cfg numa ln v p pde_flags pte_flags s = Some (ok, s') \<and> paging_inv cfg numa ln D s' \<and>
    paging_frames cfg D s' = paging_frames cfg D s \<and> keeps_clients cfg D s s' \<and>
    ok = (page_of v div 1024 \<in> present (ram (pmm s)) D \<or> pool_frames cfg (pmm s) \<union> spare s \<noteq> {}) \<and>
    (\<forall>n. walk (ram (pmm s')) D n = (if ok \<and> n = page_of v then Some (entry_frame p) else walk (ram (pmm s)) D n)) \<and>
    tlb_requests s' = tlb_requests s @ (if ok then [Invlpg (PAGE_ALIGN_DOWN v)] else []) \<and>
    present (ram (pmm s')) D = (if ok then insert (page_of v div 1024) (present (ram (pmm s)) D) else present (ram (pmm s)) D)"
proof -
  let ?v = "PAGE_ALIGN_DOWN v"
  define d j where "d = page_of v div 1024" and "j = page_of v mod 1024"
  have dj: "unat (PAGE_DIRECTORY_INDEX ?v) = d" "unat (PAGE_TABLE_INDEX ?v) = j" "d < 1024" "j < 1024" "1024 * d + j = page_of v"
    using page_parts [of v] by (simp_all add: index_page page_of_align d_def j_def)
  note w4 = scaled_index [of v, folded d_def j_def]
  have nz: "current_page_directory s \<noteq> 0" by (rule inv_D(3) [OF inv])
  show ?thesis
  proof (rule require_table [OF inv dj(1) [symmetric] dj(3) f(1)])
    assume "paging_require_page_table cfg numa ln (PAGE_DIRECTORY_INDEX ?v) pde_flags s = Some (False, s)"
      "d \<notin> present (ram (pmm s)) D" "pool_frames cfg (pmm s) = {}" "spare s = {}"
    then show ?thesis using nz inv by (intro exI [of _ False] exI [of _ s]) (simp add: paging_map_page_def Let_def d_def keeps_clients_refl)
  next
    fix t assume t: "paging_require_page_table cfg numa ln (PAGE_DIRECTORY_INDEX ?v) pde_flags s = Some (True, t)"
      "d \<in> present (ram (pmm s)) D \<or> pool_frames cfg (pmm s) \<union> spare s \<noteq> {}" "paging_inv cfg numa ln D t" "d \<in> present (ram (pmm t)) D"
      "\<And>n. walk (ram (pmm t)) D n = walk (ram (pmm s)) D n" "paging_frames cfg D t = paging_frames cfg D s"
      "tlb_requests t = tlb_requests s" "owned t = (if d \<in> present (ram (pmm s)) D then owned s else insert d (owned s))"
      "keeps_clients cfg D s t" "present (ram (pmm t)) D = insert d (present (ram (pmm s)) D)"
    let ?w = "paging_install_pte (PAGE_ALIGN_DOWN p) pte_flags"
    let ?m = "store32 (ram (pmm t)) (entry_addr (table (ram (pmm t)) D d) j) ?w"
    note tab = inv_table [OF t(3,4)]
    have D: "D < 262144" by (rule inv_D(1) [OF inv])
    have cur: "current_page_directory t = pmm_phys_to_virt (frame_addr D)" using t(3) by (simp add: paging_inv_def)
    have tok: "tables_ok (ram (pmm t)) D (pool_frames cfg (pmm t))" using t(3) by (simp add: paging_inv_def)
    have r: "paging_map_page cfg numa ln v p pde_flags pte_flags s = Some (True, (set_ram ?m t)\<lparr>tlb_requests := tlb_requests t @ [Invlpg ?v]\<rparr>)"
      using nz t(1) unfolding paging_map_page_def Let_def w4
      by (simp add: cur PAGE_FRAME_ADDR_def page_of_word table_def set_ram_def)
    have w: "entry_present ?w" "entry_frame ?w = entry_frame p" using entry_words(1,2) f(2) by (simp_all add: entry_frame_align)
    have out: "?m x = ram (pmm t) x" if "i \<in> pool_frames cfg (pmm t)" "in_frame i x" for x i
      using store_entry_other [OF tab(2) dj(4)] in_frame_unique [OF that(2)] that(1) tab(4) by metis
    note st = tab_store [OF D tab(2,3) dj(4), where m = "ram (pmm t)" and w = ?w]
    have iw: "paging_inv cfg numa ln D (set_ram ?m t)" "paging_frames cfg D (set_ram ?m t) = paging_frames cfg D t"
      "keeps_clients cfg D t (set_ram ?m t)"
      using inv_write(1,2,4) [OF t(3) out st(1) st(2)] by (simp_all add: present_def)
    have wk: "walk ?m D n = (if n = page_of v then Some (entry_frame p) else walk (ram (pmm s)) D n)" for n
      unfolding walk_pte [OF tok t(4) dj(4)] using w t(5) dj(5) by simp
    have rm: "ram (pmm (set_ram ?m t)) = ?m" by (simp add: set_ram_def)
    have kc: "keeps_clients cfg D s (set_ram ?m t)" by (rule keeps_clients_trans [OF t(9) iw(3)])
    show ?thesis
      unfolding r
      by (rule exI [of _ True], rule exI [of _ "(set_ram ?m t)\<lparr>tlb_requests := tlb_requests t @ [Invlpg ?v]\<rparr>"])
        (use iw t(2,6,7) wk rm kc t(10) st(1) in \<open>simp add: d_def\<close>)
  qed
qed

section \<open>Unmapping a page\<close>

text \<open>Returning the empty table of the directory entry \<open>d\<close> to the frame allocator.\<close>

lemma release_table:
  assumes inv: "paging_inv cfg numa ln D s" and d: "d \<in> owned s"
    and empty: "\<And>j. j < 1024 \<Longrightarrow> \<not> entry_present (entry (ram (pmm s)) (table (ram (pmm s)) D d) j)"
    and s1: "s1 = (set_ram (store32 (ram (pmm s)) (entry_addr D d) 0) s)
      \<lparr>page_table_runtime_owned := (page_table_runtime_owned s)(d := False),
       page_table_runtime_owned_count := page_table_runtime_owned_count s - 1\<rparr>"
  shows "\<exists>m. physical_memory_manager_page_frame_free cfg numa (frame_addr (table (ram (pmm s)) D d)) (pmm s1) = Some m \<and>
    paging_inv cfg numa ln D (s1\<lparr>pmm := m\<rparr>) \<and> (\<forall>n. walk (ram m) D n = walk (ram (pmm s)) D n) \<and>
    paging_frames cfg D (s1\<lparr>pmm := m\<rparr>) = paging_frames cfg D s \<and> keeps_clients cfg D s (s1\<lparr>pmm := m\<rparr>)"
proof -
  let ?a = "ram (pmm s)" and ?b = "store32 (ram (pmm s)) (entry_addr D d) 0" and ?t = "table (ram (pmm s)) D d"
  have o: "owned s \<subseteq> present ?a D" using inv by (simp add: paging_inv_def)
  then have dp: "d \<in> present ?a D" and d1: "d < 1024" using d by (auto simp: present_def)
  note D = inv_D(1,2) [OF inv] and tab = inv_table [OF inv dp]
  have tok: "tables_ok ?a D (pool_frames cfg (pmm s))" and ready: "frames_ready cfg numa ln (pmm s)" using inv by (simp_all add: paging_inv_def)
  have P: "present ?b D = present ?a D - {d}" using dir_store(1) [OF D(1) d1] by simp
  have T: "table ?b D e = table ?a D e" if "e \<in> present ?b D" for e
  proof -
    have "e < 1024" "e \<noteq> d" using that P by (auto simp: present_def)
    then show ?thesis using dir_store(2) [OF D(1) d1, where m = ?a and w = 0] by simp
  qed
  have inj: "table ?a D e \<noteq> ?t" if "e \<in> present ?a D - {d}" for e
    using tok that dp by (auto simp: tables_ok_def inj_on_def)
  have img: "table ?b D ` A = table ?a D ` A" if "A \<subseteq> present ?a D - {d}" for A
    using T that P by (intro image_cong) auto
  have tokb: "tables_ok ?b D (insert ?t (pool_frames cfg (pmm s)))"
    using tok P T inj tab(3) by (auto simp: tables_ok_def inj_on_def)
  have out: "?b x = ?a x" if "i \<in> pool_frames cfg (pmm s)" "in_frame i x" for x i
    using store_entry_other [OF D(1) d1] in_frame_unique [OF that(2)] that(1) D(2) by metis
  have p1: "pmm s1 = (pmm s)\<lparr>ram := ?b\<rparr>" by (simp add: s1 set_ram_def)
  have rw: "frames_ready cfg numa ln (pmm s1)" "pool_frames cfg (pmm s1) = pool_frames cfg (pmm s)"
    "held_frames cfg (pmm s1) = held_frames cfg (pmm s)"
    unfolding p1 using ready_write [OF ready, of ?b] out by blast+
  have held: "?t \<in> held_frames cfg (pmm s)" using inv d by (auto simp: paging_inv_def)
  obtain m where m: "physical_memory_manager_page_frame_free cfg numa (frame_addr ?t) (pmm s1) = Some m" "frames_ready cfg numa ln m"
    "pool_frames cfg m = insert ?t (pool_frames cfg (pmm s))" "held_frames cfg m = held_frames cfg (pmm s) - {?t}"
    "ram_frame (pool_frames cfg m) (pmm s1) m"
    using pool.release_law [OF rw(1), where i = ?t] held rw(2,3) by auto
  have b: "ram (pmm s1) = ?b" by (simp add: p1)
  have disj: "D \<notin> pool_frames cfg m" "table ?b D ` present ?b D \<inter> pool_frames cfg m = {}"
    using tokb unfolding m(3) by (auto simp: tables_ok_def)
  note kept = memory_outside [of "pmm s1", unfolded b, OF tokb m(5) disj]
  have wk: "walk (ram m) D n = walk ?a D n" for n
    unfolding kept(2) using empty tab dp by (intro walk_pde [OF tok d1]) auto
  have os: "owned s1 = owned s - {d}" by (auto simp: s1 owned_def set_ram_def)
  have ob: "owned s - {d} \<subseteq> present ?b D" using o P by blast
  have io: "table (ram m) D ` (owned s - {d}) = table ?a D ` (owned s - {d})"
    using kept(5) [OF ob] img [of "owned s - {d}"] o by auto
  have ip: "table (ram m) D ` present (ram m) D = table ?a D ` (present ?a D - {d})"
    using kept(3) kept(5) [OF order_refl] img [OF order_refl] P by simp
  have "tables_ok (ram m) D (pool_frames cfg m)"
    using tables_ok_cong [OF tokb, of "ram m" "pool_frames cfg m"] kept(1) m(3) by blast
  moreover have "card (owned s - {d}) = card (owned s) - 1" "card (owned s) \<noteq> 0"
    using d finite_subset [OF o] by (auto simp: present_def)
  moreover have "spare s \<subseteq> held_frames cfg m - {D} - table (ram m) D ` present (ram m) D"
    using inv tab(5) unfolding m(4) ip by (auto simp: paging_inv_def)
  moreover have "table ?a D ` (owned s - {d}) \<subseteq> held_frames cfg m"
    using inv inj o unfolding m(4) by (auto simp: paging_inv_def)
  ultimately have "paging_inv cfg numa ln D (s1\<lparr>pmm := m\<rparr>)"
    using inv m(2) os ob io kept(3) unfolding paging_inv_def
    by (auto simp: s1 set_ram_def owned_def spare_def of_nat_diff)
  moreover have "paging_frames cfg D (s1\<lparr>pmm := m\<rparr>) = paging_frames cfg D s"
  proof -
    have "table ?a D ` owned s = insert ?t (table ?a D ` (owned s - {d}))" using d by blast
    moreover have "owned (s1\<lparr>pmm := m\<rparr>) = owned s - {d}" "spare (s1\<lparr>pmm := m\<rparr>) = spare s"
      using os by (simp_all add: owned_def spare_def s1 set_ram_def)
    ultimately show ?thesis using io m(3) by (auto simp: paging_frames_def)
  qed
  moreover have "keeps_clients cfg D s (s1\<lparr>pmm := m\<rparr>)"
  proof -
    have "table ?a D ` present ?a D = insert ?t (table ?a D ` (present ?a D - {d}))" using dp by blast
    moreover have "spare (s1\<lparr>pmm := m\<rparr>) = spare s" by (simp add: spare_def s1 set_ram_def)
    ultimately show ?thesis using ip m(3,4) by (auto simp: keeps_clients_def paging_claims_def)
  qed
  ultimately show ?thesis using m(1) wk by (intro exI [of _ m] conjI allI)
qed

lemma table_empty_iff:
  "paging_is_page_table_empty m (pmm_phys_to_virt (frame_addr t)) \<longleftrightarrow> (\<forall>j < 1024. \<not> entry_present (entry m t j))"
  by (auto simp: paging_is_page_table_empty_def list_all_iff)

lemma count_nonzero: "paging_inv cfg numa ln D s \<Longrightarrow> d \<in> owned s \<Longrightarrow> 0 < page_table_runtime_owned_count s"
proof -
  assume inv: "paging_inv cfg numa ln D s" and d: "d \<in> owned s"
  have sub: "owned s \<subseteq> {..<1024}" using inv by (auto simp: paging_inv_def present_def)
  then have "card (owned s) \<le> 1024" using card_mono [OF _ sub] by simp
  moreover have "0 < card (owned s)" using d finite_subset [OF sub] by (auto simp: card_gt_0_iff)
  ultimately have "unat (of_nat (card (owned s)) :: u32) = card (owned s)" by (simp add: unsigned_of_nat take_bit_nat_eq_self)
  then show ?thesis using inv \<open>0 < card (owned s)\<close> by (simp add: paging_inv_def word_less_nat_alt)
qed

lemma unmap_page_effect:
  assumes inv: "paging_inv cfg numa ln D s"
  shows "\<exists>s'. paging_unmap_page cfg numa v s = Some (walk (ram (pmm s)) D (page_of v) \<noteq> None, s') \<and> paging_inv cfg numa ln D s' \<and>
    paging_frames cfg D s' = paging_frames cfg D s \<and> keeps_clients cfg D s s' \<and>
    (\<forall>n. walk (ram (pmm s')) D n = (if n = page_of v then None else walk (ram (pmm s)) D n)) \<and>
    tlb_requests s' = tlb_requests s @ (if walk (ram (pmm s)) D (page_of v) = None then [] else [Tlb_Shootdown (PAGE_ALIGN_DOWN v)])"
proof -
  let ?v = "PAGE_ALIGN_DOWN v" and ?a = "ram (pmm s)"
  define d j where "d = page_of v div 1024" and "j = page_of v mod 1024"
  have dj: "unat (PAGE_DIRECTORY_INDEX ?v) = d" "unat (PAGE_TABLE_INDEX ?v) = j" "d < 1024" "j < 1024" "1024 * d + j = page_of v"
    using page_parts [of v] by (simp_all add: index_page page_of_align d_def j_def)
  note w4 = scaled_index [of v, folded d_def j_def]
  have nz: "current_page_directory s \<noteq> 0" by (rule inv_D(3) [OF inv])
  have cur: "current_page_directory s = pmm_phys_to_virt (frame_addr D)" and tok: "tables_ok ?a D (pool_frames cfg (pmm s))"
    using inv by (simp_all add: paging_inv_def)
  have D: "D < 262144" by (rule inv_D(1) [OF inv])
  show ?thesis
  proof (cases "d \<in> present ?a D \<and> entry_present (entry ?a (table ?a D d) j)")
    case False
    then have "walk ?a D (page_of v) = None" by (auto simp: walk_def d_def j_def)
    moreover have "paging_unmap_page cfg numa v s = Some (False, s)"
      using False nz dj(3) unfolding paging_unmap_page_def Let_def w4
      by (auto simp: cur PAGE_FRAME_ADDR_def page_of_word table_def present_def)
    ultimately show ?thesis using inv keeps_clients_refl by auto
  next
    case True
    let ?t = "table ?a D d"
    let ?m = "store32 ?a (entry_addr ?t j) 0"
    let ?s = "set_ram ?m s"
    note tab = inv_table [OF inv conjunct1 [OF True]]
    have mapped: "walk ?a D (page_of v) \<noteq> None" using True by (simp add: walk_def d_def j_def)
    have out: "?m x = ?a x" if "i \<in> pool_frames cfg (pmm s)" "in_frame i x" for x i
      using store_entry_other [OF tab(2) dj(4)] in_frame_unique [OF that(2)] that(1) tab(4) by metis
    note st = tab_store [OF D tab(2,3) dj(4), where m = ?a and w = 0]
    have iw: "paging_inv cfg numa ln D ?s" "paging_frames cfg D ?s = paging_frames cfg D s" "owned ?s = owned s" "keeps_clients cfg D s ?s"
      using inv_write [OF inv out st(1) st(2)] by (simp_all add: present_def)
    have wk: "walk ?m D n = (if n = page_of v then None else walk ?a D n)" for n
      unfolding walk_pte [OF tok conjunct1 [OF True] dj(4)] using dj(5) by simp
    have rm: "ram (pmm ?s) = ?m" "tlb_requests ?s = tlb_requests s" by (simp_all add: set_ram_def)
    have tt: "table ?m D d = ?t" by (rule st(2) [OF dj(3)])
    show ?thesis
    proof (cases "d \<in> owned s \<and> paging_is_page_table_empty ?m (pmm_phys_to_virt (frame_addr ?t))")
      case False
      then have "paging_unmap_page cfg numa v s = Some (True, ?s\<lparr>tlb_requests := tlb_requests s @ [Tlb_Shootdown ?v]\<rparr>)"
        using True nz unfolding paging_unmap_page_def Let_def w4
        by (auto simp: cur PAGE_FRAME_ADDR_def page_of_word table_def present_def dj(1) owned_def set_ram_def)
      then show ?thesis using mapped iw wk rm by (intro exI [of _ "?s\<lparr>tlb_requests := tlb_requests s @ [Tlb_Shootdown ?v]\<rparr>"]) simp
    next
      case rel: True
      define s1 where "s1 = (set_ram (store32 (ram (pmm ?s)) (entry_addr D d) 0) ?s)
        \<lparr>page_table_runtime_owned := (page_table_runtime_owned ?s)(d := False),
         page_table_runtime_owned_count := page_table_runtime_owned_count ?s - 1\<rparr>"
      have do: "d \<in> owned ?s" using rel iw(3) by simp
      have em: "\<not> entry_present (entry (ram (pmm ?s)) (table (ram (pmm ?s)) D d) i)" if "i < 1024" for i
        using rel that by (simp add: rm tt table_empty_iff)
      obtain m where m: "physical_memory_manager_page_frame_free cfg numa (frame_addr ?t) (pmm s1) = Some m"
        "paging_inv cfg numa ln D (s1\<lparr>pmm := m\<rparr>)" "\<forall>n. walk (ram m) D n = walk ?m D n"
        "paging_frames cfg D (s1\<lparr>pmm := m\<rparr>) = paging_frames cfg D s" "keeps_clients cfg D ?s (s1\<lparr>pmm := m\<rparr>)"
        using release_table [OF iw(1) do em s1_def] unfolding rm tt iw(2) by blast
      have pos: "0 < page_table_runtime_owned_count s" using count_nonzero [OF inv] rel by blast
      have "paging_unmap_page cfg numa v s = Some (True, s1\<lparr>pmm := m, tlb_requests := tlb_requests s @ [Tlb_Shootdown ?v]\<rparr>)"
        using True nz rel m(1) pos unfolding paging_unmap_page_def Let_def w4
        by (simp add: cur PAGE_FRAME_ADDR_def page_of_word table_def present_def dj(1) owned_def set_ram_def s1_def)
      then show ?thesis
        using mapped m(2-4) wk keeps_clients_trans [OF iw(4) m(5)] by (intro exI [of _ "s1\<lparr>pmm := m, tlb_requests := tlb_requests s @ [Tlb_Shootdown ?v]\<rparr>"]) simp
    qed
  qed
qed

section \<open>Protecting a page\<close>

lemma read_only_effect:
  assumes inv: "paging_inv cfg numa ln D s" and r: "paging_set_page_read_only v s = (ok, s')"
  shows "paging_inv cfg numa ln D s' \<and> ok = (walk (ram (pmm s)) D (page_of v) \<noteq> None) \<and>
    (\<forall>n. walk (ram (pmm s')) D n = walk (ram (pmm s)) D n) \<and>
    (\<forall>u. paging_page_is_read_only u s' = (if ok \<and> page_of u = page_of v then Some True else paging_page_is_read_only u s))"
proof -
  let ?v = "PAGE_ALIGN_DOWN v" and ?a = "ram (pmm s)"
  have D: "D < 262144" by (rule inv_D(1) [OF inv])
  have nz: "current_page_directory s \<noteq> 0" by (rule inv_D(3) [OF inv])
  have cur: "current_page_directory s = pmm_phys_to_virt (frame_addr D)" and tok: "tables_ok ?a D (pool_frames cfg (pmm s))"
    using inv by (simp_all add: paging_inv_def)
  have query: "paging_page_is_read_only u t = (if walk (ram (pmm t)) D (page_of u) = None then None
      else Some (\<not> bit (entry (ram (pmm t)) (table (ram (pmm t)) D (page_of u div 1024)) (page_of u mod 1024)) 1))"
    if "current_page_directory t = pmm_phys_to_virt (frame_addr D)" for u t
    using that directory_nonzero [OF D] page_parts(1) [of u] unfolding paging_page_is_read_only_def Let_def scaled_index
    by (simp add: PAGE_FRAME_ADDR_def page_of_word walk_def present_def table_def)
  show ?thesis
  proof (cases "walk ?a D (page_of v)")
    case None
    then have "ok = False" "s' = s" using r nz page_parts(1) [of v] unfolding paging_set_page_read_only_def Let_def scaled_index
      by (auto simp: cur PAGE_FRAME_ADDR_def page_of_word walk_def present_def table_def split: if_splits)
    then show ?thesis using inv None by simp
  next
    case (Some f)
    define d j where "d = page_of v div 1024" and "j = page_of v mod 1024"
    have dj: "d < 1024" "j < 1024" "1024 * d + j = page_of v" using page_parts [of v] by (simp_all add: d_def j_def)
    let ?t = "table ?a D d"
    let ?w = "unset_bit 1 (entry ?a ?t j)"
    let ?m = "store32 ?a (entry_addr ?t j) ?w"
    have dp: "d \<in> present ?a D" and e: "entry_present (entry ?a ?t j)" "entry_frame (entry ?a ?t j) = f"
      using Some by (auto simp: walk_def d_def j_def split: if_splits)
    have s': "ok = True" "s' = (set_ram ?m s)\<lparr>tlb_requests := tlb_requests s @ [Invlpg ?v]\<rparr>"
      using r nz dp e(1) unfolding paging_set_page_read_only_def Let_def scaled_index
      by (simp_all add: cur PAGE_FRAME_ADDR_def page_of_word present_def table_def d_def j_def set_ram_def)
    have "drop_bit 12 ?w = drop_bit 12 (entry ?a ?t j)" by (rule bit_eqI) (auto simp: bit_simps)
    then have w: "entry_present ?w" "entry_frame ?w = f" "\<not> bit ?w 1" using e by (simp_all add: entry_frame_def bit_simps)
    note tab = inv_table [OF inv dp]
    have out: "?m x = ?a x" if "i \<in> pool_frames cfg (pmm s)" "in_frame i x" for x i
      using store_entry_other [OF tab(2) dj(2)] in_frame_unique [OF that(2)] that(1) tab(4) by metis
    note st = tab_store [OF D tab(2,3) dj(2), where m = ?a and w = ?w]
    have iw: "paging_inv cfg numa ln D (set_ram ?m s)" using inv_write(1) [OF inv out st(1) st(2)] by (simp add: present_def)
    have wk: "walk ?m D n = walk ?a D n" for n
      unfolding walk_pte [OF tok dp dj(2)] using w dj(3) Some by simp
    have ro: "paging_page_is_read_only u s' = (if page_of u = page_of v then Some True else paging_page_is_read_only u s)" for u
    proof (cases "walk ?a D (page_of u)")
      case None
      then have "page_of u \<noteq> page_of v" using Some by auto
      then show ?thesis using None query [OF cur] query [of s'] wk by (simp add: s'(2) set_ram_def cur)
    next
      case (Some g)
      then have up: "page_of u div 1024 \<in> present ?a D" by (auto simp: walk_def split: if_splits)
      have "?t = table ?a D (page_of u div 1024) \<longleftrightarrow> d = page_of u div 1024"
        using tok up dp by (auto simp: tables_ok_def inj_on_def)
      then have "entry ?m (table ?a D (page_of u div 1024)) (page_of u mod 1024) =
          (if page_of u = page_of v then ?w else entry ?a (table ?a D (page_of u div 1024)) (page_of u mod 1024))"
        using entry_store [OF tab(2) dj(2) inv_table(2) [OF inv up], of "page_of u mod 1024" ?a ?w] page_eqI [of u v]
        by (auto simp: d_def j_def)
      then show ?thesis
        using Some query [OF cur, of u] query [of s' u] wk w(3) st(2) [OF page_parts(1) [of u]] by (simp add: s'(2) set_ram_def cur)
    qed
    show ?thesis using iw wk ro Some s'(1) by (simp add: s'(2) set_ram_def)
  qed
qed

section \<open>A booted address space\<close>

text \<open>
  Directory in frame 2 with one boot table, frame 3, in its first entry; no frame is free.
\<close>

abbreviation (input) boot_build :: build_flags where
  "boot_build \<equiv> \<lparr>real_time_mode = False, debug_poison = False\<rparr>"

definition boot_tables :: mem where
  "boot_tables = store32 (\<lambda>_. 0) (entry_addr 2 0) 0x3003"

definition booted :: paging where
  "booted = paging_initialize_runtime (pmm_phys_to_virt (frame_addr 2))
     \<lparr>current_page_directory = 0, page_table_runtime_owned = (\<lambda>_. False), page_table_runtime_owned_count = 0,
      paging_cached_page_table_phys = 0, tlb_requests = [], pmm = pmm_static boot_tables\<rparr>"

lemma boot_present: "present boot_tables 2 = {0}" "table boot_tables 2 0 = 3"
proof -
  have "present (\<lambda>_. 0) 2 = {}" by (simp add: present_def load32_def)
  then show "present boot_tables 2 = {0}" unfolding boot_tables_def by (subst dir_store) simp_all
  show "table boot_tables 2 0 = 3" unfolding boot_tables_def by (subst dir_store) (simp_all add: entry_frame_def)
qed

lemma booted_inv: "paging_inv boot_build numa_state_static 0 2 booted"
proof -
  have b: "blocks_of (pmm_static boot_tables) = (\<lambda>_. None)" by (simp add: blocks_of_def pmm_static_def)
  have r: "ram (pmm_static boot_tables) = boot_tables" by (simp add: pmm_static_def)
  have "frames_ready boot_build numa_state_static 0 (pmm_static boot_tables)"
    using buddy_inv_static [OF numa_inv_static]
    by (simp add: frames_ready_def buddy_ready_def numa_state_static_def) (simp add: pmm_static_def)
  then show ?thesis
    by (simp add: paging_inv_def booted_def paging_initialize_runtime_def tables_ok_def boot_present r owned_def spare_def
        pool_frames_def held_frames_def b)
qed

lemma booted_unmapped: "walk (ram (pmm booted)) 2 5 = None"
proof -
  have "entry boot_tables 3 5 = entry (\<lambda>_. 0) 3 5" unfolding boot_tables_def by (subst entry_store) simp_all
  then have "entry boot_tables 3 5 = 0" by (simp add: load32_def)
  then show ?thesis
    by (simp add: walk_def booted_def paging_initialize_runtime_def pmm_static_def boot_present)
qed

lemma booted_dir: "current_page_directory booted = pmm_phys_to_virt (frame_addr 2)" "ram (pmm booted) = boot_tables"
  by (simp_all add: booted_def paging_initialize_runtime_def pmm_static_def)

lemma page_5: "page_of 0x5000 = 5" "page_of 0x5123 = 5"
  by (simp_all add: page_of_def)

section \<open>Properties\<close>





text \<open>
  C19 (roundtrip): mapping an unmapped page and unmapping it again restores every translation, and every frame
  is accounted for.
\<close>

theorem map_unmap_roundtrip:
  assumes "paging_inv cfg numa ln D s" "entry_present pde_flags" "entry_present pte_flags" "\<not> paging_is_mapped v s"
    and "paging_map_page cfg numa ln v p pde_flags pte_flags s = Some (True, t)"
  shows "\<exists>s'. paging_unmap_page cfg numa v t = Some (True, s') \<and> paging_inv cfg numa ln D s' \<and>
    (\<forall>u. paging_get_physical_address u s' = paging_get_physical_address u s) \<and> paging_frames cfg D s' = paging_frames cfg D s"
proof -
  have t: "paging_inv cfg numa ln D t" "paging_frames cfg D t = paging_frames cfg D s"
    "\<forall>n. walk (ram (pmm t)) D n = (if n = page_of v then Some (entry_frame p) else walk (ram (pmm s)) D n)"
    using map_page_effect [OF assms(1-3), of v p] assms(5) by auto
  obtain s' where m: "paging_unmap_page cfg numa v t = Some (True, s')" "paging_inv cfg numa ln D s'"
    "paging_frames cfg D s' = paging_frames cfg D t"
    "\<forall>n. walk (ram (pmm s')) D n = (if n = page_of v then None else walk (ram (pmm t)) D n)"
    using unmap_page_effect [OF t(1), of v] t(3) by auto
  have "current_page_directory s = pmm_phys_to_virt (frame_addr D)" "current_page_directory s' = pmm_phys_to_virt (frame_addr D)"
    using assms(1) m(2) by (simp_all add: paging_inv_def)
  note tr = translate_walk [OF this(1) inv_D(1) [OF assms(1)]] translate_walk [OF this(2) inv_D(1) [OF assms(1)]]
  have "walk (ram (pmm s)) D (page_of v) = None" using assms(4) by (simp add: paging_is_mapped_def tr)
  then have "paging_get_physical_address u s' = paging_get_physical_address u s" for u
    unfolding tr using m(4) t(3) by (cases "page_of u = page_of v") auto
  then show ?thesis using m t(2) by (intro exI [of _ s']) simp
qed

theorem map_unmap_roundtrip_witness:
  "\<exists>t s'. paging_map_page boot_build numa_state_static 0 0x5000 0x7000 3 3 booted = Some (True, t) \<and>
     paging_unmap_page boot_build numa_state_static 0x5000 t = Some (True, s') \<and>
     (\<forall>u. paging_get_physical_address u s' = paging_get_physical_address u booted)"
proof -
  have n: "\<not> paging_is_mapped 0x5000 booted"
    unfolding paging_is_mapped_def translate_walk [OF booted_dir(1), of "0x5000", simplified] by (simp add: page_5 booted_unmapped)
  obtain t where t: "paging_map_page boot_build numa_state_static 0 0x5000 0x7000 3 3 booted = Some (True, t)"
    using map_page_effect [OF booted_inv, of 3 3 "0x5000" "0x7000"] by (auto simp: page_5 booted_dir boot_present)
  show ?thesis using map_unmap_roundtrip [OF booted_inv _ _ n t] t by auto
qed



end
