(* ===== verification/Paging_Clients.thy ===== *)
theory Paging_Clients
  imports Paging_Correct
begin

text \<open>
  What a client of the paging code may rely on: taking a frame for its own use, mapping it, unmapping it
  and giving it back never disturb the frames of other clients.
\<close>

lemma ram_frame_outside:
  assumes inv: "paging_inv cfg numa ln D s" and m: "ram_frame P (pmm s) m" "P \<inter> paging_claims cfg D s \<subseteq> pool_frames cfg (pmm s)"
  shows "in_frame D x \<Longrightarrow> ram (pmm s) x = ram m x"
    "walk (ram m) D n = walk (ram (pmm s)) D n" "present (ram m) D = present (ram (pmm s)) D"
    "d < 1024 \<Longrightarrow> table (ram m) D d = table (ram (pmm s)) D d"
    "A \<subseteq> present (ram (pmm s)) D \<Longrightarrow> table (ram m) D ` A = table (ram (pmm s)) D ` A"
proof -
  have ok: "tables_ok (ram (pmm s)) D (pool_frames cfg (pmm s))" using inv by (simp add: paging_inv_def)
  then have "D \<notin> P" "table (ram (pmm s)) D ` present (ram (pmm s)) D \<inter> P = {}"
    using m(2) by (auto simp: tables_ok_def paging_claims_def)
  note out = memory_outside [OF ok m(1) this]
  show "in_frame D x \<Longrightarrow> ram (pmm s) x = ram m x" "walk (ram m) D n = walk (ram (pmm s)) D n"
    "present (ram m) D = present (ram (pmm s)) D" "d < 1024 \<Longrightarrow> table (ram m) D d = table (ram (pmm s)) D d"
    "A \<subseteq> present (ram (pmm s)) D \<Longrightarrow> table (ram m) D ` A = table (ram (pmm s)) D ` A"
    using out by blast+
qed

lemma client_alloc:
  assumes inv: "paging_inv cfg numa ln D s"
  obtains (none) "physical_memory_manager_page_frame_allocate cfg numa ln (pmm s) = Some (0, pmm s)" "pool_frames cfg (pmm s) = {}"
  | (some) f m where "physical_memory_manager_page_frame_allocate cfg numa ln (pmm s) = Some (frame_addr f, m)" "frame_addr f \<noteq> 0"
      "0 < f" "f < 262144" "f \<in> pool_frames cfg (pmm s)" "paging_inv cfg numa ln D (s\<lparr>pmm := m\<rparr>)"
      "\<forall>n. walk (ram m) D n = walk (ram (pmm s)) D n" "paging_claims cfg D (s\<lparr>pmm := m\<rparr>) = paging_claims cfg D s - {f}"
      "held_frames cfg m = insert f (held_frames cfg (pmm s))" "f \<notin> held_frames cfg (pmm s)"
      "pool_frames cfg m = pool_frames cfg (pmm s) - {f}" "present (ram m) D = present (ram (pmm s)) D"
proof -
  have ready: "frames_ready cfg numa ln (pmm s)" using inv by (simp add: paging_inv_def)
  show thesis
  proof (rule pool.alloc_cases [where cfg = cfg and numa = numa and local_node = ln and s = "pmm s"])
    show "frames_ready cfg numa ln (pmm s)" by (rule ready)
  next
    fix f m
    assume a: "physical_memory_manager_page_frame_allocate cfg numa ln (pmm s) = Some (frame_addr f, m)" "frame_addr f \<noteq> 0"
      "f \<in> pool_frames cfg (pmm s)" "frames_ready cfg numa ln m" "pool_frames cfg m = pool_frames cfg (pmm s) - {f}"
      "held_frames cfg m = insert f (held_frames cfg (pmm s))" "ram_frame (pool_frames cfg m) (pmm s) m"
    have sub: "pool_frames cfg m \<subseteq> pool_frames cfg (pmm s)" using a(5) by auto
    note kept = memory_kept [OF inv a(7) sub]
    have i: "paging_inv cfg numa ln D (s\<lparr>pmm := m\<rparr>)" by (rule inv_new_pmm [OF inv a(4) sub _ a(7)]) (use a(6) in auto)
    have h: "f \<notin> held_frames cfg (pmm s)" using pool.releasable_range [OF ready] a(3) by blast
    have "f \<noteq> D" "f \<notin> table (ram (pmm s)) D ` present (ram (pmm s)) D" "f \<notin> spare s"
      using inv a(3) h by (auto simp: paging_inv_def tables_ok_def)
    then have "paging_claims cfg D (s\<lparr>pmm := m\<rparr>) = paging_claims cfg D s - {f}"
      using a(5) kept(3) kept(4) [OF order_refl] by (auto simp: paging_claims_def spare_def)
    moreover have "0 < f" "f < 262144" using pool.frames_range [OF ready] a(3) by auto
    ultimately show thesis using some a i h kept(2,3) by blast
  qed (use none in blast)
qed

lemma client_release:
  assumes inv: "paging_inv cfg numa ln D s" and f: "f \<in> held_frames cfg (pmm s) - paging_claims cfg D s"
  shows "\<exists>m. physical_memory_manager_page_frame_free cfg numa (frame_addr f) (pmm s) = Some m \<and>
    paging_inv cfg numa ln D (s\<lparr>pmm := m\<rparr>) \<and> (\<forall>n. walk (ram m) D n = walk (ram (pmm s)) D n) \<and>
    paging_claims cfg D (s\<lparr>pmm := m\<rparr>) = insert f (paging_claims cfg D s) \<and>
    held_frames cfg m = held_frames cfg (pmm s) - {f} \<and> present (ram m) D = present (ram (pmm s)) D \<and>
    pool_frames cfg m = insert f (pool_frames cfg (pmm s))"
proof -
  have ready: "frames_ready cfg numa ln (pmm s)" using inv by (simp add: paging_inv_def)
  have fh: "f \<in> held_frames cfg (pmm s)" using f by blast
  obtain m where r: "physical_memory_manager_page_frame_free cfg numa (frame_addr f) (pmm s) = Some m" "frames_ready cfg numa ln m"
    "pool_frames cfg m = insert f (pool_frames cfg (pmm s))" "held_frames cfg m = held_frames cfg (pmm s) - {f}"
    "ram_frame (pool_frames cfg m) (pmm s) m"
    using pool.release_law [where i = f, OF ready fh] by blast
  have "pool_frames cfg m \<inter> paging_claims cfg D s \<subseteq> pool_frames cfg (pmm s)" using f r(3) by auto
  note kept = ram_frame_outside [OF inv r(5) this]
  have out: "f \<noteq> D" "f \<notin> table (ram (pmm s)) D ` present (ram (pmm s)) D" "f \<notin> spare s"
    using f by (auto simp: paging_claims_def)
  have o: "owned s \<subseteq> present (ram (pmm s)) D" using inv by (simp add: paging_inv_def)
  have "tables_ok (ram m) D (insert f (pool_frames cfg (pmm s)))"
    using inv out(1,2) unfolding paging_inv_def tables_ok_def kept(3)
    by (auto simp: present_def kept(4) inj_on_def)
  then have "paging_inv cfg numa ln D (s\<lparr>pmm := m\<rparr>)"
    using inv out r(2-4) o kept(3) kept(5) [OF o] kept(5) [OF order_refl]
    by (auto simp: paging_inv_def owned_def spare_def)
  moreover have "paging_claims cfg D (s\<lparr>pmm := m\<rparr>) = insert f (paging_claims cfg D s)"
    using r(3) kept(3) kept(5) [OF order_refl] by (auto simp: paging_claims_def spare_def)
  ultimately show ?thesis using r(1,3,4) kept(2,3) by blast
qed

section \<open>How far the frames last\<close>

text \<open>
  The frames the paging code can still turn into tables, or hand out. Every claimed frame is one of these, the
  directory, or the table of a present directory entry.
\<close>

definition frame_budget :: "build_flags \<Rightarrow> paging \<Rightarrow> nat" where
  "frame_budget cfg s = card (pool_frames cfg (pmm s) \<union> spare s)"

lemma budget_finite: "paging_inv cfg numa ln D s \<Longrightarrow> finite (pool_frames cfg (pmm s) \<union> spare s)"
  using pool.frames_range [where cfg = cfg and numa = numa and local_node = ln and s = "pmm s"]
  by (auto simp: paging_inv_def spare_def finite_subset)

lemma card_claims:
  assumes inv: "paging_inv cfg numa ln D s"
  shows "card (paging_claims cfg D s) = frame_budget cfg s + 1 + card (present (ram (pmm s)) D)"
proof -
  let ?P = "pool_frames cfg (pmm s) \<union> spare s" and ?T = "table (ram (pmm s)) D ` present (ram (pmm s)) D"
  have fin: "finite ?P" by (rule budget_finite [OF inv])
  have fT: "finite ?T" by (simp add: present_def)
  have "paging_claims cfg D s = ?P \<union> insert D ?T" by (auto simp: paging_claims_def)
  moreover have "?P \<inter> insert D ?T = {}" "D \<notin> ?T" using inv by (auto simp: paging_inv_def tables_ok_def)
  moreover have "card ?T = card (present (ram (pmm s)) D)" using inv by (intro card_image) (simp add: paging_inv_def tables_ok_def)
  ultimately show ?thesis using fin fT by (simp add: card_Un_disjoint frame_budget_def)
qed

lemma budget_alloc:
  assumes inv: "paging_inv cfg numa ln D s" and f: "f \<in> pool_frames cfg (pmm s)" "f \<notin> held_frames cfg (pmm s)"
    "pool_frames cfg m = pool_frames cfg (pmm s) - {f}"
  shows "frame_budget cfg s = Suc (frame_budget cfg (s\<lparr>pmm := m\<rparr>))"
proof -
  let ?P = "pool_frames cfg (pmm s)"
  have sp: "spare (s\<lparr>pmm := m\<rparr>) = spare s" by (simp add: spare_def)
  have "f \<notin> spare s" using inv f(2) by (auto simp: paging_inv_def)
  then have "?P \<union> spare s = insert f (?P - {f} \<union> spare s)" "f \<notin> ?P - {f} \<union> spare s" using f(1) by auto
  moreover have "finite (?P - {f} \<union> spare s)" using budget_finite [OF inv] by simp
  ultimately have "card (?P \<union> spare s) = Suc (card (?P - {f} \<union> spare s))" by (metis card_insert_disjoint)
  then show ?thesis using f(3) by (simp add: frame_budget_def sp)
qed

lemma spare_card: "card (spare s) \<le> 1"
  by (simp add: spare_def)

section \<open>An address space with free frames\<close>

text \<open>The real-time build after boot, with frames 8, 9 and 10 handed to the pool.\<close>

abbreviation (input) real_time_build :: build_flags where
  "real_time_build \<equiv> \<lparr>real_time_mode = True, debug_poison = False\<rparr>"

lemma real_time_booted:
  "paging_inv real_time_build numa_state_static 0 2 booted" "held_frames real_time_build (pmm booted) = {0<..<262144}"
  "paging_claims real_time_build 2 booted = {2, 3}"
proof -
  have f: "freelist_frames (pmm_static boot_tables) = {}" by (auto simp: freelist_frames_def pmm_static_def)
  have r: "ram (pmm_static boot_tables) = boot_tables" by (simp add: pmm_static_def)
  have "frames_ready real_time_build numa_state_static 0 (pmm_static boot_tables)"
    unfolding frames_ready_def freelist_ready_def freelist_inv_def freelist_at_def f
    using numa_inv_static by (auto simp: pmm_static_def intro!: exI [of _ "\<lambda>_. []"])
  then show "paging_inv real_time_build numa_state_static 0 2 booted"
    by (simp add: paging_inv_def booted_def paging_initialize_runtime_def tables_ok_def boot_present r owned_def spare_def
        pool_frames_def held_frames_def f)
  show "held_frames real_time_build (pmm booted) = {0<..<262144}" "paging_claims real_time_build 2 booted = {2, 3}"
    by (auto simp: held_frames_def paging_claims_def pool_frames_def spare_def booted_def paging_initialize_runtime_def f r boot_present)
qed

lemma hand_over:
  assumes "paging_inv real_time_build numa_state_static 0 2 s" "held_frames real_time_build (pmm s) = {0<..<262144} - P"
    "paging_claims real_time_build 2 s = {2, 3} \<union> P" "f \<in> {3<..<262144} - P" "present (ram (pmm s)) 2 = {0}"
  shows "\<exists>s'. paging_inv real_time_build numa_state_static 0 2 s' \<and> held_frames real_time_build (pmm s') = {0<..<262144} - insert f P \<and>
    paging_claims real_time_build 2 s' = {2, 3} \<union> insert f P \<and> present (ram (pmm s')) 2 = {0}"
proof -
  have "f \<in> held_frames real_time_build (pmm s) - paging_claims real_time_build 2 s" using assms(2-4) by auto
  from client_release [OF assms(1) this] obtain m where m:
    "paging_inv real_time_build numa_state_static 0 2 (s\<lparr>pmm := m\<rparr>)"
    "paging_claims real_time_build 2 (s\<lparr>pmm := m\<rparr>) = insert f (paging_claims real_time_build 2 s)"
    "held_frames real_time_build m = held_frames real_time_build (pmm s) - {f}" "present (ram m) 2 = present (ram (pmm s)) 2" by blast
  have "held_frames real_time_build m = {0<..<262144} - insert f P"
    "paging_claims real_time_build 2 (s\<lparr>pmm := m\<rparr>) = {2, 3} \<union> insert f P"
    unfolding m(2,3) assms(2,3) by blast+
  then show ?thesis using m(1,4) assms(5) by (intro exI [of _ "s\<lparr>pmm := m\<rparr>"]) simp
qed

lemma free_space_exists:
  "\<exists>s. paging_inv real_time_build numa_state_static 0 2 s \<and> frame_budget real_time_build s = 3 \<and> present (ram (pmm s)) 2 = {0}"
proof -
  have "present (ram (pmm booted)) 2 = {0}" using booted_dir(2) boot_present(1) by simp
  from hand_over [of booted "{}" 8] real_time_booted this obtain a where a:
    "paging_inv real_time_build numa_state_static 0 2 a" "held_frames real_time_build (pmm a) = {0<..<262144} - {8}"
    "paging_claims real_time_build 2 a = {2, 3} \<union> {8}" "present (ram (pmm a)) 2 = {0}" by auto
  from hand_over [OF a(1-3), of 9] a(4) obtain b where b:
    "paging_inv real_time_build numa_state_static 0 2 b" "held_frames real_time_build (pmm b) = {0<..<262144} - {9, 8}"
    "paging_claims real_time_build 2 b = {2, 3} \<union> {9, 8}" "present (ram (pmm b)) 2 = {0}" by auto
  from hand_over [OF b(1-3), of 10] b(4) obtain c where
    "paging_inv real_time_build numa_state_static 0 2 c" "paging_claims real_time_build 2 c = {2, 3} \<union> {10, 9, 8}"
    "present (ram (pmm c)) 2 = {0}" by auto
  with card_claims [OF this(1)] show ?thesis by (intro exI [of _ c]) simp
qed

lemma one_frame_space:
  "\<exists>s. paging_inv real_time_build numa_state_static 0 2 s \<and> frame_budget real_time_build s = 1 \<and> present (ram (pmm s)) 2 = {0} \<and>
     pool_frames real_time_build (pmm s) \<noteq> {}"
proof -
  have "present (ram (pmm booted)) 2 = {0}" using booted_dir(2) boot_present(1) by simp
  from hand_over [of booted "{}" 8] real_time_booted this obtain a where a: "paging_inv real_time_build numa_state_static 0 2 a"
    "paging_claims real_time_build 2 a = {2, 3} \<union> {8}" "present (ram (pmm a)) 2 = {0}" by auto
  have b: "frame_budget real_time_build a = 1" using card_claims [OF a(1)] a(2,3) by simp
  have "spare a = {}" using a(1) by (simp add: paging_inv_def spare_def)
  then have "pool_frames real_time_build (pmm a) \<noteq> {}" using b by (auto simp: frame_budget_def)
  then show ?thesis using a b by blast
qed

end
