(* ===== verification/Vmm.thy ===== *)
theory Vmm
  imports Paging_Clients
begin

text \<open>
  \<open>src/kernel/kernel/memory/vmm.c\<close>: the allocator of the dynamic kernel window 0xD0000000 to 0xF0000000,
  a bitmap of its 131072 pages over the paging code and the frame allocator. Page indices and counts are
  natural numbers once they have passed the code's guards; \<open>None\<close> stands for an access outside the bitmap.
\<close>

abbreviation (input) KERNEL_VMM_DYNAMIC_START :: u32 where "KERNEL_VMM_DYNAMIC_START \<equiv> 0xD0000000"
abbreviation (input) KERNEL_VMM_DYNAMIC_END :: u32 where "KERNEL_VMM_DYNAMIC_END \<equiv> 0xF0000000"
abbreviation (input) VMM_PAGE_COUNT :: nat where "VMM_PAGE_COUNT \<equiv> 131072"
abbreviation (input) VMM_BITMAP_SIZE :: nat where "VMM_BITMAP_SIZE \<equiv> 16384"

record vmm =
  vmm_bitmap :: "u8 list"
  vmm_last_search_index :: u32
  vmm_initialized :: bool
  space :: paging

definition vmm_bitmap_set :: "nat \<Rightarrow> u8 list \<Rightarrow> u8 list" where
  "vmm_bitmap_set index bm = bm[index div 8 := bm ! (index div 8) OR push_bit (index mod 8) 1]"

definition vmm_bitmap_clear :: "nat \<Rightarrow> u8 list \<Rightarrow> u8 list" where
  "vmm_bitmap_clear index bm = bm[index div 8 := bm ! (index div 8) AND NOT (push_bit (index mod 8) 1)]"

definition vmm_bitmap_test :: "nat \<Rightarrow> u8 list \<Rightarrow> bool" where
  "vmm_bitmap_test index bm \<longleftrightarrow> bm ! (index div 8) AND push_bit (index mod 8) 1 \<noteq> 0"

definition kernel_vmm_initialize :: "vmm \<Rightarrow> bool \<times> vmm" where
  "kernel_vmm_initialize s =
     (True, s\<lparr>vmm_bitmap := replicate VMM_BITMAP_SIZE 0, vmm_last_search_index := 0, vmm_initialized := True\<rparr>)"

section \<open>Reserving virtual pages\<close>

text \<open>
  The search loop: at a candidate start \<open>i\<close> the inner loop stops at the first page in use and the outer
  one resumes behind it.
\<close>

function vmm_search :: "u8 list \<Rightarrow> nat \<Rightarrow> nat \<Rightarrow> nat option" where
  "vmm_search bm page_count i =
     (if i \<le> VMM_PAGE_COUNT - page_count then
        case find (\<lambda>j. vmm_bitmap_test (i + j) bm) [0..<page_count] of
          None \<Rightarrow> Some i
        | Some j \<Rightarrow> vmm_search bm page_count (i + j + 1)
      else None)"
  by pat_completeness auto
termination by (relation "measure (\<lambda>(bm, n, i). Suc VMM_PAGE_COUNT - i)") auto

declare vmm_search.simps [simp del]

definition kernel_vmm_reserve_pages :: "u32 \<Rightarrow> vmm \<Rightarrow> u32 \<times> vmm" where
  "kernel_vmm_reserve_pages page_count s =
     (if \<not> vmm_initialized s \<or> page_count = 0 \<or> VMM_PAGE_COUNT < unat page_count then (0, s)
      else case vmm_search (vmm_bitmap s) (unat page_count) 0 of
        None \<Rightarrow> (0, s)
      | Some found \<Rightarrow>
          (KERNEL_VMM_DYNAMIC_START + of_nat found * 4096,
           s\<lparr>vmm_bitmap := fold (\<lambda>i. vmm_bitmap_set (found + i)) [0..<unat page_count] (vmm_bitmap s),
             vmm_last_search_index := of_nat found + page_count\<rparr>))"

definition kernel_vmm_reserve_at :: "u32 \<Rightarrow> u32 \<Rightarrow> vmm \<Rightarrow> (bool \<times> vmm) option" where
  "kernel_vmm_reserve_at virt page_count s =
     (if \<not> vmm_initialized s \<or> virt = 0 \<or> page_count = 0 then Some (False, s)
      else if virt < KERNEL_VMM_DYNAMIC_START \<or> KERNEL_VMM_DYNAMIC_END < virt + page_count * 4096 then Some (False, s)
      else let start_index = unat (virt - KERNEL_VMM_DYNAMIC_START) div 4096 in
        case find (\<lambda>i. start_index + i \<ge> VMM_PAGE_COUNT \<or> vmm_bitmap_test (start_index + i) (vmm_bitmap s)) [0..<unat page_count] of
          Some i \<Rightarrow> if start_index + i \<ge> VMM_PAGE_COUNT then None else Some (False, s)
        | None \<Rightarrow> Some (True, s\<lparr>vmm_bitmap := fold (\<lambda>i. vmm_bitmap_set (start_index + i)) [0..<unat page_count] (vmm_bitmap s)\<rparr>))"

section \<open>Allocating and freeing\<close>

definition with_pmm :: "pmm_state \<Rightarrow> vmm \<Rightarrow> vmm" where
  "with_pmm m s = s\<lparr>space := (space s)\<lparr>pmm := m\<rparr>\<rparr>"

fun vmm_free_loop :: "build_flags \<Rightarrow> numa_state \<Rightarrow> u32 \<Rightarrow> nat \<Rightarrow> nat list \<Rightarrow> vmm \<Rightarrow> vmm option" where
  "vmm_free_loop cfg numa virt_start start_index [] s = Some s"
| "vmm_free_loop cfg numa virt_start start_index (i # rest) s =
     (let virt = virt_start + of_nat i * 4096 in do {
       s \<leftarrow> (case paging_get_physical_address virt (space s) of
               None \<Rightarrow> Some s
             | Some phys \<Rightarrow> do {
                 m \<leftarrow> physical_memory_manager_page_frame_free cfg numa phys (pmm (space s));
                 Some (with_pmm m s)
               });
       (unmapped, sp) \<leftarrow> paging_unmap_page cfg numa virt (space s);
       let s = s\<lparr>space := sp\<rparr>;
       if start_index + i \<ge> VMM_PAGE_COUNT then None
       else vmm_free_loop cfg numa virt_start start_index rest
              (s\<lparr>vmm_bitmap := vmm_bitmap_clear (start_index + i) (vmm_bitmap s)\<rparr>)
     })"

definition kernel_vmm_free_pages :: "build_flags \<Rightarrow> numa_state \<Rightarrow> u32 \<Rightarrow> u32 \<Rightarrow> vmm \<Rightarrow> vmm option" where
  "kernel_vmm_free_pages cfg numa ptr page_count s =
     (if \<not> vmm_initialized s \<or> ptr = 0 \<or> page_count = 0 then Some s
      else if ptr < KERNEL_VMM_DYNAMIC_START \<or> KERNEL_VMM_DYNAMIC_END \<le> ptr then Some s
      else vmm_free_loop cfg numa ptr (unat (ptr - KERNEL_VMM_DYNAMIC_START) div 4096) [0..<unat page_count] s)"

fun vmm_alloc_loop :: "build_flags \<Rightarrow> numa_state \<Rightarrow> u32 \<Rightarrow> u32 \<Rightarrow> nat list \<Rightarrow> vmm \<Rightarrow> (u32 \<times> vmm) option" where
  "vmm_alloc_loop cfg numa local_node virt_base [] s = Some (virt_base, s)"
| "vmm_alloc_loop cfg numa local_node virt_base (i # rest) s = do {
     (phys, m) \<leftarrow> physical_memory_manager_page_frame_allocate cfg numa local_node (pmm (space s));
     let s = with_pmm m s;
     if phys = 0 then do {
       s \<leftarrow> kernel_vmm_free_pages cfg numa virt_base (of_nat i) s;
       Some (0, s)
     }
     else do {
       (ok, sp) \<leftarrow> paging_map_page cfg numa local_node (virt_base + of_nat i * 4096) phys 3 3 (space s);
       let s = s\<lparr>space := sp\<rparr>;
       if \<not> ok then do {
         m \<leftarrow> physical_memory_manager_page_frame_free cfg numa phys (pmm (space s));
         s \<leftarrow> kernel_vmm_free_pages cfg numa virt_base (of_nat i) (with_pmm m s);
         Some (0, s)
       }
       else vmm_alloc_loop cfg numa local_node virt_base rest s
     }
   }"

definition kernel_vmm_alloc_pages :: "build_flags \<Rightarrow> numa_state \<Rightarrow> u32 \<Rightarrow> u32 \<Rightarrow> vmm \<Rightarrow> (u32 \<times> vmm) option" where
  "kernel_vmm_alloc_pages cfg numa local_node page_count s =
     (let (virt_base, s) = kernel_vmm_reserve_pages page_count s in
      if virt_base = 0 then Some (0, s)
      else vmm_alloc_loop cfg numa local_node virt_base [0..<unat page_count] s)"

section \<open>The bitmap as a set of pages\<close>

definition reserved :: "u8 list \<Rightarrow> nat set" where
  "reserved bm = {i. i < VMM_PAGE_COUNT \<and> vmm_bitmap_test i bm}"

lemma bitmap_test_bit: "vmm_bitmap_test i bm = bit (bm ! (i div 8)) (i mod 8)"
proof -
  let ?w = "bm ! (i div 8)"
  have "?w AND push_bit (i mod 8) 1 = (if bit ?w (i mod 8) then push_bit (i mod 8) 1 else 0)"
    by (rule bit_eqI) (auto simp: bit_simps)
  moreover have "bit (push_bit (i mod 8) 1 :: u8) (i mod 8)" by (simp add: bit_simps)
  ultimately show ?thesis by (auto simp: vmm_bitmap_test_def simp del: push_bit_of_1)
qed

lemma bitmap_ops:
  assumes "length bm = VMM_BITMAP_SIZE" "i < VMM_PAGE_COUNT"
  shows "length (vmm_bitmap_set i bm) = VMM_BITMAP_SIZE" "length (vmm_bitmap_clear i bm) = VMM_BITMAP_SIZE"
    "j < VMM_PAGE_COUNT \<Longrightarrow> vmm_bitmap_test j (vmm_bitmap_set i bm) = (j = i \<or> vmm_bitmap_test j bm)"
    "j < VMM_PAGE_COUNT \<Longrightarrow> vmm_bitmap_test j (vmm_bitmap_clear i bm) = (j \<noteq> i \<and> vmm_bitmap_test j bm)"
proof -
  show "length (vmm_bitmap_set i bm) = VMM_BITMAP_SIZE" "length (vmm_bitmap_clear i bm) = VMM_BITMAP_SIZE"
    using assms(1) by (simp_all add: vmm_bitmap_set_def vmm_bitmap_clear_def)
  assume j: "j < VMM_PAGE_COUNT"
  have same: "i div 8 = j div 8 \<and> i mod 8 = j mod 8 \<longleftrightarrow> j = i" by (metis div_mult_mod_eq)
  have "i div 8 < VMM_BITMAP_SIZE" "j div 8 < VMM_BITMAP_SIZE" using assms(2) j by auto
  then show "vmm_bitmap_test j (vmm_bitmap_set i bm) = (j = i \<or> vmm_bitmap_test j bm)"
    "vmm_bitmap_test j (vmm_bitmap_clear i bm) = (j \<noteq> i \<and> vmm_bitmap_test j bm)"
    using assms(1) same
    by (auto simp: bitmap_test_bit vmm_bitmap_set_def vmm_bitmap_clear_def nth_list_update bit_simps)
qed

lemma reserved_set:
  assumes "length bm = VMM_BITMAP_SIZE" "i < VMM_PAGE_COUNT"
  shows "reserved (vmm_bitmap_set i bm) = insert i (reserved bm)" "reserved (vmm_bitmap_clear i bm) = reserved bm - {i}"
  using bitmap_ops(3,4) [OF assms] assms(2) by (auto simp: reserved_def)

lemma reserved_fold:
  "length bm = VMM_BITMAP_SIZE \<Longrightarrow> k + n \<le> VMM_PAGE_COUNT \<Longrightarrow>
   length (fold (\<lambda>i. vmm_bitmap_set (k + i)) [0..<n] bm) = VMM_BITMAP_SIZE \<and>
   reserved (fold (\<lambda>i. vmm_bitmap_set (k + i)) [0..<n] bm) = reserved bm \<union> {k..<k + n}"
proof (induction n)
  case (Suc n)
  then have "length (fold (\<lambda>i. vmm_bitmap_set (k + i)) [0..<n] bm) = VMM_BITMAP_SIZE" "k + n < VMM_PAGE_COUNT"
    "reserved (fold (\<lambda>i. vmm_bitmap_set (k + i)) [0..<n] bm) = reserved bm \<union> {k..<k + n}" by simp_all
  then show ?case using reserved_set(1) bitmap_ops(1) by auto
qed simp

text \<open>First fit, as a specification: the least start of a free run that fits the window.\<close>

definition free_at :: "u8 list \<Rightarrow> nat \<Rightarrow> nat \<Rightarrow> bool" where
  "free_at bm n k \<longleftrightarrow> {k..<k + n} \<inter> reserved bm = {}"

definition first_fit :: "u8 list \<Rightarrow> nat \<Rightarrow> nat option" where
  "first_fit bm n = find (free_at bm n) [0..<Suc VMM_PAGE_COUNT - n]"

lemma search_first_fit:
  assumes "0 < n" "n \<le> VMM_PAGE_COUNT" "\<forall>k < i. k \<le> VMM_PAGE_COUNT - n \<longrightarrow> \<not> free_at bm n k"
  shows "vmm_search bm n i = first_fit bm n"
  using assms
proof (induction bm n i rule: vmm_search.induct)
  case (1 bm n i)
  show ?case
  proof (cases "i \<le> VMM_PAGE_COUNT - n")
    case False
    then have "\<not> free_at bm n k" if "k < Suc VMM_PAGE_COUNT - n" for k using "1.prems"(3) that by auto
    then have "first_fit bm n = None" by (auto simp: first_fit_def find_None_iff)
    then show ?thesis using False by (simp add: vmm_search.simps [of bm n i])
  next
    case True
    show ?thesis
    proof (cases "find (\<lambda>j. vmm_bitmap_test (i + j) bm) [0..<n]")
      case None
      then have "free_at bm n i" using True "1.prems"(2)
        by (auto simp: find_None_iff free_at_def reserved_def) (metis le_add_diff_inverse nat_add_left_cancel_less)
      then have "first_fit bm n = Some i"
        using True "1.prems" unfolding first_fit_def find_Some_iff by (intro exI [of _ i]) auto
      then show ?thesis using None True by (simp add: vmm_search.simps [of bm n i])
    next
      case (Some j)
      then have j: "j < n" "vmm_bitmap_test (i + j) bm" by (auto simp: find_Some_iff)
      then have used: "i + j \<in> reserved bm" using True "1.prems"(2) by (simp add: reserved_def)
      have "\<not> free_at bm n k" if "k < i + j + 1" "k \<le> VMM_PAGE_COUNT - n" for k
      proof (cases "k < i")
        case False
        then have "i + j \<in> {k..<k + n}" using that j(1) by auto
        with used show ?thesis by (auto simp: free_at_def)
      qed (use "1.prems"(3) that in blast)
      then have "vmm_search bm n (i + j + 1) = first_fit bm n" using "1.IH" [OF True Some "1.prems"(1,2)] by blast
      then show ?thesis using Some True by (simp add: vmm_search.simps [of bm n i])
    qed
  qed
qed

text \<open>
  C21 (equivalence): the skipping search of the window finds exactly what a first-fit scan of every start would:
  the least start of a run of free pages of the requested length, or nothing if there is none.
\<close>

theorem vmm_search_is_first_fit:
  assumes "0 < n" "n \<le> VMM_PAGE_COUNT"
  shows "vmm_search bm n 0 = first_fit bm n"
  using assms by (intro search_first_fit) simp_all

theorem vmm_search_is_first_fit_witness:
  "0 < (3::nat) \<and> 3 \<le> VMM_PAGE_COUNT \<and> first_fit (5 # replicate 16383 0) 3 = Some 3"
proof -
  have "[0..<3] = [0, 1, 2::nat]" by (simp add: upt_rec)
  then have "vmm_search (5 # replicate 16383 0) 3 0 = Some 3"
    by (simp add: vmm_search.simps bitmap_test_bit)
  then show ?thesis using vmm_search_is_first_fit [of 3 "5 # replicate 16383 0"] by simp
qed

end
