(* ===== verification/Vmm_Correct.thy ===== *)
theory Vmm_Correct
  imports Vmm
begin

text \<open>
  What allocating and freeing pages of the dynamic window do to the translations, to the bitmap and to the
  frames, over any build of the frame allocator.
\<close>

section \<open>Invariant\<close>

text \<open>
  Page \<open>i\<close> of the window is page \<open>851968 + i\<close> of the address space. The pages of \<open>X\<close> were reserved at a
  fixed address and are mapped by other code; every other mapped page of the window is marked in the
  bitmap and has a frame of its own that neither the paging code nor the frame pool lays claim to.
\<close>

abbreviation window_page :: "nat \<Rightarrow> nat" where "window_page i \<equiv> 851968 + i"

abbreviation window_addr :: "nat \<Rightarrow> u32" where "window_addr i \<equiv> KERNEL_VMM_DYNAMIC_START + of_nat i * 4096"

abbreviation translation :: "nat \<Rightarrow> vmm \<Rightarrow> nat \<Rightarrow> nat option" where
  "translation D s \<equiv> walk (ram (pmm (space s))) D"

definition window_frames :: "nat \<Rightarrow> nat set \<Rightarrow> vmm \<Rightarrow> nat set" where
  "window_frames D X s = {f. \<exists>i. i < VMM_PAGE_COUNT \<and> i \<notin> X \<and> translation D s (window_page i) = Some f}"

definition vmm_inv :: "build_flags \<Rightarrow> numa_state \<Rightarrow> u32 \<Rightarrow> nat \<Rightarrow> nat set \<Rightarrow> vmm \<Rightarrow> bool" where
  "vmm_inv cfg numa local_node D X s \<longleftrightarrow> vmm_initialized s \<and> length (vmm_bitmap s) = VMM_BITMAP_SIZE \<and>
     paging_inv cfg numa local_node D (space s) \<and> X \<subseteq> reserved (vmm_bitmap s) \<and>
     (\<forall>i f. i < VMM_PAGE_COUNT \<and> i \<notin> X \<and> translation D s (window_page i) = Some f \<longrightarrow>
        i \<in> reserved (vmm_bitmap s) \<and> f \<in> held_frames cfg (pmm (space s)) - paging_claims cfg D (space s)) \<and>
     (\<forall>i j f. i < VMM_PAGE_COUNT \<and> j < VMM_PAGE_COUNT \<and> i \<notin> X \<and> j \<notin> X \<and>
        translation D s (window_page i) = Some f \<and> translation D s (window_page j) = Some f \<longrightarrow> i = j)"

definition vmm_frames :: "build_flags \<Rightarrow> nat \<Rightarrow> nat set \<Rightarrow> vmm \<Rightarrow> nat set" where
  "vmm_frames cfg D X s = paging_claims cfg D (space s) \<union> window_frames D X s"

lemma window_addr_page:
  assumes "k < VMM_PAGE_COUNT"
  shows "unat (window_addr k) = 4096 * window_page k" "page_of (window_addr k) = window_page k" "PAGE_OFFSET (window_addr k) = 0"
    "unat (window_addr k - KERNEL_VMM_DYNAMIC_START) div 4096 = k" "KERNEL_VMM_DYNAMIC_START \<le> window_addr k"
    "window_addr k < KERNEL_VMM_DYNAMIC_END" "window_addr k \<noteq> 0"
proof -
  have m: "unat (of_nat k * 4096 :: u32) = 4096 * k"
    using assms by (simp add: unat_word_ariths unsigned_of_nat take_bit_nat_eq_self)
  then show u: "unat (window_addr k) = 4096 * window_page k" using assms by (simp add: unat_word_ariths)
  then show "page_of (window_addr k) = window_page k" by (simp add: page_of_def)
  have "unat (PAGE_OFFSET (window_addr k)) = 0"
    using u unat_and_ones [of "window_addr k" 12] by (simp add: PAGE_OFFSET_def)
  then show "PAGE_OFFSET (window_addr k) = 0" by (simp add: unat_eq_0)
  show "unat (window_addr k - KERNEL_VMM_DYNAMIC_START) div 4096 = k" using m by simp
  show "KERNEL_VMM_DYNAMIC_START \<le> window_addr k" "window_addr k < KERNEL_VMM_DYNAMIC_END" using u assms
    by (simp_all add: word_le_nat_alt word_less_nat_alt)
  show "window_addr k \<noteq> 0" using u by auto
qed

lemma window_addr_add: "window_addr k + of_nat i * 4096 = window_addr (k + i)"
  by (simp add: algebra_simps)

section \<open>One page\<close>

lemma inv_parts:
  assumes "vmm_inv cfg numa ln D X s"
  shows "vmm_initialized s" "length (vmm_bitmap s) = VMM_BITMAP_SIZE" "paging_inv cfg numa ln D (space s)"
    "X \<subseteq> reserved (vmm_bitmap s)"
    "i < VMM_PAGE_COUNT \<Longrightarrow> i \<notin> X \<Longrightarrow> translation D s (window_page i) = Some f \<Longrightarrow>
       i \<in> reserved (vmm_bitmap s) \<and> f \<in> held_frames cfg (pmm (space s)) - paging_claims cfg D (space s)"
  using assms unfolding vmm_inv_def by blast+

lemma space_translate:
  assumes "paging_inv cfg numa ln D p"
  shows "paging_get_physical_address v p = map_option (\<lambda>f. frame_addr f OR PAGE_OFFSET v) (walk (ram (pmm p)) D (page_of v))"
  using assms by (intro translate_walk) (simp_all add: paging_inv_def tables_ok_def)

text \<open>The frame of a page goes back to the pool and the page is unmapped.\<close>

lemma release_page:
  assumes inv: "vmm_inv cfg numa ln D X s" and k: "k < VMM_PAGE_COUNT" "k \<notin> X"
  defines "F \<equiv> {f. translation D s (window_page k) = Some f}"
  obtains t where "(case paging_get_physical_address (window_addr k) (space s) of None \<Rightarrow> Some s
      | Some phys \<Rightarrow> (physical_memory_manager_page_frame_free cfg numa phys (pmm (space s)) \<bind> (\<lambda>m. Some (with_pmm m s)))) = Some t"
    "vmm_bitmap t = vmm_bitmap s" "vmm_initialized t" "paging_inv cfg numa ln D (space t)"
    "\<forall>n. translation D t n = translation D s n" "paging_claims cfg D (space t) = F \<union> paging_claims cfg D (space s)"
    "held_frames cfg (pmm (space t)) = held_frames cfg (pmm (space s)) - F"
proof -
  let ?w = "translation D s (window_page k)"
  have p: "paging_inv cfg numa ln D (space s)" by (rule inv_parts(3) [OF inv])
  show thesis
  proof (cases ?w)
    case None
    then show thesis
      using that [of s] inv_parts(1,3) [OF inv] window_addr_page(2) [OF k(1)] by (simp add: space_translate [OF p] F_def)
  next
    case (Some f)
    then have "f \<in> held_frames cfg (pmm (space s)) - paging_claims cfg D (space s)" using inv_parts(5) [OF inv k] by blast
    from client_release [OF p this] obtain m where m:
      "physical_memory_manager_page_frame_free cfg numa (frame_addr f) (pmm (space s)) = Some m"
      "paging_inv cfg numa ln D ((space s)\<lparr>pmm := m\<rparr>)" "\<forall>n. walk (ram m) D n = walk (ram (pmm (space s))) D n"
      "paging_claims cfg D ((space s)\<lparr>pmm := m\<rparr>) = insert f (paging_claims cfg D (space s))"
      "held_frames cfg m = held_frames cfg (pmm (space s)) - {f}" by blast
    show thesis
      using that [of "with_pmm m s"] Some m inv_parts(1) [OF inv] window_addr_page(2,3) [OF k(1)]
      by (simp add: space_translate [OF p] F_def with_pmm_def)
  qed
qed

lemma free_page:
  assumes inv: "vmm_inv cfg numa ln D X s" and k: "k < VMM_PAGE_COUNT" "k \<notin> X"
    and bm: "length bm = VMM_BITMAP_SIZE" "reserved (vmm_bitmap s) - {k} \<subseteq> reserved bm"
  obtains t sp b where
    "(case paging_get_physical_address (window_addr k) (space s) of None \<Rightarrow> Some s
      | Some phys \<Rightarrow> (physical_memory_manager_page_frame_free cfg numa phys (pmm (space s)) \<bind> (\<lambda>m. Some (with_pmm m s)))) = Some t"
    "paging_unmap_page cfg numa (window_addr k) (space t) = Some (b, sp)"
    "vmm_bitmap t = vmm_bitmap s"
    "vmm_inv cfg numa ln D X (t\<lparr>space := sp, vmm_bitmap := bm\<rparr>)"
    "\<forall>n. walk (ram (pmm sp)) D n = (if n = window_page k then None else translation D s n)"
    "vmm_frames cfg D X (t\<lparr>space := sp, vmm_bitmap := bm\<rparr>) = vmm_frames cfg D X s"
proof -
  define F where "F = {f. translation D s (window_page k) = Some f}"
  obtain t where t: "(case paging_get_physical_address (window_addr k) (space s) of None \<Rightarrow> Some s
      | Some phys \<Rightarrow> (physical_memory_manager_page_frame_free cfg numa phys (pmm (space s)) \<bind> (\<lambda>m. Some (with_pmm m s)))) = Some t"
    "vmm_bitmap t = vmm_bitmap s" "vmm_initialized t" "paging_inv cfg numa ln D (space t)"
    "\<forall>n. translation D t n = translation D s n" "paging_claims cfg D (space t) = F \<union> paging_claims cfg D (space s)"
    "held_frames cfg (pmm (space t)) = held_frames cfg (pmm (space s)) - F"
    by (rule release_page [OF inv k, folded F_def]) (rule that)
  obtain b sp where u: "paging_unmap_page cfg numa (window_addr k) (space t) = Some (b, sp)" "paging_inv cfg numa ln D sp"
    "keeps_clients cfg D (space t) sp" "\<forall>n. walk (ram (pmm sp)) D n = (if n = window_page k then None else translation D t n)"
    using unmap_page_effect [OF t(4), of "window_addr k"] window_addr_page(2) [OF k(1)] by auto
  let ?t = "t\<lparr>space := sp, vmm_bitmap := bm\<rparr>"
  have w: "translation D ?t n = (if n = window_page k then None else translation D s n)" for n using u(4) t(5) by simp
  have c: "paging_claims cfg D sp = F \<union> paging_claims cfg D (space s)"
    "held_frames cfg (pmm (space s)) - F - paging_claims cfg D (space s) \<subseteq> held_frames cfg (pmm sp)"
    using u(3) t(6,7) unfolding keeps_clients_def by auto
  have other: "f \<notin> F" if "i < VMM_PAGE_COUNT" "i \<notin> X" "i \<noteq> k" "translation D s (window_page i) = Some f" for i f
    using inv k that unfolding vmm_inv_def F_def by blast
  have "vmm_inv cfg numa ln D X ?t"
    unfolding vmm_inv_def w
  proof (intro conjI allI impI; (elim conjE)?)
    fix i f assume i: "i < VMM_PAGE_COUNT" "i \<notin> X" "(if window_page i = window_page k then None else translation D s (window_page i)) = Some f"
    then have ik: "i \<noteq> k" "translation D s (window_page i) = Some f" by (auto split: if_splits)
    show "i \<in> reserved (vmm_bitmap ?t)" using inv_parts(5) [OF inv i(1,2) ik(2)] ik(1) bm(2) by auto
    show "f \<in> held_frames cfg (pmm (space ?t)) - paging_claims cfg D (space ?t)"
      using inv_parts(5) [OF inv i(1,2) ik(2)] other [OF i(1,2) ik] c by auto
  next
    fix i j f
    assume "i < VMM_PAGE_COUNT" "j < VMM_PAGE_COUNT" "i \<notin> X" "j \<notin> X"
      "(if window_page i = window_page k then None else translation D s (window_page i)) = Some f"
      "(if window_page j = window_page k then None else translation D s (window_page j)) = Some f"
    then show "i = j" using inv unfolding vmm_inv_def by (metis option.distinct(1))
  qed (use t(3) u(2) bm inv_parts(4) [OF inv] k in auto)
  moreover have "vmm_frames cfg D X ?t = vmm_frames cfg D X s"
    using c(1) w k unfolding vmm_frames_def window_frames_def F_def by auto metis
  ultimately show thesis using that t(1,2) u(1) w by simp
qed

section \<open>Freeing a range\<close>

lemma free_loop:
  assumes "vmm_inv cfg numa ln D X s" "\<forall>i \<in> set is. k + i < VMM_PAGE_COUNT \<and> k + i \<notin> X" "k < VMM_PAGE_COUNT"
  shows "\<exists>s'. vmm_free_loop cfg numa (window_addr k) k is s = Some s' \<and> vmm_inv cfg numa ln D X s' \<and>
    reserved (vmm_bitmap s') = reserved (vmm_bitmap s) - (+) k ` set is \<and> vmm_frames cfg D X s' = vmm_frames cfg D X s \<and>
    (\<forall>n. translation D s' n = (if n \<in> (\<lambda>i. window_page (k + i)) ` set is then None else translation D s n))"
  using assms
proof (induction "is" arbitrary: s)
  case (Cons i "is")
  have ki: "k + i < VMM_PAGE_COUNT" "k + i \<notin> X" using Cons.prems(2) by simp_all
  note bm = inv_parts(2) [OF Cons.prems(1)]
  obtain t sp b where t:
    "(case paging_get_physical_address (window_addr (k + i)) (space s) of None \<Rightarrow> Some s
      | Some phys \<Rightarrow> (physical_memory_manager_page_frame_free cfg numa phys (pmm (space s)) \<bind> (\<lambda>m. Some (with_pmm m s)))) = Some t"
    "paging_unmap_page cfg numa (window_addr (k + i)) (space t) = Some (b, sp)" "vmm_bitmap t = vmm_bitmap s"
    "vmm_inv cfg numa ln D X (t\<lparr>space := sp, vmm_bitmap := vmm_bitmap_clear (k + i) (vmm_bitmap s)\<rparr>)"
    "\<forall>n. walk (ram (pmm sp)) D n = (if n = window_page (k + i) then None else translation D s n)"
    "vmm_frames cfg D X (t\<lparr>space := sp, vmm_bitmap := vmm_bitmap_clear (k + i) (vmm_bitmap s)\<rparr>) = vmm_frames cfg D X s"
    by (rule free_page [OF Cons.prems(1) ki bitmap_ops(2) [OF bm ki(1)]]) (auto simp: reserved_set(2) [OF bm ki(1)] intro: that)
  let ?t = "t\<lparr>space := sp, vmm_bitmap := vmm_bitmap_clear (k + i) (vmm_bitmap s)\<rparr>"
  have step: "vmm_free_loop cfg numa (window_addr k) k (i # is) s = vmm_free_loop cfg numa (window_addr k) k is ?t"
    using t(1-3) ki(1) by (simp only: vmm_free_loop.simps Let_def window_addr_add bind.bind_lunit prod.case) simp
  from Cons.IH [OF t(4)] Cons.prems(2,3) obtain s' where s': "vmm_free_loop cfg numa (window_addr k) k is ?t = Some s'"
    "vmm_inv cfg numa ln D X s'" "reserved (vmm_bitmap s') = reserved (vmm_bitmap ?t) - (+) k ` set is"
    "vmm_frames cfg D X s' = vmm_frames cfg D X ?t"
    "\<forall>n. translation D s' n = (if n \<in> (\<lambda>i. window_page (k + i)) ` set is then None else translation D ?t n)" by auto
  have "reserved (vmm_bitmap ?t) = reserved (vmm_bitmap s) - {k + i}"
    using reserved_set(2) [OF inv_parts(2) [OF Cons.prems(1)] ki(1)] by simp
  then show ?case using step s' t(5,6) by (intro exI [of _ s']) auto
qed simp

lemma free_pages_effect:
  assumes inv: "vmm_inv cfg numa ln D X s" and k: "k + n \<le> VMM_PAGE_COUNT" "k < VMM_PAGE_COUNT" "X \<inter> {k..<k + n} = {}"
  shows "\<exists>s'. kernel_vmm_free_pages cfg numa (window_addr k) (of_nat n) s = Some s' \<and> vmm_inv cfg numa ln D X s' \<and>
    reserved (vmm_bitmap s') = reserved (vmm_bitmap s) - {k..<k + n} \<and> vmm_frames cfg D X s' = vmm_frames cfg D X s \<and>
    (\<forall>p. translation D s' p = (if p \<in> window_page ` {k..<k + n} then None else translation D s p))"
proof (cases "n = 0")
  case True
  then show ?thesis using inv by (simp add: kernel_vmm_free_pages_def)
next
  case False
  have n: "unat (of_nat n :: u32) = n" using k(1) by (simp add: unsigned_of_nat take_bit_nat_eq_self)
  have "(of_nat n :: u32) \<noteq> 0" using False n by (metis unat_0)
  then have e: "kernel_vmm_free_pages cfg numa (window_addr k) (of_nat n) s = vmm_free_loop cfg numa (window_addr k) k [0..<n] s"
    using window_addr_page(4-7) [OF k(2)] inv_parts(1) [OF inv] n by (simp add: kernel_vmm_free_pages_def not_less not_le)
  have "\<forall>i \<in> set [0..<n]. k + i < VMM_PAGE_COUNT \<and> k + i \<notin> X" using k by auto
  from free_loop [OF inv this k(2)] obtain s' where s': "vmm_free_loop cfg numa (window_addr k) k [0..<n] s = Some s'"
    "vmm_inv cfg numa ln D X s'" "reserved (vmm_bitmap s') = reserved (vmm_bitmap s) - (+) k ` set [0..<n]"
    "vmm_frames cfg D X s' = vmm_frames cfg D X s"
    "\<forall>p. translation D s' p = (if p \<in> (\<lambda>i. window_page (k + i)) ` set [0..<n] then None else translation D s p)" by blast
  have a: "(+) k ` set [0..<n] = {k..<k + n}" by (simp add: add.commute)
  then have "(\<lambda>i. window_page (k + i)) ` set [0..<n] = window_page ` {k..<k + n}" unfolding a [symmetric] by (simp only: image_image)
  note a this
  then show ?thesis using s' unfolding e by (metis (no_types, lifting))
qed

section \<open>Allocating a range\<close>

text \<open>
  A state whose address space \<open>sp\<close> has gained the mapping of one marked page, or none, to a frame that came
  from the pool; \<open>L\<close> are the frames that the pool and the paging code have let go.
\<close>

lemma inv_new_space:
  assumes inv: "vmm_inv cfg numa ln D X s" and p: "paging_inv cfg numa ln D sp"
    and w: "\<forall>n. walk (ram (pmm sp)) D n = (if n = window_page k \<and> g then Some f else translation D s n)"
    and c: "paging_claims cfg D sp = paging_claims cfg D (space s) - L"
      "held_frames cfg (pmm (space s)) - paging_claims cfg D (space s) \<subseteq> held_frames cfg (pmm sp)"
    and k: "k < VMM_PAGE_COUNT" "k \<notin> X" "k \<in> reserved (vmm_bitmap s)" "translation D s (window_page k) = None"
    and f: "g \<Longrightarrow> f \<in> held_frames cfg (pmm sp)" "f \<in> paging_claims cfg D (space s)" "L \<subseteq> {f}" "g \<Longrightarrow> f \<in> L"
  shows "vmm_inv cfg numa ln D X (s\<lparr>space := sp\<rparr>)"
    "vmm_frames cfg D X (s\<lparr>space := sp\<rparr>) = vmm_frames cfg D X s - (if g then {} else L)"
proof -
  let ?w = "\<lambda>n. if n = window_page k \<and> g then Some f else translation D s n"
  have w': "walk (ram (pmm (space (s\<lparr>space := sp\<rparr>)))) D n = ?w n" for n using w by simp
  have old: "h \<noteq> f" if "i < VMM_PAGE_COUNT" "i \<notin> X" "translation D s (window_page i) = Some h" for i h
    using inv_parts(5) [OF inv that] f(2) by auto
  show "vmm_inv cfg numa ln D X (s\<lparr>space := sp\<rparr>)"
    unfolding vmm_inv_def w'
  proof (intro conjI allI impI; (elim conjE)?)
    fix i h assume i: "i < VMM_PAGE_COUNT" "i \<notin> X" "?w (window_page i) = Some h"
    show "i \<in> reserved (vmm_bitmap (s\<lparr>space := sp\<rparr>))"
      using i k(3) inv_parts(5) [OF inv i(1,2)] by (auto split: if_splits)
    show "h \<in> held_frames cfg (pmm (space (s\<lparr>space := sp\<rparr>))) - paging_claims cfg D (space (s\<lparr>space := sp\<rparr>))"
      using i(3) inv_parts(5) [OF inv i(1,2)] f c by (auto split: if_splits)
  next
    fix i j h
    assume ij: "i < VMM_PAGE_COUNT" "j < VMM_PAGE_COUNT" "i \<notin> X" "j \<notin> X" "?w (window_page i) = Some h" "?w (window_page j) = Some h"
    show "i = j"
    proof (cases "g \<and> h = f")
      case True
      then show ?thesis using ij old [of i h] old [of j h] by (auto split: if_splits)
    next
      case False
      then have "translation D s (window_page i) = Some h" "translation D s (window_page j) = Some h"
        using ij(5,6) by (auto split: if_splits)
      then show ?thesis using inv ij(1-4) unfolding vmm_inv_def by blast
    qed
  qed (use inv_parts(1,2,4) [OF inv] p in simp_all)
  have "window_frames D X (s\<lparr>space := sp\<rparr>) = window_frames D X s \<union> (if g then {f} else {})"
    unfolding window_frames_def w' using k(1,2,4) by auto (metis option.distinct(1))
  moreover have "f \<notin> window_frames D X s" using old by (auto simp: window_frames_def)
  ultimately show "vmm_frames cfg D X (s\<lparr>space := sp\<rparr>) = vmm_frames cfg D X s - (if g then {} else L)"
    using c(1) f(2-4) by (auto simp: vmm_frames_def)
qed

lemma map_client_page:
  assumes inv: "vmm_inv cfg numa ln D X s" and fl: "entry_present fl"
    and k: "k < VMM_PAGE_COUNT" "k \<notin> X" "k \<in> reserved (vmm_bitmap s)" "translation D s (window_page k) = None"
  obtains (empty) "physical_memory_manager_page_frame_allocate cfg numa ln (pmm (space s)) = Some (0, pmm (space s))"
      "frame_budget cfg (space s) \<le> 1"
  | (refused) f m sp m' where "physical_memory_manager_page_frame_allocate cfg numa ln (pmm (space s)) = Some (frame_addr f, m)"
      "frame_addr f \<noteq> 0" "paging_map_page cfg numa ln (window_addr k) (frame_addr f) 3 fl ((space s)\<lparr>pmm := m\<rparr>) = Some (False, sp)"
      "physical_memory_manager_page_frame_free cfg numa (frame_addr f) (pmm sp) = Some m'"
      "vmm_inv cfg numa ln D X (s\<lparr>space := sp\<lparr>pmm := m'\<rparr>\<rparr>)" "vmm_frames cfg D X (s\<lparr>space := sp\<lparr>pmm := m'\<rparr>\<rparr>) = vmm_frames cfg D X s"
      "\<forall>n. walk (ram m') D n = translation D s n" "frame_budget cfg (space s) \<le> 1"
      "vmm_inv cfg numa ln D X (s\<lparr>space := sp\<rparr>)" "vmm_frames cfg D X (s\<lparr>space := sp\<rparr>) = vmm_frames cfg D X s - {f}"
      "\<forall>n. walk (ram (pmm sp)) D n = translation D s n" "f \<in> vmm_frames cfg D X s"
  | (mapped) f m sp where "physical_memory_manager_page_frame_allocate cfg numa ln (pmm (space s)) = Some (frame_addr f, m)"
      "frame_addr f \<noteq> 0" "paging_map_page cfg numa ln (window_addr k) (frame_addr f) 3 fl ((space s)\<lparr>pmm := m\<rparr>) = Some (True, sp)"
      "vmm_inv cfg numa ln D X (s\<lparr>space := sp\<rparr>)" "vmm_frames cfg D X (s\<lparr>space := sp\<rparr>) = vmm_frames cfg D X s"
      "\<forall>n. walk (ram (pmm sp)) D n = (if n = window_page k then Some f else translation D s n)"
      "present (ram (pmm sp)) D = insert (window_page k div 1024) (present (ram (pmm (space s))) D)"
      "frame_budget cfg (space s) + card (present (ram (pmm (space s))) D) = Suc (frame_budget cfg sp + card (present (ram (pmm sp)) D))"
proof -
  have p: "paging_inv cfg numa ln D (space s)" by (rule inv_parts(3) [OF inv])
  show thesis
  proof (rule client_alloc [OF p])
    assume "physical_memory_manager_page_frame_allocate cfg numa ln (pmm (space s)) = Some (0, pmm (space s))" "pool_frames cfg (pmm (space s)) = {}"
    then show thesis using empty spare_card [of "space s"] by (simp add: frame_budget_def)
  next
    fix f m
    assume a: "physical_memory_manager_page_frame_allocate cfg numa ln (pmm (space s)) = Some (frame_addr f, m)" "frame_addr f \<noteq> 0"
      "0 < f" "f < 262144" "f \<in> pool_frames cfg (pmm (space s))" "paging_inv cfg numa ln D ((space s)\<lparr>pmm := m\<rparr>)"
      "\<forall>n. walk (ram m) D n = translation D s n" "paging_claims cfg D ((space s)\<lparr>pmm := m\<rparr>) = paging_claims cfg D (space s) - {f}"
      "held_frames cfg m = insert f (held_frames cfg (pmm (space s)))" "f \<notin> held_frames cfg (pmm (space s))"
      "pool_frames cfg m = pool_frames cfg (pmm (space s)) - {f}" "present (ram m) D = present (ram (pmm (space s))) D"
    note bud = budget_alloc [OF p a(5,10,11)]
    have bits: "entry_present (3::u32)" by simp
    have fc: "f \<in> paging_claims cfg D (space s)" using a(5) by (simp add: paging_claims_def)
    obtain ok sp where mp: "paging_map_page cfg numa ln (window_addr k) (frame_addr f) 3 fl ((space s)\<lparr>pmm := m\<rparr>) = Some (ok, sp)"
      "paging_inv cfg numa ln D sp" "keeps_clients cfg D ((space s)\<lparr>pmm := m\<rparr>) sp"
      "\<forall>n. walk (ram (pmm sp)) D n = (if ok \<and> n = window_page k then Some f else translation D s n)"
      "ok \<or> frame_budget cfg ((space s)\<lparr>pmm := m\<rparr>) = 0"
      "ok \<Longrightarrow> present (ram (pmm sp)) D = insert (window_page k div 1024) (present (ram m) D)"
      using map_page_effect [OF a(6) bits fl, of "window_addr k" "frame_addr f"] window_addr_page(2) [OF k(1)] a(4,7)
        entry_frame_addr [of f] by (auto simp: frame_budget_def)
    have c: "paging_claims cfg D sp = paging_claims cfg D (space s) - {f}" "f \<in> held_frames cfg (pmm sp)"
      "held_frames cfg (pmm (space s)) - paging_claims cfg D (space s) \<subseteq> held_frames cfg (pmm sp)"
      using mp(3) a(8,9,10) unfolding keeps_clients_def by auto
    show thesis
    proof (cases ok)
      case True
      have n: "vmm_inv cfg numa ln D X (s\<lparr>space := sp\<rparr>)" "vmm_frames cfg D X (s\<lparr>space := sp\<rparr>) = vmm_frames cfg D X s"
        using inv_new_space [OF inv mp(2), of k True f "{f}"] mp(4) c fc k True by auto
      have "card (paging_claims cfg D sp) = card (paging_claims cfg D ((space s)\<lparr>pmm := m\<rparr>))" using mp(3) by (simp add: keeps_clients_def)
      then have "frame_budget cfg (space s) + card (present (ram (pmm (space s))) D) = Suc (frame_budget cfg sp + card (present (ram (pmm sp)) D))"
        unfolding card_claims [OF mp(2)] card_claims [OF a(6)] using bud a(12) by simp
      then show thesis using mapped [OF a(1,2) _ n] mp(1,4) mp(6) a(12) True by simp
    next
      case False
      have "f \<in> held_frames cfg (pmm sp) - paging_claims cfg D sp" using c by auto
      from client_release [OF mp(2) this] obtain m' where m':
        "physical_memory_manager_page_frame_free cfg numa (frame_addr f) (pmm sp) = Some m'"
        "paging_inv cfg numa ln D (sp\<lparr>pmm := m'\<rparr>)" "\<forall>n. walk (ram m') D n = walk (ram (pmm sp)) D n"
        "paging_claims cfg D (sp\<lparr>pmm := m'\<rparr>) = insert f (paging_claims cfg D sp)"
        "held_frames cfg m' = held_frames cfg (pmm sp) - {f}" by blast
      have "paging_claims cfg D (sp\<lparr>pmm := m'\<rparr>) = paging_claims cfg D (space s)" using m'(4) c(1) fc by auto
      moreover have "held_frames cfg (pmm (space s)) - paging_claims cfg D (space s) \<subseteq> held_frames cfg m'"
        using c(3) m'(5) a(10) by auto
      ultimately have n: "vmm_inv cfg numa ln D X (s\<lparr>space := sp\<lparr>pmm := m'\<rparr>\<rparr>)" "vmm_frames cfg D X (s\<lparr>space := sp\<lparr>pmm := m'\<rparr>\<rparr>) = vmm_frames cfg D X s"
        using inv_new_space [OF inv m'(2), of k False f "{}"] m'(3) mp(4) fc k False by simp_all
      have l: "vmm_inv cfg numa ln D X (s\<lparr>space := sp\<rparr>)" "vmm_frames cfg D X (s\<lparr>space := sp\<rparr>) = vmm_frames cfg D X s - {f}"
        using inv_new_space [OF inv mp(2), of k False f "{f}"] mp(4) c(1,3) fc k False by simp_all
      have "f \<in> vmm_frames cfg D X s" using fc by (simp add: vmm_frames_def)
      then show thesis using refused [OF a(1,2) _ m'(1) n _ _ l] mp(1,4,5) m'(3) bud False by simp
    qed
  qed
qed

text \<open>
  How the loop over the pages \<open>j..<n\<close> of the range at \<open>k\<close> ends: the whole rest is mapped, or some page \<open>q\<close> was
  refused and the pages before it are unmapped and unmarked again. The marks from \<open>q\<close> on stay.
\<close>

definition alloc_outcome :: "nat \<Rightarrow> nat \<Rightarrow> nat \<Rightarrow> nat \<Rightarrow> vmm \<Rightarrow> u32 \<Rightarrow> vmm \<Rightarrow> bool" where
  "alloc_outcome D k j n s r s' \<longleftrightarrow>
     (if r = 0 then
        (\<exists>q. j \<le> q \<and> q < n \<and> reserved (vmm_bitmap s') = reserved (vmm_bitmap s) - {k..<k + q} \<and>
           (\<forall>p. translation D s' p = (if p \<in> window_page ` {k..<k + q} then None else translation D s p)))
      else r = window_addr k \<and> vmm_bitmap s' = vmm_bitmap s \<and>
        (\<forall>p. p \<notin> window_page ` {k + j..<k + n} \<longrightarrow> translation D s' p = translation D s p) \<and>
        (\<forall>p \<in> window_page ` {k + j..<k + n}. translation D s' p \<noteq> None))"

lemma alloc_outcome_step:
  assumes o: "alloc_outcome D k (Suc j) n t r s'" and j: "j < n" and b: "vmm_bitmap t = vmm_bitmap s"
    and t: "\<And>p. translation D t p = (if p = window_page (k + j) then Some f else translation D s p)"
  shows "alloc_outcome D k j n s r s'"
proof (cases "r = 0")
  case True
  with o b obtain q where q: "Suc j \<le> q" "q < n" "reserved (vmm_bitmap s') = reserved (vmm_bitmap s) - {k..<k + q}"
    "\<forall>p. translation D s' p = (if p \<in> window_page ` {k..<k + q} then None else translation D t p)" by (auto simp: alloc_outcome_def)
  have "window_page (k + j) \<in> window_page ` {k..<k + q}" using q(1) by auto
  then have "translation D s' p = (if p \<in> window_page ` {k..<k + q} then None else translation D s p)" for p
    unfolding q(4) [rule_format] t by metis
  then show ?thesis using True q(1-3) unfolding alloc_outcome_def by (metis Suc_leD)
next
  case False
  note r = o [unfolded alloc_outcome_def if_not_P [OF False]]
  have range: "window_page ` {k + j..<k + n} = insert (window_page (k + j)) (window_page ` {k + Suc j..<k + n})" using j by force
  have "translation D s' p = translation D t p" if "p \<notin> window_page ` {k + Suc j..<k + n}" for p using r that by blast
  then have "translation D s' (window_page (k + j)) = Some f"
    "p \<notin> window_page ` {k + j..<k + n} \<Longrightarrow> translation D s' p = translation D s p" for p
    unfolding range t by auto
  then show ?thesis using r False b unfolding range alloc_outcome_def by simp
qed

text \<open>The directory entries that the pages \<open>j..<n\<close> of the range at \<open>k\<close> need.\<close>

definition range_tables :: "nat \<Rightarrow> nat \<Rightarrow> nat \<Rightarrow> nat set" where
  "range_tables k j n = (\<lambda>i. window_page (k + i) div 1024) ` {j..<n}"

lemma range_tables_step:
  assumes "j < n" "P' = insert (window_page (k + j) div 1024) P" "finite P"
  shows "card (range_tables k j n - P) + card P = card (range_tables k (Suc j) n - P') + card P'"
proof -
  let ?d = "window_page (k + j) div 1024" and ?R = "range_tables k (Suc j) n"
  have R: "range_tables k j n = insert ?d ?R" 
  proof -
    have "{j..<n} = insert j {Suc j..<n}" using assms(1) by auto
    then show ?thesis unfolding range_tables_def by simp
  qed
  have fin: "finite ?R" by (simp add: range_tables_def)
  show ?thesis
  proof (cases "?d \<in> P")
    case True
    then show ?thesis unfolding R assms(2) by (simp add: insert_absorb)
  next
    case False
    then have "insert ?d ?R - P = insert ?d (?R - P')" "?d \<notin> ?R - P'" unfolding assms(2) by auto
    then show ?thesis unfolding R using fin assms(2,3) False by simp
  qed
qed

lemma alloc_loop:
  assumes "vmm_inv cfg numa ln D X s" "j \<le> n" "k + n \<le> VMM_PAGE_COUNT" "k < VMM_PAGE_COUNT" "X \<inter> {k..<k + n} = {}"
    "{k..<k + n} \<subseteq> reserved (vmm_bitmap s)" "\<forall>i \<in> {j..<n}. translation D s (window_page (k + i)) = None"
  shows "\<exists>r s'. vmm_alloc_loop cfg numa ln (window_addr k) [j..<n] s = Some (r, s') \<and> vmm_inv cfg numa ln D X s' \<and>
    vmm_frames cfg D X s' = vmm_frames cfg D X s \<and> alloc_outcome D k j n s r s' \<and>
    (n - j + card (range_tables k j n - present (ram (pmm (space s))) D) < frame_budget cfg (space s) \<longrightarrow> r \<noteq> 0)"
  using assms
proof (induction "n - j" arbitrary: j s)
  case 0
  then show ?case using window_addr_page(7) [OF "0.prems"(4)] by (simp add: alloc_outcome_def)
next
  case (Suc x)
  then have jn: "j < n" and list: "[j..<n] = j # [Suc j..<n]" by (simp_all add: upt_conv_Cons)
  have kj: "k + j < VMM_PAGE_COUNT" "k + j \<notin> X" "k + j \<in> reserved (vmm_bitmap s)" "translation D s (window_page (k + j)) = None"
    using Suc.prems jn by auto
  have undo: "\<exists>t'. kernel_vmm_free_pages cfg numa (window_addr k) (of_nat j) t = Some t' \<and> vmm_inv cfg numa ln D X t' \<and>
      vmm_frames cfg D X t' = vmm_frames cfg D X s \<and> alloc_outcome D k j n s 0 t'"
    if "vmm_inv cfg numa ln D X t" "vmm_frames cfg D X t = vmm_frames cfg D X s" "vmm_bitmap t = vmm_bitmap s"
      "\<forall>p. translation D t p = translation D s p" for t
  proof -
    have "k + j \<le> VMM_PAGE_COUNT" "X \<inter> {k..<k + j} = {}" using Suc.prems jn by auto
    from free_pages_effect [OF that(1) this(1) Suc.prems(4) this(2)] that(2-4) jn show ?thesis
      unfolding alloc_outcome_def if_P [OF refl] by (metis order_refl)
  qed
  show ?case
  proof (cases rule: map_client_page [OF Suc.prems(1) _ kj, where fl = 3, case_names bits empty refused mapped])
    case bits
    show ?case by simp
  next
    case empty
    have s: "with_pmm (pmm (space s)) s = s" by (simp add: with_pmm_def)
    from undo [of s] Suc.prems(1) obtain t' where t': "kernel_vmm_free_pages cfg numa (window_addr k) (of_nat j) s = Some t'"
      "vmm_inv cfg numa ln D X t'" "vmm_frames cfg D X t' = vmm_frames cfg D X s" "alloc_outcome D k j n s 0 t'" by blast
    have "vmm_alloc_loop cfg numa ln (window_addr k) [j..<n] s = Some (0, t')"
      unfolding list using empty t'(1) s by simp
    then show ?thesis using t'(2-4) empty(2) jn by auto
  next
    case (refused f m sp m')
    from undo [of "s\<lparr>space := sp\<lparr>pmm := m'\<rparr>\<rparr>"] refused(5-7) obtain t' where t':
      "kernel_vmm_free_pages cfg numa (window_addr k) (of_nat j) (s\<lparr>space := sp\<lparr>pmm := m'\<rparr>\<rparr>) = Some t'"
      "vmm_inv cfg numa ln D X t'" "vmm_frames cfg D X t' = vmm_frames cfg D X s" "alloc_outcome D k j n s 0 t'" by auto
    have "vmm_alloc_loop cfg numa ln (window_addr k) [j..<n] s = Some (0, t')"
      unfolding list using refused(1-4) t'(1) by (simp add: with_pmm_def window_addr_add)
    then show ?thesis using t'(2-4) refused(8) jn by auto
  next
    case (mapped f m sp)
    let ?t = "s\<lparr>space := sp\<rparr>"
    have step: "vmm_alloc_loop cfg numa ln (window_addr k) [j..<n] s = vmm_alloc_loop cfg numa ln (window_addr k) [Suc j..<n] ?t"
      unfolding list using mapped(1-3) by (simp add: with_pmm_def window_addr_add)
    have new: "\<forall>i \<in> {Suc j..<n}. translation D ?t (window_page (k + i)) = None" using mapped(6) Suc.prems(7) by simp
    have x: "x = n - Suc j" "Suc j \<le> n" "{k..<k + n} \<subseteq> reserved (vmm_bitmap ?t)" using Suc.hyps(2) jn Suc.prems(6) by simp_all
    have sp: "space ?t = sp" by simp
    have "finite (present (ram (pmm (space s))) D)" by (simp add: present_def)
    note need = range_tables_step [OF jn mapped(7) this]
    have less: "n - Suc j + card (range_tables k (Suc j) n - present (ram (pmm sp)) D) < frame_budget cfg sp"
      if "n - j + card (range_tables k j n - present (ram (pmm (space s))) D) < frame_budget cfg (space s)"
      using that need mapped(8) jn by linarith
    show ?thesis
      using Suc.hyps(1) [OF x(1) mapped(4) x(2) Suc.prems(3-5) x(3) new, unfolded sp] step mapped(5) less
        alloc_outcome_step [OF _ jn, of D k ?t _ _ s f] mapped(6) by auto
  qed
qed

section \<open>Reserving and allocating\<close>

lemma reserve_effect:
  assumes inv: "vmm_inv cfg numa ln D X s" and n: "0 < n" "n \<le> VMM_PAGE_COUNT" and f: "first_fit (vmm_bitmap s) n = Some k"
  obtains s' where "kernel_vmm_reserve_pages (of_nat n) s = (window_addr k, s')" "vmm_inv cfg numa ln D X s'" "space s' = space s"
    "reserved (vmm_bitmap s') = reserved (vmm_bitmap s) \<union> {k..<k + n}" "k + n \<le> VMM_PAGE_COUNT" "k < VMM_PAGE_COUNT"
    "free_at (vmm_bitmap s) n k" "X \<inter> {k..<k + n} = {}" "\<forall>i \<in> {k..<k + n}. translation D s (window_page i) = None"
proof -
  let ?b = "fold (\<lambda>i. vmm_bitmap_set (k + i)) [0..<n] (vmm_bitmap s)"
  let ?s = "s\<lparr>vmm_bitmap := ?b, vmm_last_search_index := of_nat k + of_nat n\<rparr>"
  have u: "unat (of_nat n :: u32) = n" using n(2) by (simp add: unsigned_of_nat take_bit_nat_eq_self)
  have n0: "(of_nat n :: u32) \<noteq> 0" using n(1) u by (metis unat_0 less_irrefl)
  have k: "k + n \<le> VMM_PAGE_COUNT" "free_at (vmm_bitmap s) n k" using f n by (auto simp: first_fit_def find_Some_iff nth_append)
  have k': "k < VMM_PAGE_COUNT" using k(1) n(1) by simp
  have "vmm_search (vmm_bitmap s) n 0 = Some k" using search_first_fit [OF n, of 0] f by simp
  then have e: "kernel_vmm_reserve_pages (of_nat n) s = (window_addr k, ?s)"
    using inv_parts(1) [OF inv] n u n0 by (simp add: kernel_vmm_reserve_pages_def not_less)
  note b = reserved_fold [OF inv_parts(2) [OF inv] k(1)]
  have "vmm_inv cfg numa ln D X ?s" using inv b unfolding vmm_inv_def by auto
  moreover have "X \<inter> {k..<k + n} = {}" using k(2) inv_parts(4) [OF inv] by (auto simp: free_at_def)
  moreover from this have "\<forall>i \<in> {k..<k + n}. translation D s (window_page i) = None"
    using inv_parts(5) [OF inv] k unfolding free_at_def by (metis atLeastLessThan_iff disjoint_iff less_le_trans not_Some_eq)
  ultimately show thesis using that e b k k' by simp
qed

lemma reserve_refused:
  assumes "n = 0 \<or> VMM_PAGE_COUNT < n \<or> first_fit (vmm_bitmap s) n = None" "n < 4294967296"
  shows "kernel_vmm_reserve_pages (of_nat n) s = (0, s)"
proof (cases "n = 0 \<or> VMM_PAGE_COUNT < n")
  case False
  have "unat (of_nat n :: u32) = n" using assms(2) by (simp add: unsigned_of_nat take_bit_nat_eq_self)
  then show ?thesis using False assms(1) search_first_fit [of n 0 "vmm_bitmap s"] by (simp add: kernel_vmm_reserve_pages_def)
qed (use assms(2) in \<open>auto simp: kernel_vmm_reserve_pages_def unsigned_of_nat take_bit_nat_eq_self\<close>)

lemma alloc_effect:
  assumes inv: "vmm_inv cfg numa ln D X s" and n: "0 < n" "n \<le> VMM_PAGE_COUNT" and f: "first_fit (vmm_bitmap s) n = Some k"
  obtains r t s' where "kernel_vmm_alloc_pages cfg numa ln (of_nat n) s = Some (r, s')" "vmm_inv cfg numa ln D X s'"
    "vmm_frames cfg D X s' = vmm_frames cfg D X s" "alloc_outcome D k 0 n t r s'" "space t = space s"
    "reserved (vmm_bitmap t) = reserved (vmm_bitmap s) \<union> {k..<k + n}" "k + n \<le> VMM_PAGE_COUNT" "free_at (vmm_bitmap s) n k"
    "X \<inter> {k..<k + n} = {}" "\<forall>i \<in> {k..<k + n}. translation D s (window_page i) = None"
    "n + card (range_tables k 0 n - present (ram (pmm (space s))) D) < frame_budget cfg (space s) \<Longrightarrow> r \<noteq> 0"
    "kernel_vmm_alloc_pages cfg numa ln (of_nat n) s = vmm_alloc_loop cfg numa ln (window_addr k) [0..<n] t"
proof (rule reserve_effect [OF inv n f])
  fix t assume t: "kernel_vmm_reserve_pages (of_nat n) s = (window_addr k, t)" "vmm_inv cfg numa ln D X t" "space t = space s"
    "reserved (vmm_bitmap t) = reserved (vmm_bitmap s) \<union> {k..<k + n}" "k + n \<le> VMM_PAGE_COUNT" "k < VMM_PAGE_COUNT"
    "free_at (vmm_bitmap s) n k" "X \<inter> {k..<k + n} = {}" "\<forall>i \<in> {k..<k + n}. translation D s (window_page i) = None"
  have u: "unat (of_nat n :: u32) = n" using n(2) by (simp add: unsigned_of_nat take_bit_nat_eq_self)
  have e: "kernel_vmm_alloc_pages cfg numa ln (of_nat n) s = vmm_alloc_loop cfg numa ln (window_addr k) [0..<n] t"
    using t(1) window_addr_page(7) [OF t(6)] u by (simp add: kernel_vmm_alloc_pages_def)
  have "{k..<k + n} \<subseteq> reserved (vmm_bitmap t)" "\<forall>i \<in> {0..<n}. translation D t (window_page (k + i)) = None" using t(3,4,9) by auto
  from alloc_loop [OF t(2) le0 t(5,6,8) this] obtain r s' where r: "vmm_alloc_loop cfg numa ln (window_addr k) [0..<n] t = Some (r, s')"
    "vmm_inv cfg numa ln D X s'" "vmm_frames cfg D X s' = vmm_frames cfg D X t" "alloc_outcome D k 0 n t r s'"
    "n + card (range_tables k 0 n - present (ram (pmm (space s))) D) < frame_budget cfg (space s) \<Longrightarrow> r \<noteq> 0" using t(3) by auto
  have "vmm_frames cfg D X t = vmm_frames cfg D X s" using t(3) by (simp add: vmm_frames_def window_frames_def)
  then show thesis using that [OF _ r(2) _ r(4) t(3,4,5,7,8,9) r(5) e] r(1,3) e by simp
qed

text \<open>An outcome in the shape the properties use.\<close>

lemma outcome_cases:
  assumes "alloc_outcome D k 0 n t r s'" "space t = space s" "\<forall>i \<in> {k..<k + n}. translation D s (window_page i) = None"
    "reserved (vmm_bitmap t) = reserved (vmm_bitmap s) \<union> {k..<k + n}"
  obtains (refused) q where "r = 0" "q < n" "\<forall>p. translation D s' p = translation D s p"
      "reserved (vmm_bitmap s') = reserved (vmm_bitmap s) \<union> {k..<k + n} - {k..<k + q}"
  | (granted) "r = window_addr k" "r \<noteq> 0" "reserved (vmm_bitmap s') = reserved (vmm_bitmap s) \<union> {k..<k + n}"
      "\<forall>p. p \<notin> window_page ` {k..<k + n} \<longrightarrow> translation D s' p = translation D s p"
      "\<forall>p \<in> window_page ` {k..<k + n}. translation D s' p \<noteq> None"
proof (cases "r = 0")
  case True
  with assms obtain q where q: "q < n" "reserved (vmm_bitmap s') = reserved (vmm_bitmap s) \<union> {k..<k + n} - {k..<k + q}"
    "\<forall>p. translation D s' p = (if p \<in> window_page ` {k..<k + q} then None else translation D s p)" by (auto simp: alloc_outcome_def)
  have "translation D s p = None" if "p \<in> window_page ` {k..<k + q}" for p using that assms(3) q(1) by (elim imageE) simp
  then show thesis using refused [OF True q(1) _ q(2)] q(3) by auto
qed (use assms granted in \<open>auto simp: alloc_outcome_def\<close>)

lemma alloc_granted:
  assumes "vmm_inv cfg numa ln D X s" "0 < n" "n \<le> VMM_PAGE_COUNT" "first_fit (vmm_bitmap s) n = Some k"
    "n + card (range_tables k 0 n - present (ram (pmm (space s))) D) < frame_budget cfg (space s)"
  shows "\<exists>s'. kernel_vmm_alloc_pages cfg numa ln (of_nat n) s = Some (window_addr k, s') \<and> vmm_inv cfg numa ln D X s'"
proof -
  obtain r t s' where a: "kernel_vmm_alloc_pages cfg numa ln (of_nat n) s = Some (r, s')" "vmm_inv cfg numa ln D X s'"
    "alloc_outcome D k 0 n t r s'"
    "n + card (range_tables k 0 n - present (ram (pmm (space s))) D) < frame_budget cfg (space s) \<Longrightarrow> r \<noteq> 0"
    by (rule alloc_effect [OF assms(1-4)]) (rule that)
  then have "r = window_addr k" using assms(5) by (simp add: alloc_outcome_def)
  then show ?thesis using a(1,2) by blast
qed

lemma same_translations:
  assumes "vmm_inv cfg numa ln D X s" "vmm_inv cfg numa ln D X s'" "translation D s' (page_of v) = translation D s (page_of v)"
  shows "paging_get_physical_address v (space s') = paging_get_physical_address v (space s)"
  using assms(3) by (simp add: space_translate [OF inv_parts(3) [OF assms(1)]] space_translate [OF inv_parts(3) [OF assms(2)]])

section \<open>A window over an address space with free frames\<close>

definition fresh_window :: "paging \<Rightarrow> vmm" where
  "fresh_window sp = snd (kernel_vmm_initialize \<lparr>vmm_bitmap = [], vmm_last_search_index = 0, vmm_initialized = False, space = sp\<rparr>)"

lemma fresh_window [simp]:
  "vmm_bitmap (fresh_window sp) = replicate VMM_BITMAP_SIZE 0" "vmm_initialized (fresh_window sp)" "space (fresh_window sp) = sp"
  by (simp_all add: fresh_window_def kernel_vmm_initialize_def)

lemma fresh_reserved: "reserved (replicate VMM_BITMAP_SIZE 0) = {}"
  by (auto simp: reserved_def bitmap_test_bit)

lemma fresh_first_fit: "n \<le> VMM_PAGE_COUNT \<Longrightarrow> first_fit (replicate VMM_BITMAP_SIZE 0) n = Some 0"
  unfolding first_fit_def free_at_def fresh_reserved find_Some_iff by (intro exI [of _ 0]) auto

lemma fresh_inv:
  assumes "paging_inv cfg numa ln D sp" "present (ram (pmm sp)) D \<subseteq> {0}"
  shows "vmm_inv cfg numa ln D {} (fresh_window sp)"
proof -
  have "walk (ram (pmm sp)) D (window_page i) = None" for i using assms(2) by (auto simp: walk_def)
  then show ?thesis using assms(1) by (simp add: vmm_inv_def)
qed

lemma booted_window: "vmm_inv boot_build numa_state_static 0 2 {} (fresh_window booted)"
  by (rule fresh_inv [OF booted_inv]) (simp add: booted_dir(2) boot_present(1))

section \<open>Properties\<close>

text \<open>
  C22 (functional): allocating pages of the window always returns. A granted block is the first free run that
  fits; exactly its pages become marked and mapped, each to a frame no other page of the window had;
  no other address translates differently. A refused request changes no translation at all. Either
  way the invariant holds again, so no two pages of the window share a frame, and no frame is lost.
\<close>

theorem vmm_alloc_correct:
  assumes "vmm_inv cfg numa ln D X s" "0 < n" "n \<le> VMM_PAGE_COUNT"
  shows "\<exists>r s'. kernel_vmm_alloc_pages cfg numa ln (of_nat n) s = Some (r, s') \<and> vmm_inv cfg numa ln D X s' \<and>
    vmm_frames cfg D X s' = vmm_frames cfg D X s \<and>
    (if r = 0 then \<forall>v. paging_get_physical_address v (space s') = paging_get_physical_address v (space s)
     else \<exists>k. first_fit (vmm_bitmap s) n = Some k \<and> r = window_addr k \<and>
       reserved (vmm_bitmap s') = reserved (vmm_bitmap s) \<union> {k..<k + n} \<and>
       (\<forall>v. page_of v \<in> window_page ` {k..<k + n} \<longrightarrow>
          (\<exists>f. f \<notin> window_frames D X s \<and> paging_get_physical_address v (space s') = Some (frame_addr f OR PAGE_OFFSET v))) \<and>
       (\<forall>v. page_of v \<notin> window_page ` {k..<k + n} \<longrightarrow>
          paging_get_physical_address v (space s') = paging_get_physical_address v (space s)))"
proof (cases "first_fit (vmm_bitmap s) n")
  case None
  have "kernel_vmm_alloc_pages cfg numa ln (of_nat n) s = Some (0, s)"
    using reserve_refused [of n s] None assms(3) by (simp add: kernel_vmm_alloc_pages_def)
  then show ?thesis using assms(1) by simp
next
  case (Some k)
  note inv = assms(1)
  obtain r t s' where a: "kernel_vmm_alloc_pages cfg numa ln (of_nat n) s = Some (r, s')" and inv': "vmm_inv cfg numa ln D X s'"
    and fr: "vmm_frames cfg D X s' = vmm_frames cfg D X s" and out: "alloc_outcome D k 0 n t r s'" "space t = space s"
    "\<forall>i \<in> {k..<k + n}. translation D s (window_page i) = None" "reserved (vmm_bitmap t) = reserved (vmm_bitmap s) \<union> {k..<k + n}"
    and kn: "k + n \<le> VMM_PAGE_COUNT" "X \<inter> {k..<k + n} = {}" by (rule alloc_effect [OF assms Some]) (rule that)
  note same = same_translations [OF inv inv']
  from out show ?thesis
  proof (cases rule: outcome_cases)
    case refused
    then show ?thesis using a inv' fr same by (intro exI [of _ r] exI [of _ s']) simp
  next
    case granted
    have "\<exists>f. f \<notin> window_frames D X s \<and> paging_get_physical_address v (space s') = Some (frame_addr f OR PAGE_OFFSET v)"
      if "page_of v \<in> window_page ` {k..<k + n}" for v
    proof -
      from that obtain i where i: "page_of v = window_page i" "i \<in> {k..<k + n}" by (rule imageE)
      have "translation D s' (window_page i) \<noteq> None" using granted(5) that i(1) by metis
      then obtain f where f: "translation D s' (window_page i) = Some f" by blast
      have "f \<notin> window_frames D X s"
      proof
        assume "f \<in> window_frames D X s"
        then obtain j where j: "j < VMM_PAGE_COUNT" "j \<notin> X" "translation D s (window_page j) = Some f" by (auto simp: window_frames_def)
        then have "j \<notin> {k..<k + n}" using out(3) by auto
        then have "window_page j \<notin> window_page ` {k..<k + n}" by auto
        with granted(4) j(3) have "translation D s' (window_page j) = Some f" by metis
        moreover have "i < VMM_PAGE_COUNT" "i \<notin> X" using i(2) kn by auto
        ultimately have "i = j" using inv' j(1,2) f unfolding vmm_inv_def by blast
        then show False using i(2) \<open>j \<notin> {k..<k + n}\<close> by simp
      qed
      then show ?thesis using f i(1) by (auto simp: space_translate [OF inv_parts(3) [OF inv']])
    qed
    then show ?thesis using a inv' fr same granted Some
      by (intro exI [of _ r] exI [of _ s'] conjI; (subst if_not_P [OF granted(2)])?; blast)
  qed
qed

theorem vmm_alloc_correct_witness:
  "\<exists>r s'. kernel_vmm_alloc_pages boot_build numa_state_static 0 2 (fresh_window booted) = Some (r, s') \<and>
     vmm_inv boot_build numa_state_static 0 2 {} s'"
  using vmm_alloc_correct [OF booted_window, of 2] by auto

text \<open>
  C23 (roundtrip): freeing a block that an allocation granted gives back exactly what it took: afterwards every
  address translates as before the allocation, the bitmap marks the same pages and the frames are the same.
\<close>

theorem vmm_alloc_free_roundtrip:
  assumes "vmm_inv cfg numa ln D X s" "0 < n" "n \<le> VMM_PAGE_COUNT"
    "kernel_vmm_alloc_pages cfg numa ln (of_nat n) s = Some (r, t)" "r \<noteq> 0"
  shows "\<exists>s'. kernel_vmm_free_pages cfg numa r (of_nat n) t = Some s' \<and> vmm_inv cfg numa ln D X s' \<and>
    (\<forall>v. paging_get_physical_address v (space s') = paging_get_physical_address v (space s)) \<and>
    reserved (vmm_bitmap s') = reserved (vmm_bitmap s) \<and> vmm_frames cfg D X s' = vmm_frames cfg D X s"
proof (cases "first_fit (vmm_bitmap s) n")
  case None
  then show ?thesis using reserve_refused [of n s] assms(3-5) by (simp add: kernel_vmm_alloc_pages_def)
next
  case (Some k)
  obtain x where inv': "vmm_inv cfg numa ln D X t" and fr: "vmm_frames cfg D X t = vmm_frames cfg D X s"
    and out: "alloc_outcome D k 0 n x r t" "space x = space s"
    "\<forall>i \<in> {k..<k + n}. translation D s (window_page i) = None" "reserved (vmm_bitmap x) = reserved (vmm_bitmap s) \<union> {k..<k + n}"
    and kn: "k + n \<le> VMM_PAGE_COUNT" "X \<inter> {k..<k + n} = {}" "free_at (vmm_bitmap s) n k"
    by (rule alloc_effect [OF assms(1-3) Some]) (use assms(4) in auto)
  have k: "k < VMM_PAGE_COUNT" using kn(1) assms(2) by simp
  from out show ?thesis
  proof (cases rule: outcome_cases)
    case granted
    from free_pages_effect [OF inv' kn(1) k kn(2)] obtain s' where s': "kernel_vmm_free_pages cfg numa (window_addr k) (of_nat n) t = Some s'"
      "vmm_inv cfg numa ln D X s'" "reserved (vmm_bitmap s') = reserved (vmm_bitmap t) - {k..<k + n}"
      "vmm_frames cfg D X s' = vmm_frames cfg D X t"
      "\<forall>p. translation D s' p = (if p \<in> window_page ` {k..<k + n} then None else translation D t p)" by blast
    have "translation D s p = None" if "p \<in> window_page ` {k..<k + n}" for p using that out(3) by (elim imageE) simp
    then have "translation D s' p = translation D s p" for p using s'(5) granted(4) by metis
    then show ?thesis
      using s'(1-4) granted(1,3) fr kn(3) same_translations [OF assms(1) s'(2)] by (auto simp: free_at_def)
  qed (use assms(5) in simp)
qed

theorem vmm_alloc_free_roundtrip_witness:
  "\<exists>s t s'. kernel_vmm_alloc_pages real_time_build numa_state_static 0 1 s = Some (0xD0000000, t) \<and>
     kernel_vmm_free_pages real_time_build numa_state_static 0xD0000000 1 t = Some s' \<and>
     (\<forall>v. paging_get_physical_address v (space s') = paging_get_physical_address v (space s))"
proof -
  from free_space_exists obtain sp where sp: "paging_inv real_time_build numa_state_static 0 2 sp"
    "frame_budget real_time_build sp = 3" "present (ram (pmm sp)) 2 = {0}" by blast
  have inv: "vmm_inv real_time_build numa_state_static 0 2 {} (fresh_window sp)" by (rule fresh_inv [OF sp(1)]) (simp add: sp(3))
  have need: "range_tables 0 0 1 - {0} = {832}" by (auto simp: range_tables_def)
  obtain t where t: "kernel_vmm_alloc_pages real_time_build numa_state_static 0 1 (fresh_window sp) = Some (0xD0000000, t)"
    using alloc_granted [OF inv, of 1 0] fresh_first_fit [of 1] sp(2,3) need by auto
  show ?thesis
    by (rule exI [of _ "fresh_window sp"], rule exI [of _ t]) (use vmm_alloc_free_roundtrip [OF inv, of 1 "0xD0000000" t] t in auto)
qed

text \<open>
  C25 (error): a request that finds no frame at all returns NULL but keeps the run of pages it had marked: the
  clean-up call covers the zero pages mapped so far and returns at once. Nothing will ever be mapped
  there, so a failed request permanently shrinks the window by its full length.
\<close>

theorem vmm_failed_alloc_leaks:
  assumes "vmm_inv cfg numa ln D X s" "0 < n" "n \<le> VMM_PAGE_COUNT" "first_fit (vmm_bitmap s) n = Some k"
    "pool_frames cfg (pmm (space s)) = {}"
  shows "\<exists>s'. kernel_vmm_alloc_pages cfg numa ln (of_nat n) s = Some (0, s') \<and> vmm_inv cfg numa ln D X s' \<and>
    reserved (vmm_bitmap s') = reserved (vmm_bitmap s) \<union> {k..<k + n} \<and>
    (\<forall>i \<in> {k..<k + n}. \<not> paging_is_mapped (window_addr i) (space s'))"
proof -
  obtain r t s' where a: "kernel_vmm_alloc_pages cfg numa ln (of_nat n) s = Some (r, s')" "vmm_inv cfg numa ln D X s'" "space t = space s"
    "reserved (vmm_bitmap t) = reserved (vmm_bitmap s) \<union> {k..<k + n}" "k + n \<le> VMM_PAGE_COUNT"
    "\<forall>i \<in> {k..<k + n}. translation D s (window_page i) = None"
    "kernel_vmm_alloc_pages cfg numa ln (of_nat n) s = vmm_alloc_loop cfg numa ln (window_addr k) [0..<n] t"
    by (rule alloc_effect [OF assms(1-4)]) (rule that)
  have p: "frames_ready cfg numa ln (pmm (space t))" using inv_parts(3) [OF assms(1)] a(3) by (simp add: paging_inv_def)
  have none: "physical_memory_manager_page_frame_allocate cfg numa ln (pmm (space t)) = Some (0, pmm (space t))"
    using pool.alloc_none [OF p] assms(5) a(3) by simp
  have t: "with_pmm (pmm (space t)) t = t" by (simp add: with_pmm_def)
  have l: "[0..<n] = 0 # [1..<n]" using assms(2) by (simp add: upt_conv_Cons)
  have "vmm_alloc_loop cfg numa ln (window_addr k) [0..<n] t = Some (0, t)"
    unfolding l using none t by (simp add: kernel_vmm_free_pages_def)
  then have s': "r = 0" "s' = t" using a(1,7) by auto
  have "\<not> paging_is_mapped (window_addr i) (space s')" if "i \<in> {k..<k + n}" for i
    using that a(3,5,6) window_addr_page(2) [of i] s'(2)
    by (simp add: paging_is_mapped_def space_translate [OF inv_parts(3) [OF assms(1)]])
  then show ?thesis using a(1,2,4) s' by auto
qed

theorem vmm_failed_alloc_leaks_witness:
  "\<exists>s'. kernel_vmm_alloc_pages boot_build numa_state_static 0 (of_nat VMM_PAGE_COUNT) (fresh_window booted) = Some (0, s') \<and>
     reserved (vmm_bitmap s') = {..<VMM_PAGE_COUNT} \<and> fst (kernel_vmm_reserve_pages 1 s') = 0"
proof -
  have "pool_frames boot_build (pmm booted) = {}"
    by (simp add: pool_frames_def booted_def paging_initialize_runtime_def blocks_of_def pmm_static_def free_pages_def)
  then obtain s' where s': "kernel_vmm_alloc_pages boot_build numa_state_static 0 (of_nat VMM_PAGE_COUNT) (fresh_window booted) = Some (0, s')"
    "reserved (vmm_bitmap s') = {..<VMM_PAGE_COUNT}"
    using vmm_failed_alloc_leaks [OF booted_window, of VMM_PAGE_COUNT 0] fresh_first_fit [of VMM_PAGE_COUNT] fresh_reserved
    by (auto simp: lessThan_atLeast0)
  have "first_fit (vmm_bitmap s') 1 = None" by (auto simp: first_fit_def find_None_iff free_at_def s'(2))
  then have "fst (kernel_vmm_reserve_pages 1 s') = 0" using reserve_refused [of 1 s'] by simp
  then show ?thesis using s' by blast
qed

text \<open>
  C24 (liveness): a request is granted, with the first fitting run, whenever the frames the paging code can still
  dispose of exceed one per page plus one per page table missing for the run: neither fragmentation
  nor the spare frame kept for tables can make it fail.
\<close>

theorem vmm_alloc_succeeds:
  assumes "vmm_inv cfg numa ln D X s" "0 < n" "n \<le> VMM_PAGE_COUNT" "first_fit (vmm_bitmap s) n = Some k"
    "n + card (range_tables k 0 n - present (ram (pmm (space s))) D) < frame_budget cfg (space s)"
  shows "\<exists>s'. kernel_vmm_alloc_pages cfg numa ln (of_nat n) s = Some (window_addr k, s') \<and> vmm_inv cfg numa ln D X s'"
  using alloc_granted [OF assms] by blast

theorem vmm_alloc_succeeds_witness:
  "\<exists>sp t. frame_budget real_time_build sp = 3 \<and>
     kernel_vmm_alloc_pages real_time_build numa_state_static 0 1 (fresh_window sp) = Some (0xD0000000, t)"
proof -
  from free_space_exists obtain sp where sp: "paging_inv real_time_build numa_state_static 0 2 sp"
    "frame_budget real_time_build sp = 3" "present (ram (pmm sp)) 2 = {0}" by blast
  have inv: "vmm_inv real_time_build numa_state_static 0 2 {} (fresh_window sp)" by (rule fresh_inv [OF sp(1)]) (simp add: sp(3))
  have need: "range_tables 0 0 1 - {0} = {832}" by (auto simp: range_tables_def)
  show ?thesis using vmm_alloc_succeeds [OF inv, of 1 0] fresh_first_fit [of 1] sp(2,3) need by auto
qed

text \<open>
  Reserving at a fixed address checks the end of the range with a 32-bit sum that wraps: a request
  for 0x100000 pages or more passes the check and walks past the end of the bitmap, whatever page of the
  window it starts at, when the pages from there on are free.
\<close>

theorem vmm_reserve_at_overruns:
  assumes "vmm_initialized s" "k < VMM_PAGE_COUNT" "{k..<VMM_PAGE_COUNT} \<inter> reserved (vmm_bitmap s) = {}"
  shows "kernel_vmm_reserve_at (window_addr k) 0x100000 s = None"
proof -
  have sum: "window_addr k + 0x100000 * 4096 = window_addr k" by simp
  let ?bad = "\<lambda>i. VMM_PAGE_COUNT \<le> k + i \<or> vmm_bitmap_test (k + i) (vmm_bitmap s)"
  have free: "\<not> vmm_bitmap_test (k + i) (vmm_bitmap s)" if "k + i < VMM_PAGE_COUNT" for i
    using assms(3) that unfolding reserved_def by (metis (mono_tags, lifting) atLeastLessThan_iff disjoint_iff le_add1 mem_Collect_eq)
  have "find ?bad [0..<1048576] = Some (VMM_PAGE_COUNT - k)"
    unfolding find_Some_iff using assms(2) free by (intro exI [of _ "VMM_PAGE_COUNT - k"]) auto
  moreover have "\<not> window_addr k < KERNEL_VMM_DYNAMIC_START" "\<not> KERNEL_VMM_DYNAMIC_END < window_addr k"
    using window_addr_page(5,6) [OF assms(2)] by (simp_all add: not_less)
  ultimately show ?thesis
    using assms(1,2) window_addr_page(4,7) [OF assms(2)] unfolding kernel_vmm_reserve_at_def sum by simp
qed

theorem vmm_reserve_at_overruns_witness:
  "kernel_vmm_reserve_at 0xD0000000 0x100000 (fresh_window booted) = None"
  using vmm_reserve_at_overruns [of "fresh_window booted" 0] fresh_reserved by simp

end
