(* ===== verification/Pmm_Extend.thy ===== *)
theory Pmm_Extend
  imports Pmm_Init Vmm_Correct
begin

text \<open>
  \<open>physical_memory_manager_extend_mapping\<close> of \<open>src/kernel/arch/i386/cpu/pmm.c\<close>: once the paging code runs, the
  frames above the boot mapping are mapped at their higher-half address and handed to the pool.
\<close>

definition pmm_extend_page ::
  "build_flags \<Rightarrow> numa_state \<Rightarrow> u32 \<Rightarrow> multiboot_info option \<Rightarrow> u32 \<Rightarrow> paging \<Rightarrow> paging option" where
  "pmm_extend_page cfg numa local_node mb addr s =
     (if addr < PMM_BOOT_MAP_LIMIT then Some s
      else if PMM_MAX_PHYS_ADDR \<le> addr then Some s
      else if pmm_is_boot_module_page (ram (pmm s)) mb addr then Some s
      else do {
        (mapped, s) \<leftarrow> paging_map_page cfg numa local_node (pmm_phys_to_virt addr) addr 3 3 s;
        if \<not> mapped then Some s
        else do {
          m \<leftarrow> physical_memory_manager_page_frame_free cfg numa addr (pmm s);
          Some (s\<lparr>pmm := m\<rparr>)
        }
      })"

definition population_flag :: "build_flags \<Rightarrow> bool \<Rightarrow> paging \<Rightarrow> paging" where
  "population_flag cfg b s = (if real_time_mode cfg then s else s\<lparr>pmm := (pmm s)\<lparr>buddy_population_in_progress := b\<rparr>\<rparr>)"

definition physical_memory_manager_extend_mapping ::
  "build_flags \<Rightarrow> numa_state \<Rightarrow> u32 \<Rightarrow> multiboot_info option \<Rightarrow> paging \<Rightarrow> paging option" where
  "physical_memory_manager_extend_mapping cfg numa local_node mb s =
     (case pmm_get_multiboot_mmap mb of
        None \<Rightarrow> Some s
      | Some (mmap_base, mmap_length) \<Rightarrow> do {
          s \<leftarrow> pmm_each_entry (\<lambda>s. ram (pmm s)) (pmm_extend_page cfg numa local_node mb) mmap_base mmap_length 0
                (population_flag cfg True s);
          Some (population_flag cfg False s)
        })"

lemma window_alias: "k < VMM_PAGE_COUNT \<Longrightarrow> pmm_phys_to_virt (frame_addr (65536 + k)) = window_addr k"
  by (simp add: pmm_phys_to_virt_def frame_addr_def algebra_simps)

text \<open>
  C28 (safety): the higher-half mapping of the frames from 256 MiB on lies inside the dynamic window: extending the
  mapping by frame 65536 + k maps page k of the window, at the address through which the frame
  allocator then links the free frame. The window's bitmap knows nothing of it: a freshly initialised
  window hands out its first page, whatever is mapped there.
\<close>

theorem extend_mapping_enters_window:
  assumes "paging_inv cfg numa ln D s" "k < VMM_PAGE_COUNT" "\<not> pmm_is_boot_module_page (ram (pmm s)) mb (frame_addr (65536 + k))"
    "65536 + k \<in> held_frames cfg (pmm s) - paging_claims cfg D s"
    "window_page k div 1024 \<in> present (ram (pmm s)) D \<or> pool_frames cfg (pmm s) \<union> spare s \<noteq> {}"
  shows "\<exists>t. pmm_extend_page cfg numa ln mb (frame_addr (65536 + k)) s = Some t \<and> 65536 + k \<in> pool_frames cfg (pmm t) \<and>
    paging_get_physical_address (window_addr k) t = Some (frame_addr (65536 + k)) \<and>
    fst (kernel_vmm_reserve_pages 1 (fresh_window t)) = window_addr 0"
proof -
  let ?f = "65536 + k"
  have bits: "entry_present (3::u32)" by simp
  have u: "unat (frame_addr ?f) = 4096 * ?f" using assms(2) by (intro unat_frame_addr) simp
  have range: "\<not> frame_addr ?f < PMM_BOOT_MAP_LIMIT" "\<not> PMM_MAX_PHYS_ADDR \<le> frame_addr ?f"
    using assms(2) u by (simp_all add: word_less_nat_alt word_le_nat_alt)
  obtain t where t: "paging_map_page cfg numa ln (window_addr k) (frame_addr ?f) 3 3 s = Some (True, t)" "paging_inv cfg numa ln D t"
    "keeps_clients cfg D s t" "walk (ram (pmm t)) D (window_page k) = Some ?f"
    using map_page_effect [OF assms(1) bits bits, of "window_addr k" "frame_addr ?f"] assms(2,5) window_addr_page(2) [OF assms(2)]
      entry_frame_addr [of ?f] by auto
  have "?f \<in> held_frames cfg (pmm t) - paging_claims cfg D t" using t(3) assms(4) by (auto simp: keeps_clients_def)
  from client_release [OF t(2) this] obtain m where m: "physical_memory_manager_page_frame_free cfg numa (frame_addr ?f) (pmm t) = Some m"
    "paging_inv cfg numa ln D (t\<lparr>pmm := m\<rparr>)" "\<forall>n. walk (ram m) D n = walk (ram (pmm t)) D n"
    "paging_claims cfg D (t\<lparr>pmm := m\<rparr>) = insert ?f (paging_claims cfg D t)" "pool_frames cfg m = insert ?f (pool_frames cfg (pmm t))" by blast
  have e: "pmm_extend_page cfg numa ln mb (frame_addr ?f) s = Some (t\<lparr>pmm := m\<rparr>)"
    using range assms(3) t(1) m(1) window_alias [OF assms(2)] by (simp add: pmm_extend_page_def)
  have a: "paging_get_physical_address (window_addr k) (t\<lparr>pmm := m\<rparr>) = Some (frame_addr ?f)"
    using m(3) t(4) window_addr_page(2,3) [OF assms(2)] by (simp add: space_translate [OF m(2)])
  have "vmm_search (replicate VMM_BITMAP_SIZE 0) 1 0 = Some 0"
    using search_first_fit [of 1 0 "replicate VMM_BITMAP_SIZE 0"] fresh_first_fit [of 1] by simp
  then have "fst (kernel_vmm_reserve_pages 1 (fresh_window (t\<lparr>pmm := m\<rparr>))) = window_addr 0" by (simp add: kernel_vmm_reserve_pages_def)
  then show ?thesis using e a m(5) by (intro exI [of _ "t\<lparr>pmm := m\<rparr>"]) simp
qed

theorem extend_mapping_enters_window_witness:
  "\<exists>s t. pmm_extend_page real_time_build numa_state_static 0 None 0x10000000 s = Some t \<and>
     paging_get_physical_address 0xD0000000 t = Some 0x10000000"
proof -
  have "present (ram (pmm booted)) 2 = {0}" using booted_dir(2) boot_present(1) by simp
  from hand_over [of booted "{}" 8] real_time_booted this obtain a where a: "paging_inv real_time_build numa_state_static 0 2 a"
    "held_frames real_time_build (pmm a) = {0<..<262144} - {8}" "paging_claims real_time_build 2 a = {2, 3} \<union> {8}" "present (ram (pmm a)) 2 = {0}" by auto
  have "frame_budget real_time_build a = 1" using card_claims [OF a(1)] a(3,4) by simp
  then have "pool_frames real_time_build (pmm a) \<union> spare a \<noteq> {}" unfolding frame_budget_def by (metis card.empty zero_neq_one)
  moreover have "frame_addr 65536 = 0x10000000" by (simp add: frame_addr_def)
  ultimately show ?thesis
    using extend_mapping_enters_window [OF a(1), of 0 None] a(2,3) by (auto simp: pmm_is_boot_module_page_def)
qed

end
