(* ===== verification/Pinned_Memory.thy ===== *)
theory Pinned_Memory
  imports Vmm_Correct
begin

text \<open>
  \<open>src/kernel/kernel/memory/pinned_memory.c\<close>: blocks of pages that are marked as pinned in their table
  entries, taken from the dynamic window. The module keeps its own copy of the mapping loop of the
  virtual memory manager.
\<close>

record pinned =
  pinned_virtual_cursor :: u32
  pinned_allocated_pages :: u32
  pinned_released_pages :: u32
  pinned_initialized :: bool
  window :: vmm

definition kernel_pinned_memory_initialize :: "pinned \<Rightarrow> bool \<times> pinned" where
  "kernel_pinned_memory_initialize s =
     (if pinned_initialized s then (True, s)
      else (True, s\<lparr>pinned_virtual_cursor := 0xE0000000, pinned_allocated_pages := 0, pinned_released_pages := 0,
                    pinned_initialized := True\<rparr>))"

definition pages_of_size :: "u32 \<Rightarrow> u32" where
  "pages_of_size bytes = (bytes + 4096 - 1) div 4096"

fun pinned_alloc_loop :: "build_flags \<Rightarrow> numa_state \<Rightarrow> u32 \<Rightarrow> u32 \<Rightarrow> nat list \<Rightarrow> pinned \<Rightarrow> (bool \<times> pinned) option" where
  "pinned_alloc_loop cfg numa local_node start_virt [] s = Some (True, s)"
| "pinned_alloc_loop cfg numa local_node start_virt (i # rest) s = do {
     (phys, m) \<leftarrow> physical_memory_manager_page_frame_allocate cfg numa local_node (pmm (space (window s)));
     let w = with_pmm m (window s);
     if phys = 0 then do {
       w \<leftarrow> kernel_vmm_free_pages cfg numa start_virt (of_nat i) w;
       Some (False, s\<lparr>window := w\<rparr>)
     }
     else do {
       (ok, sp) \<leftarrow> paging_map_page cfg numa local_node (start_virt + of_nat i * 4096) phys 3 0x203 (space w);
       let w = w\<lparr>space := sp\<rparr>;
       if \<not> ok then do {
         w \<leftarrow> kernel_vmm_free_pages cfg numa start_virt (of_nat i) w;
         Some (False, s\<lparr>window := w\<rparr>)
       }
       else pinned_alloc_loop cfg numa local_node start_virt rest
              (s\<lparr>window := w, pinned_allocated_pages := pinned_allocated_pages s + 1\<rparr>)
     }
   }"

definition kernel_pinned_alloc :: "build_flags \<Rightarrow> numa_state \<Rightarrow> u32 \<Rightarrow> u32 \<Rightarrow> pinned \<Rightarrow> (u32 \<times> pinned) option" where
  "kernel_pinned_alloc cfg numa local_node bytes s =
     (if \<not> pinned_initialized s \<or> bytes = 0 then Some (0, s)
      else
        let pages_needed = pages_of_size bytes; (start_virt, w) = kernel_vmm_reserve_pages pages_needed (window s);
            s = s\<lparr>window := w\<rparr>
        in if start_virt = 0 then Some (0, s)
        else do {
          (ok, s) \<leftarrow> pinned_alloc_loop cfg numa local_node start_virt [0..<unat pages_needed] s;
          if ok then Some (start_virt, s\<lparr>pinned_virtual_cursor := start_virt + pages_needed * 4096\<rparr>)
          else Some (0, s)
        })"

fun pinned_free_loop :: "build_flags \<Rightarrow> numa_state \<Rightarrow> u32 \<Rightarrow> nat list \<Rightarrow> pinned \<Rightarrow> pinned option" where
  "pinned_free_loop cfg numa start_virt [] s = Some s"
| "pinned_free_loop cfg numa start_virt (i # rest) s =
     (let virt = start_virt + of_nat i * 4096 in do {
       w \<leftarrow> (case paging_get_physical_address virt (space (window s)) of
               None \<Rightarrow> Some (window s)
             | Some phys \<Rightarrow> do {
                 m \<leftarrow> physical_memory_manager_page_frame_free cfg numa phys (pmm (space (window s)));
                 Some (with_pmm m (window s))
               });
       (unmapped, sp) \<leftarrow> paging_unmap_page cfg numa virt (space w);
       pinned_free_loop cfg numa start_virt rest
         (s\<lparr>window := w\<lparr>space := sp\<rparr>, pinned_released_pages := pinned_released_pages s + 1\<rparr>)
     })"

definition kernel_pinned_free :: "build_flags \<Rightarrow> numa_state \<Rightarrow> u32 \<Rightarrow> u32 \<Rightarrow> pinned \<Rightarrow> pinned option" where
  "kernel_pinned_free cfg numa ptr bytes s =
     (if \<not> pinned_initialized s \<or> ptr = 0 \<or> bytes = 0 then Some s
      else do {
        let pages_to_free = pages_of_size bytes;
        s \<leftarrow> pinned_free_loop cfg numa ptr [0..<unat pages_to_free] s;
        w \<leftarrow> kernel_vmm_free_pages cfg numa ptr pages_to_free (window s);
        Some (s\<lparr>window := w\<rparr>)
      })"

lemma pages_of_size:
  assumes "0 < unat bytes" "unat bytes \<le> 4096 * VMM_PAGE_COUNT"
  shows "unat (pages_of_size bytes) = (unat bytes + 4095) div 4096" "0 < unat (pages_of_size bytes)" "unat (pages_of_size bytes) \<le> VMM_PAGE_COUNT"
proof -
  have "unat (bytes + 4095) = unat bytes + 4095" using assms(2) by (simp add: unat_word_ariths)
  moreover have "bytes + 4096 - 1 = bytes + 4095" "unat (4096 :: u32) = 4096" by simp_all
  ultimately show u: "unat (pages_of_size bytes) = (unat bytes + 4095) div 4096" by (simp only: pages_of_size_def unat_div)
  show "0 < unat (pages_of_size bytes)" "unat (pages_of_size bytes) \<le> VMM_PAGE_COUNT" unfolding u using assms by (simp_all add: div_le_mono)
qed

section \<open>The loops\<close>

lemma pinned_loop:
  assumes "vmm_inv cfg numa ln D X (window s)" "j \<le> n" "k + n \<le> VMM_PAGE_COUNT" "k < VMM_PAGE_COUNT" "X \<inter> {k..<k + n} = {}"
    "{k..<k + n} \<subseteq> reserved (vmm_bitmap (window s))" "\<forall>i \<in> {j..<n}. translation D (window s) (window_page (k + i)) = None"
  shows "\<exists>ok s' L. pinned_alloc_loop cfg numa ln (window_addr k) [j..<n] s = Some (ok, s') \<and> vmm_inv cfg numa ln D X (window s') \<and>
    vmm_frames cfg D X (window s') = vmm_frames cfg D X (window s) - L \<and> finite L \<and> card L \<le> 1 \<and> (ok \<longrightarrow> L = {}) \<and>
    alloc_outcome D k j n (window s) (if ok then window_addr k else 0) (window s') \<and>
    (ok \<longrightarrow> pinned_allocated_pages s' = pinned_allocated_pages s + of_nat (n - j)) \<and> pinned_initialized s' = pinned_initialized s \<and>
    (n - j + card (range_tables k j n - present (ram (pmm (space (window s)))) D) < frame_budget cfg (space (window s)) \<longrightarrow> ok)"
  using assms
proof (induction "n - j" arbitrary: j s)
  case 0
  then show ?case using window_addr_page(7) [OF "0.prems"(4)]
    by (intro exI [of _ True] exI [of _ s] exI [of _ "{}"]) (simp add: alloc_outcome_def)
next
  case (Suc x)
  let ?w = "window s"
  have jn: "j < n" and list: "[j..<n] = j # [Suc j..<n]" using Suc.hyps(2) by (simp_all add: upt_conv_Cons)
  have kj: "k + j < VMM_PAGE_COUNT" "k + j \<notin> X" "k + j \<in> reserved (vmm_bitmap ?w)" "translation D ?w (window_page (k + j)) = None"
    using Suc.prems jn by auto
  have undo: "\<exists>t'. kernel_vmm_free_pages cfg numa (window_addr k) (of_nat j) t = Some t' \<and> vmm_inv cfg numa ln D X t' \<and>
      vmm_frames cfg D X t' = vmm_frames cfg D X t \<and> alloc_outcome D k j n ?w 0 t'"
    if "vmm_inv cfg numa ln D X t" "vmm_bitmap t = vmm_bitmap ?w" "\<forall>p. translation D t p = translation D ?w p" for t
  proof -
    have "k + j \<le> VMM_PAGE_COUNT" "X \<inter> {k..<k + j} = {}" using Suc.prems jn by auto
    from free_pages_effect [OF that(1) this(1) Suc.prems(4) this(2)] that(2,3) jn show ?thesis
      unfolding alloc_outcome_def if_P [OF refl] by (metis order_refl)
  qed
  show ?case
  proof (cases rule: map_client_page [OF Suc.prems(1) _ kj, where fl = "0x203", case_names bits empty refused mapped])
    case bits
    show ?case by simp
  next
    case empty
    have s: "with_pmm (pmm (space ?w)) ?w = ?w" by (simp add: with_pmm_def)
    from undo [of ?w] Suc.prems(1) obtain t' where t': "kernel_vmm_free_pages cfg numa (window_addr k) (of_nat j) ?w = Some t'"
      "vmm_inv cfg numa ln D X t'" "vmm_frames cfg D X t' = vmm_frames cfg D X ?w" "alloc_outcome D k j n ?w 0 t'" by blast
    have "pinned_alloc_loop cfg numa ln (window_addr k) [j..<n] s = Some (False, s\<lparr>window := t'\<rparr>)"
      unfolding list using empty t'(1) s by simp
    then show ?thesis using t'(2-4) empty(2) jn by (intro exI [of _ False] exI [of _ "s\<lparr>window := t'\<rparr>"] exI [of _ "{}"]) simp
  next
    case (refused f m sp m')
    from undo [of "?w\<lparr>space := sp\<rparr>"] refused(9,11) obtain t' where t':
      "kernel_vmm_free_pages cfg numa (window_addr k) (of_nat j) (?w\<lparr>space := sp\<rparr>) = Some t'"
      "vmm_inv cfg numa ln D X t'" "vmm_frames cfg D X t' = vmm_frames cfg D X (?w\<lparr>space := sp\<rparr>)" "alloc_outcome D k j n ?w 0 t'" by auto
    have "pinned_alloc_loop cfg numa ln (window_addr k) [j..<n] s = Some (False, s\<lparr>window := t'\<rparr>)"
      unfolding list using refused(1-3) t'(1) by (simp add: with_pmm_def window_addr_add)
    then show ?thesis using t'(2-4) refused(8,10) jn by (intro exI [of _ False] exI [of _ "s\<lparr>window := t'\<rparr>"] exI [of _ "{f}"]) simp
  next
    case (mapped f m sp)
    let ?t = "s\<lparr>window := ?w\<lparr>space := sp\<rparr>, pinned_allocated_pages := pinned_allocated_pages s + 1\<rparr>"
    have w: "window ?t = ?w\<lparr>space := sp\<rparr>" "space (window ?t) = sp" by simp_all
    have step: "pinned_alloc_loop cfg numa ln (window_addr k) [j..<n] s = pinned_alloc_loop cfg numa ln (window_addr k) [Suc j..<n] ?t"
      unfolding list using mapped(1-3) by (simp add: with_pmm_def window_addr_add)
    have inv: "vmm_inv cfg numa ln D X (window ?t)" using mapped(4) by simp
    have new: "\<forall>i \<in> {Suc j..<n}. translation D (window ?t) (window_page (k + i)) = None" using mapped(6) Suc.prems(7) by simp
    have x: "x = n - Suc j" "Suc j \<le> n" "{k..<k + n} \<subseteq> reserved (vmm_bitmap (window ?t))" using Suc.hyps(2) jn Suc.prems(6) by simp_all
    have "finite (present (ram (pmm (space ?w))) D)" by (simp add: present_def)
    note need = range_tables_step [OF jn mapped(7) this]
    have less: "n - Suc j + card (range_tables k (Suc j) n - present (ram (pmm sp)) D) < frame_budget cfg sp"
      if "n - j + card (range_tables k j n - present (ram (pmm (space ?w))) D) < frame_budget cfg (space ?w)"
      using that need mapped(8) jn by linarith
    from Suc.hyps(1) [OF x(1) inv x(2) Suc.prems(3-5) x(3) new, unfolded w] obtain ok s' L where r:
      "pinned_alloc_loop cfg numa ln (window_addr k) [Suc j..<n] ?t = Some (ok, s')" "vmm_inv cfg numa ln D X (window s')"
      "vmm_frames cfg D X (window s') = vmm_frames cfg D X ?w - L" "finite L \<and> card L \<le> 1" "ok \<longrightarrow> L = {}"
      "alloc_outcome D k (Suc j) n (?w\<lparr>space := sp\<rparr>) (if ok then window_addr k else 0) (window s')"
      "ok \<longrightarrow> pinned_allocated_pages s' = pinned_allocated_pages s + 1 + of_nat (n - Suc j)" "pinned_initialized s' = pinned_initialized s"
      "n - Suc j + card (range_tables k (Suc j) n - present (ram (pmm sp)) D) < frame_budget cfg sp \<longrightarrow> ok"
      using mapped(5) by auto
    have o: "alloc_outcome D k j n ?w (if ok then window_addr k else 0) (window s')"
      by (rule alloc_outcome_step [OF r(6) jn]) (use mapped(6) in simp_all)
    have c: "(of_nat (n - j) :: u32) = 1 + of_nat (n - Suc j)" using jn by (metis Suc_diff_Suc of_nat_Suc)
    show ?thesis
      using step r(1-5,7-9) o c less by (intro exI [of _ ok] exI [of _ s'] exI [of _ L]) (simp add: add.assoc)
  qed
qed

lemma pinned_free_pages:
  assumes "vmm_inv cfg numa ln D X (window s)" "\<forall>i \<in> set is. k + i < VMM_PAGE_COUNT \<and> k + i \<notin> X" "k < VMM_PAGE_COUNT"
  shows "\<exists>s'. pinned_free_loop cfg numa (window_addr k) is s = Some s' \<and> vmm_inv cfg numa ln D X (window s') \<and>
    vmm_bitmap (window s') = vmm_bitmap (window s) \<and> vmm_frames cfg D X (window s') = vmm_frames cfg D X (window s) \<and>
    pinned_released_pages s' = pinned_released_pages s + of_nat (length is) \<and>
    pinned_allocated_pages s' = pinned_allocated_pages s \<and>
    (\<forall>n. translation D (window s') n = (if n \<in> (\<lambda>i. window_page (k + i)) ` set is then None else translation D (window s) n))"
  using assms
proof (induction "is" arbitrary: s)
  case (Cons i "is")
  let ?w = "window s"
  have ki: "k + i < VMM_PAGE_COUNT" "k + i \<notin> X" using Cons.prems(2) by simp_all
  obtain t sp b where t:
    "(case paging_get_physical_address (window_addr (k + i)) (space ?w) of None \<Rightarrow> Some ?w
      | Some phys \<Rightarrow> (physical_memory_manager_page_frame_free cfg numa phys (pmm (space ?w)) \<bind> (\<lambda>m. Some (with_pmm m ?w)))) = Some t"
    "paging_unmap_page cfg numa (window_addr (k + i)) (space t) = Some (b, sp)" "vmm_bitmap t = vmm_bitmap ?w"
    "vmm_inv cfg numa ln D X (t\<lparr>space := sp, vmm_bitmap := vmm_bitmap ?w\<rparr>)"
    "\<forall>n. walk (ram (pmm sp)) D n = (if n = window_page (k + i) then None else translation D ?w n)"
    "vmm_frames cfg D X (t\<lparr>space := sp, vmm_bitmap := vmm_bitmap ?w\<rparr>) = vmm_frames cfg D X ?w"
    by (rule free_page [OF Cons.prems(1) ki inv_parts(2) [OF Cons.prems(1)] Diff_subset]) (rule that)
  let ?t = "s\<lparr>window := t\<lparr>space := sp\<rparr>, pinned_released_pages := pinned_released_pages s + 1\<rparr>"
  have same: "t\<lparr>space := sp, vmm_bitmap := vmm_bitmap ?w\<rparr> = t\<lparr>space := sp\<rparr>" using t(3) by simp
  have step: "pinned_free_loop cfg numa (window_addr k) (i # is) s = pinned_free_loop cfg numa (window_addr k) is ?t"
    using t(1-2) by (simp only: pinned_free_loop.simps Let_def window_addr_add bind.bind_lunit prod.case)
  have "vmm_inv cfg numa ln D X (window ?t)" using t(4) unfolding same by simp
  from Cons.IH [OF this] Cons.prems(2,3) obtain s' where s': "pinned_free_loop cfg numa (window_addr k) is ?t = Some s'"
    "vmm_inv cfg numa ln D X (window s')" "vmm_bitmap (window s') = vmm_bitmap ?w"
    "vmm_frames cfg D X (window s') = vmm_frames cfg D X (t\<lparr>space := sp\<rparr>)"
    "pinned_released_pages s' = pinned_released_pages s + 1 + of_nat (length is)" "pinned_allocated_pages s' = pinned_allocated_pages s"
    "\<forall>n. translation D (window s') n = (if n \<in> (\<lambda>i. window_page (k + i)) ` set is then None else walk (ram (pmm sp)) D n)"
    using t(3) by auto
  then show ?case using step t(5,6) unfolding same by (intro exI [of _ s']) auto
qed simp

lemma pinned_free_effect:
  assumes inv: "vmm_inv cfg numa ln D X (window t)" "pinned_initialized t" and b: "0 < unat bytes"
    and k: "k + unat (pages_of_size bytes) \<le> VMM_PAGE_COUNT" "k < VMM_PAGE_COUNT" "X \<inter> {k..<k + unat (pages_of_size bytes)} = {}"
  defines "n \<equiv> unat (pages_of_size bytes)"
  shows "\<exists>s'. kernel_pinned_free cfg numa (window_addr k) bytes t = Some s' \<and> vmm_inv cfg numa ln D X (window s') \<and>
    reserved (vmm_bitmap (window s')) = reserved (vmm_bitmap (window t)) - {k..<k + n} \<and>
    vmm_frames cfg D X (window s') = vmm_frames cfg D X (window t) \<and>
    pinned_released_pages s' = pinned_released_pages t + pages_of_size bytes \<and> pinned_allocated_pages s' = pinned_allocated_pages t \<and>
    (\<forall>p. translation D (window s') p = (if p \<in> window_page ` {k..<k + n} then None else translation D (window t) p))"
proof -
  have n: "of_nat n = pages_of_size bytes" by (simp add: n_def)
  note k = k [folded n_def]
  have "\<forall>i \<in> set [0..<n]. k + i < VMM_PAGE_COUNT \<and> k + i \<notin> X" using k by auto
  from pinned_free_pages [OF inv(1) this k(2)] obtain y where y: "pinned_free_loop cfg numa (window_addr k) [0..<n] t = Some y"
    "vmm_inv cfg numa ln D X (window y)" "vmm_bitmap (window y) = vmm_bitmap (window t)"
    "vmm_frames cfg D X (window y) = vmm_frames cfg D X (window t)" "pinned_released_pages y = pinned_released_pages t + of_nat (length [0..<n])"
    "pinned_allocated_pages y = pinned_allocated_pages t"
    "\<forall>p. translation D (window y) p = (if p \<in> (\<lambda>i. window_page (k + i)) ` set [0..<n] then None else translation D (window t) p)"
    by blast
  from free_pages_effect [OF y(2) k] obtain w where w: "kernel_vmm_free_pages cfg numa (window_addr k) (of_nat n) (window y) = Some w"
    "vmm_inv cfg numa ln D X w" "reserved (vmm_bitmap w) = reserved (vmm_bitmap (window y)) - {k..<k + n}"
    "vmm_frames cfg D X w = vmm_frames cfg D X (window y)"
    "\<forall>p. translation D w p = (if p \<in> window_page ` {k..<k + n} then None else translation D (window y) p)" by blast
  have bz: "bytes \<noteq> 0" using b by auto
  have e: "kernel_pinned_free cfg numa (window_addr k) bytes t = Some (y\<lparr>window := w\<rparr>)"
    using inv(2) bz window_addr_page(7) [OF k(2)] y(1) w(1) unfolding n by (simp add: kernel_pinned_free_def n_def)
  have sub: "(\<lambda>i. window_page (k + i)) ` set [0..<n] \<subseteq> window_page ` {k..<k + n}"
  proof (rule image_subsetI)
    fix i assume "i \<in> set [0..<n]"
    then have "k + i \<in> {k..<k + n}" by simp
    then show "window_page (k + i) \<in> window_page ` {k..<k + n}" by (rule imageI)
  qed
  have tr: "translation D w p = (if p \<in> window_page ` {k..<k + n} then None else translation D (window t) p)" for p
  proof (cases "p \<in> window_page ` {k..<k + n}")
    case False
    then have "p \<notin> (\<lambda>i. window_page (k + i)) ` set [0..<n]" using sub by blast
    then show ?thesis using w(5) [rule_format, of p] y(7) [rule_format, of p] False by (simp only: if_False)
  qed (use w(5) [rule_format, of p] in \<open>simp only: if_True\<close>)
  show ?thesis
    unfolding e using w(2-4) y(3-6) tr n by (intro exI [of _ "y\<lparr>window := w\<rparr>"]) simp
qed

lemma pinned_effect:
  assumes inv: "vmm_inv cfg numa ln D X (window s)" "pinned_initialized s" and b: "0 < unat bytes" "unat bytes \<le> 4096 * VMM_PAGE_COUNT"
    and f: "first_fit (vmm_bitmap (window s)) n = Some k" and n: "n = unat (pages_of_size bytes)"
  obtains r s' L t where "kernel_pinned_alloc cfg numa ln bytes s = Some (r, s')" "vmm_inv cfg numa ln D X (window s')"
    "vmm_frames cfg D X (window s') = vmm_frames cfg D X (window s) - L" "finite L" "card L \<le> 1" "r \<noteq> 0 \<Longrightarrow> L = {}"
    "alloc_outcome D k 0 n t r (window s')" "space t = space (window s)" "\<forall>i \<in> {k..<k + n}. translation D (window s) (window_page i) = None"
    "reserved (vmm_bitmap t) = reserved (vmm_bitmap (window s)) \<union> {k..<k + n}" "k + n \<le> VMM_PAGE_COUNT" "k < VMM_PAGE_COUNT"
    "X \<inter> {k..<k + n} = {}" "free_at (vmm_bitmap (window s)) n k"
    "r \<noteq> 0 \<Longrightarrow> pinned_allocated_pages s' = pinned_allocated_pages s + pages_of_size bytes" "pinned_initialized s'"
    "n + card (range_tables k 0 n - present (ram (pmm (space (window s)))) D) < frame_budget cfg (space (window s)) \<Longrightarrow> r \<noteq> 0"
proof -
  have n1: "0 < n" "n \<le> VMM_PAGE_COUNT" "of_nat n = pages_of_size bytes" using pages_of_size(2,3) [OF b] n by simp_all
  show thesis
  proof (rule reserve_effect [OF inv(1) n1(1,2) f])
    fix w assume w: "kernel_vmm_reserve_pages (of_nat n) (window s) = (window_addr k, w)" "vmm_inv cfg numa ln D X w" "space w = space (window s)"
      "reserved (vmm_bitmap w) = reserved (vmm_bitmap (window s)) \<union> {k..<k + n}" "k + n \<le> VMM_PAGE_COUNT" "k < VMM_PAGE_COUNT"
      "free_at (vmm_bitmap (window s)) n k" "X \<inter> {k..<k + n} = {}" "\<forall>i \<in> {k..<k + n}. translation D (window s) (window_page i) = None"
    let ?s = "s\<lparr>window := w\<rparr>"
    have ws: "window ?s = w" "pinned_initialized ?s" "pinned_allocated_pages ?s = pinned_allocated_pages s" using inv(2) by simp_all
    have pre: "vmm_inv cfg numa ln D X (window ?s)" "{k..<k + n} \<subseteq> reserved (vmm_bitmap (window ?s))"
      "\<forall>i \<in> {0..<n}. translation D (window ?s) (window_page (k + i)) = None" using w(2-4,9) by auto
    obtain ok t' L where r: "pinned_alloc_loop cfg numa ln (window_addr k) [0..<n] ?s = Some (ok, t')" "vmm_inv cfg numa ln D X (window t')"
      "vmm_frames cfg D X (window t') = vmm_frames cfg D X w - L" "finite L" "card L \<le> 1" "ok \<longrightarrow> L = {}"
      "alloc_outcome D k 0 n w (if ok then window_addr k else 0) (window t')"
      "ok \<longrightarrow> pinned_allocated_pages t' = pinned_allocated_pages s + of_nat n" "pinned_initialized t'"
      "n + card (range_tables k 0 n - present (ram (pmm (space w))) D) < frame_budget cfg (space w) \<longrightarrow> ok"
      using pinned_loop [OF pre(1) le0 w(5,6,8) pre(2,3), unfolded ws] ws(2) by auto
    let ?t = "if ok then t'\<lparr>pinned_virtual_cursor := window_addr k + pages_of_size bytes * 4096\<rparr> else t'"
    have bz: "bytes \<noteq> 0" using b(1) by auto
    have nz: "window_addr k \<noteq> 0" by (rule window_addr_page(7) [OF w(6)])
    have e: "kernel_pinned_alloc cfg numa ln bytes s = Some (if ok then window_addr k else 0, ?t)"
      using inv(2) bz nz w(1) r(1) n by (simp add: kernel_pinned_alloc_def n1(3))
    have wt: "window ?t = window t'" "pinned_allocated_pages ?t = pinned_allocated_pages t'" "pinned_initialized ?t = pinned_initialized t'" by simp_all
    have fr: "vmm_frames cfg D X w = vmm_frames cfg D X (window s)" using w(3) by (simp add: vmm_frames_def window_frames_def)
    show thesis
      by (rule that [OF e, of L w]) (use r w nz n1(3) fr in \<open>auto simp: wt\<close>)
  qed
qed

lemma pinned_refused:
  assumes "first_fit (vmm_bitmap (window s)) (unat (pages_of_size bytes)) = None" "0 < unat bytes" "unat bytes \<le> 4096 * VMM_PAGE_COUNT"
  shows "kernel_pinned_alloc cfg numa ln bytes s = Some (0, s)"
proof -
  have "kernel_vmm_reserve_pages (pages_of_size bytes) (window s) = (0, window s)"
    using reserve_refused [of "unat (pages_of_size bytes)" "window s"] assms(1) pages_of_size(3) [OF assms(2,3)] by simp
  then show ?thesis by (simp add: kernel_pinned_alloc_def)
qed

section \<open>Properties\<close>

text \<open>
  C26 (functional): a pinned allocation always returns. If it returns a block, exactly its pages become mapped and
  marked, their number is added to the counter and no frame is lost. If it returns NULL no address
  translates differently, but one frame may have been lost: the one taken for a page whose page table
  could not be created, which the code does not give back.
\<close>

theorem pinned_alloc_correct:
  assumes "vmm_inv cfg numa ln D X (window s)" "pinned_initialized s" "0 < unat bytes" "unat bytes \<le> 4096 * VMM_PAGE_COUNT"
  shows "\<exists>r s' L. kernel_pinned_alloc cfg numa ln bytes s = Some (r, s') \<and> vmm_inv cfg numa ln D X (window s') \<and>
    vmm_frames cfg D X (window s') = vmm_frames cfg D X (window s) - L \<and> finite L \<and> card L \<le> 1 \<and>
    (if r = 0 then \<forall>v. paging_get_physical_address v (space (window s')) = paging_get_physical_address v (space (window s))
     else L = {} \<and> pinned_allocated_pages s' = pinned_allocated_pages s + pages_of_size bytes \<and>
       (\<exists>k. first_fit (vmm_bitmap (window s)) (unat (pages_of_size bytes)) = Some k \<and> r = window_addr k \<and>
          (\<forall>v. if page_of v \<in> window_page ` {k..<k + unat (pages_of_size bytes)} then paging_is_mapped v (space (window s'))
               else paging_get_physical_address v (space (window s')) = paging_get_physical_address v (space (window s)))))"
proof (cases "first_fit (vmm_bitmap (window s)) (unat (pages_of_size bytes))")
  case None
  show ?thesis using pinned_refused [OF None assms(3,4)] assms(1) by (intro exI [of _ 0] exI [of _ s] exI [of _ "{}"]) simp
next
  case (Some k)
  let ?n = "unat (pages_of_size bytes)"
  obtain r s' L t where e: "kernel_pinned_alloc cfg numa ln bytes s = Some (r, s')" and inv': "vmm_inv cfg numa ln D X (window s')"
    and fr: "vmm_frames cfg D X (window s') = vmm_frames cfg D X (window s) - L" "finite L" "card L \<le> 1" "r \<noteq> 0 \<Longrightarrow> L = {}"
    and out: "alloc_outcome D k 0 ?n t r (window s')" "space t = space (window s)"
      "\<forall>i \<in> {k..<k + ?n}. translation D (window s) (window_page i) = None"
      "reserved (vmm_bitmap t) = reserved (vmm_bitmap (window s)) \<union> {k..<k + ?n}"
    and cnt: "r \<noteq> 0 \<Longrightarrow> pinned_allocated_pages s' = pinned_allocated_pages s + pages_of_size bytes"
    by (rule pinned_effect [OF assms Some refl]) (rule that)
  note same = same_translations [OF assms(1) inv']
  from out show ?thesis
  proof (cases rule: outcome_cases)
    case refused
    then show ?thesis using e inv' fr same by (intro exI [of _ r] exI [of _ s'] exI [of _ L]) simp
  next
    case granted
    have "if page_of v \<in> window_page ` {k..<k + ?n} then paging_is_mapped v (space (window s'))
        else paging_get_physical_address v (space (window s')) = paging_get_physical_address v (space (window s))" for v
    proof (cases "page_of v \<in> window_page ` {k..<k + ?n}")
      case True
      then have "translation D (window s') (page_of v) \<noteq> None" using granted(5) by blast
      then show ?thesis unfolding if_P [OF True] paging_is_mapped_def space_translate [OF inv_parts(3) [OF inv']] by simp
    next
      case False
      then show ?thesis unfolding if_not_P [OF False] using same [of v] granted(4) by blast
    qed
    then show ?thesis using e inv' fr cnt granted(1,2) Some
      by (intro exI [of _ r] exI [of _ s'] exI [of _ L] conjI; (subst if_not_P [OF granted(2)])?; blast)
  qed
qed

theorem pinned_alloc_correct_witness:
  "\<exists>r s'. kernel_pinned_alloc boot_build numa_state_static 0 5000
       (snd (kernel_pinned_memory_initialize \<lparr>pinned_virtual_cursor = 0, pinned_allocated_pages = 0, pinned_released_pages = 0,
          pinned_initialized = False, window = fresh_window booted\<rparr>)) = Some (r, s') \<and>
     vmm_inv boot_build numa_state_static 0 2 {} (window s')"
  (is "\<exists>r s'. kernel_pinned_alloc _ _ _ _ ?s = _ \<and> _")
proof -
  have "vmm_inv boot_build numa_state_static 0 2 {} (window ?s)" "pinned_initialized ?s"
    using booted_window by (simp_all add: kernel_pinned_memory_initialize_def)
  from pinned_alloc_correct [OF this, of 5000] show ?thesis by auto
qed

text \<open>
  C27 (roundtrip): freeing a pinned block with the size it was allocated with gives back exactly what the allocation
  took. The pages are released twice, once by this module and once by the virtual memory manager, but
  the second pass finds them unmapped and releases no frame again.
\<close>

theorem pinned_alloc_free_roundtrip:
  assumes "vmm_inv cfg numa ln D X (window s)" "pinned_initialized s" "0 < unat bytes" "unat bytes \<le> 4096 * VMM_PAGE_COUNT"
    "kernel_pinned_alloc cfg numa ln bytes s = Some (r, t)" "r \<noteq> 0"
  shows "\<exists>s'. kernel_pinned_free cfg numa r bytes t = Some s' \<and> vmm_inv cfg numa ln D X (window s') \<and>
    (\<forall>v. paging_get_physical_address v (space (window s')) = paging_get_physical_address v (space (window s))) \<and>
    reserved (vmm_bitmap (window s')) = reserved (vmm_bitmap (window s)) \<and>
    vmm_frames cfg D X (window s') = vmm_frames cfg D X (window s) \<and>
    pinned_allocated_pages s' - pinned_allocated_pages s = pages_of_size bytes \<and>
    pinned_released_pages s' - pinned_released_pages t = pages_of_size bytes"
proof (cases "first_fit (vmm_bitmap (window s)) (unat (pages_of_size bytes))")
  case None
  then show ?thesis using pinned_refused [OF None assms(3,4)] assms(5,6) by simp
next
  case (Some k)
  let ?n = "unat (pages_of_size bytes)"
  obtain r' t' L x where e': "kernel_pinned_alloc cfg numa ln bytes s = Some (r', t')"
    and inv': "vmm_inv cfg numa ln D X (window t')" and fr: "vmm_frames cfg D X (window t') = vmm_frames cfg D X (window s) - L"
      "r' \<noteq> 0 \<Longrightarrow> L = {}"
    and out: "alloc_outcome D k 0 ?n x r' (window t')" "space x = space (window s)"
      "\<forall>i \<in> {k..<k + ?n}. translation D (window s) (window_page i) = None"
      "reserved (vmm_bitmap x) = reserved (vmm_bitmap (window s)) \<union> {k..<k + ?n}"
    and kn: "k + ?n \<le> VMM_PAGE_COUNT" "k < VMM_PAGE_COUNT" "X \<inter> {k..<k + ?n} = {}" "free_at (vmm_bitmap (window s)) ?n k"
    and cnt: "r' \<noteq> 0 \<Longrightarrow> pinned_allocated_pages t' = pinned_allocated_pages s + pages_of_size bytes" "pinned_initialized t'"
    by (rule pinned_effect [OF assms(1-4) Some refl]) (rule that)
  have eq: "r' = r" "t' = t" using e' assms(5) by simp_all
  note inv' = inv' [unfolded eq] and fr = fr [unfolded eq] and out = out [unfolded eq] and cnt = cnt [unfolded eq]
  from out show ?thesis
  proof (cases rule: outcome_cases)
    case granted
    from pinned_free_effect [OF inv' cnt(2) assms(3) kn(1-3)] obtain s' where s':
      "kernel_pinned_free cfg numa (window_addr k) bytes t = Some s'" "vmm_inv cfg numa ln D X (window s')"
      "reserved (vmm_bitmap (window s')) = reserved (vmm_bitmap (window t)) - {k..<k + ?n}"
      "vmm_frames cfg D X (window s') = vmm_frames cfg D X (window t)"
      "pinned_released_pages s' = pinned_released_pages t + pages_of_size bytes" "pinned_allocated_pages s' = pinned_allocated_pages t"
      "\<forall>p. translation D (window s') p = (if p \<in> window_page ` {k..<k + ?n} then None else translation D (window t) p)" by blast
    have "translation D (window s) p = None" if "p \<in> window_page ` {k..<k + ?n}" for p using that out(3) by (elim imageE) simp
    then have "translation D (window s') p = translation D (window s) p" for p using s'(7) granted(4) by metis
    then have tr: "paging_get_physical_address v (space (window s')) = paging_get_physical_address v (space (window s))" for v
      by (intro same_translations [OF assms(1) s'(2)])
    have "reserved (vmm_bitmap (window s')) = reserved (vmm_bitmap (window s))"
      unfolding s'(3) granted(3) using kn(4) by (auto simp: free_at_def)
    then show ?thesis
      using s'(1,2,4-6) tr fr cnt(1) assms(6) granted(1) by (intro exI [of _ s']) simp
  qed (use assms(6) in simp)
qed

lemma pinned_example:
  assumes "paging_inv real_time_build numa_state_static 0 2 sp" "present (ram (pmm sp)) 2 = {0}"
  obtains s :: pinned where "vmm_inv real_time_build numa_state_static 0 2 {} (window s)" "pinned_initialized s" "window s = fresh_window sp"
  by (rule that [of "\<lparr>pinned_virtual_cursor = 0, pinned_allocated_pages = 0, pinned_released_pages = 0,
      pinned_initialized = True, window = fresh_window sp\<rparr>"]) (use fresh_inv [OF assms(1)] assms(2) in simp_all)

theorem pinned_alloc_free_roundtrip_witness:
  "\<exists>s t s'. kernel_pinned_alloc real_time_build numa_state_static 0 64 s = Some (0xD0000000, t) \<and>
     kernel_pinned_free real_time_build numa_state_static 0xD0000000 64 t = Some s' \<and>
     (\<forall>v. paging_get_physical_address v (space (window s')) = paging_get_physical_address v (space (window s)))"
proof -
  from free_space_exists obtain sp where sp: "paging_inv real_time_build numa_state_static 0 2 sp"
    "frame_budget real_time_build sp = 3" "present (ram (pmm sp)) 2 = {0}" by blast
  obtain s :: pinned where s: "vmm_inv real_time_build numa_state_static 0 2 {} (window s)" "pinned_initialized s" "window s = fresh_window sp"
    by (rule pinned_example [OF sp(1,3)])
  have p: "1 = unat (pages_of_size 64)" by (simp add: pages_of_size_def)
  have b: "0 < unat (64::u32)" "unat (64::u32) \<le> 4096 * VMM_PAGE_COUNT" by simp_all
  have f: "first_fit (vmm_bitmap (window s)) 1 = Some 0" using s(3) fresh_first_fit [of 1] by simp
  have need: "range_tables 0 0 1 - {0} = {832}" by (auto simp: range_tables_def)
  obtain r t x where "kernel_pinned_alloc real_time_build numa_state_static 0 64 s = Some (r, t)" "alloc_outcome 2 0 0 1 x r (window t)" "r \<noteq> 0"
    by (rule pinned_effect [OF s(1,2) b f p]) (use sp(2,3) s(3) need in auto)
  then have t: "kernel_pinned_alloc real_time_build numa_state_static 0 64 s = Some (0xD0000000, t)" by (simp add: alloc_outcome_def)
  show ?thesis
    by (rule exI [of _ s], rule exI [of _ t]) (use pinned_alloc_free_roundtrip [OF s(1,2) b t] t in auto)
qed

text \<open>
  With a single frame left and no page table for the first free page of the window, a pinned
  allocation of one page takes that frame, fails to map it, returns NULL and does not give it back: the
  frame belongs to nobody afterwards and the page of the window stays marked.
\<close>

theorem pinned_table_failure_leaks:
  assumes "vmm_inv cfg numa ln D X (window s)" "pinned_initialized s" "0 < unat bytes" "unat bytes \<le> 4096"
    "first_fit (vmm_bitmap (window s)) 1 = Some k" "window_page k div 1024 \<notin> present (ram (pmm (space (window s)))) D"
    "frame_budget cfg (space (window s)) = 1" "pool_frames cfg (pmm (space (window s))) \<noteq> {}"
  shows "\<exists>s' f. kernel_pinned_alloc cfg numa ln bytes s = Some (0, s') \<and> f \<in> vmm_frames cfg D X (window s) \<and>
    vmm_frames cfg D X (window s') = vmm_frames cfg D X (window s) - {f} \<and>
    reserved (vmm_bitmap (window s')) = insert k (reserved (vmm_bitmap (window s)))"
proof (rule reserve_effect [OF assms(1) _ _ assms(5)])
  have pages: "pages_of_size bytes = 1"
    using pages_of_size(1) [of bytes] assms(3,4) by (intro word_unat_eq_iff [THEN iffD2]) simp
  fix w assume w: "kernel_vmm_reserve_pages (of_nat 1) (window s) = (window_addr k, w)" "vmm_inv cfg numa ln D X w" "space w = space (window s)"
    "reserved (vmm_bitmap w) = reserved (vmm_bitmap (window s)) \<union> {k..<k + 1}" "k < VMM_PAGE_COUNT"
    "X \<inter> {k..<k + 1} = {}" "\<forall>i \<in> {k..<k + 1}. translation D (window s) (window_page i) = None"
  have k: "k \<notin> X" "k \<in> reserved (vmm_bitmap w)" "translation D w (window_page k) = None" using w(3,4,6,7) by auto
  have nz: "window_addr k \<noteq> 0" by (rule window_addr_page(7) [OF w(5)])
  have ready: "frames_ready cfg numa ln (pmm (space (window s)))" using inv_parts(3) [OF assms(1)] by (simp add: paging_inv_def)
  show ?thesis
  proof (cases rule: map_client_page [OF w(2) _ w(5) k, where fl = "0x203", case_names bits empty refused mapped])
    case bits
    show ?case by simp
  next
    case empty
    from pool.alloc_some [OF ready assms(8)] pool.frames_range [OF ready] empty(1) w(3) show ?thesis
      using frame_addr_nonzero by fastforce
  next
    case (refused f m sp m')
    have "pinned_alloc_loop cfg numa ln (window_addr k) [0] (s\<lparr>window := w\<rparr>) = Some (False, s\<lparr>window := w\<lparr>space := sp\<rparr>\<rparr>)"
      using refused(1-3) by (simp add: with_pmm_def kernel_vmm_free_pages_def)
    then have "kernel_pinned_alloc cfg numa ln bytes s = Some (0, s\<lparr>window := w\<lparr>space := sp\<rparr>\<rparr>)"
      using assms(2,3) w(1) nz pages by (auto simp: kernel_pinned_alloc_def simp del: pinned_alloc_loop.simps)
    moreover have "vmm_frames cfg D X w = vmm_frames cfg D X (window s)" using w(3) by (simp add: vmm_frames_def window_frames_def)
    ultimately show ?thesis using refused(10,12) w(4)
      by (intro exI [of _ "s\<lparr>window := w\<lparr>space := sp\<rparr>\<rparr>"] exI [of _ f]) simp
  next
    case (mapped f m sp)
    have "finite (present (ram (pmm (space w))) D)" by (simp add: present_def)
    then have "card (present (ram (pmm sp)) D) = Suc (card (present (ram (pmm (space w))) D))" using mapped(7) assms(6) w(3) by simp
    then show ?thesis using mapped(8) assms(7) w(3) by simp
  qed
qed simp_all

theorem pinned_table_failure_leaks_witness:
  "\<exists>s s' f. kernel_pinned_alloc real_time_build numa_state_static 0 64 s = Some (0, s') \<and>
     f \<in> vmm_frames real_time_build 2 {} (window s) \<and> f \<notin> vmm_frames real_time_build 2 {} (window s')"
proof -
  from one_frame_space obtain sp where sp: "paging_inv real_time_build numa_state_static 0 2 sp"
    "frame_budget real_time_build sp = 1" "present (ram (pmm sp)) 2 = {0}" "pool_frames real_time_build (pmm sp) \<noteq> {}" by blast
  obtain s :: pinned where s: "vmm_inv real_time_build numa_state_static 0 2 {} (window s)" "pinned_initialized s" "window s = fresh_window sp"
    by (rule pinned_example [OF sp(1,3)])
  show ?thesis
    by (rule exI [of _ s]) (use pinned_table_failure_leaks [OF s(1,2), of 64 0] s(3) sp(2-4) fresh_first_fit [of 1] in auto)
qed

end
