(* ===== verification/Tlsf.thy ===== *)
theory Tlsf
  imports Prelude
begin

text \<open>
  \<open>src/kernel/kernel/memory/tlsf.c\<close>: the two-level segregated-fit allocator of the client build. Block headers lie
  in the byte memory (size with two flag bits, previous physical block, free-list links); the index is
  two levels of bitmaps and an array of list heads. The cycle counter is an argument of the operations
  that read it, before and after.
\<close>

abbreviation (input) TLSF_FLI_COUNT :: u32 where "TLSF_FLI_COUNT \<equiv> 16"
abbreviation (input) TLSF_SLI_COUNT :: u32 where "TLSF_SLI_COUNT \<equiv> 4"
abbreviation (input) TLSF_MIN_BLOCK_SIZE :: u32 where "TLSF_MIN_BLOCK_SIZE \<equiv> 16"
abbreviation (input) TLSF_MAX_BLOCK_SIZE :: u32 where "TLSF_MAX_BLOCK_SIZE \<equiv> 65535"
abbreviation (input) TLSF_BLOCK_OVERHEAD :: u32 where "TLSF_BLOCK_OVERHEAD \<equiv> 8"
abbreviation (input) TLSF_ALIGN_MASK :: u32 where "TLSF_ALIGN_MASK \<equiv> 7"

record tlsf_control =
  fl_bitmap :: u32
  sl_bitmap :: "nat \<Rightarrow> u32"
  free_lists :: "nat \<Rightarrow> nat \<Rightarrow> u32"
  pool_start :: u32
  pool_end :: u32
  pool_size :: u32
  free_bytes :: u32
  alloc_count :: u32
  free_op_count :: u32
  failed_alloc_count :: u32
  wcet_alloc_cycles :: u32
  wcet_free_cycles :: u32
  initialized :: bool
  tlsf_ram :: mem

section \<open>Bit scans\<close>

definition tlsf_clz :: "u32 \<Rightarrow> u32" where
  "tlsf_clz v = of_nat (length (takeWhile (\<lambda>i. \<not> bit v i) (rev [0..<32])))"

definition tlsf_ffs :: "u32 \<Rightarrow> u32" where
  "tlsf_ffs v = of_nat (length (takeWhile (\<lambda>i. \<not> bit v i) [0..<32]))"

definition tlsf_log2_floor :: "u32 \<Rightarrow> u32" where
  "tlsf_log2_floor v = 31 - tlsf_clz v"

section \<open>Block helpers\<close>

definition block_get_size :: "mem \<Rightarrow> u32 \<Rightarrow> u32" where
  "block_get_size m b = load32 m b AND NOT 3"

definition block_set_size :: "u32 \<Rightarrow> u32 \<Rightarrow> mem \<Rightarrow> mem" where
  "block_set_size b sz m = store32 m b (sz OR (load32 m b AND 3))"

definition block_is_free :: "mem \<Rightarrow> u32 \<Rightarrow> bool" where
  "block_is_free m b \<longleftrightarrow> load32 m b AND 1 \<noteq> 0"

definition block_set_free :: "u32 \<Rightarrow> mem \<Rightarrow> mem" where
  "block_set_free b m = store32 m b (load32 m b OR 1)"

definition block_set_used :: "u32 \<Rightarrow> mem \<Rightarrow> mem" where
  "block_set_used b m = store32 m b (load32 m b AND NOT 1)"

definition block_is_prev_free :: "mem \<Rightarrow> u32 \<Rightarrow> bool" where
  "block_is_prev_free m b \<longleftrightarrow> load32 m b AND 2 \<noteq> 0"

definition block_set_prev_free :: "u32 \<Rightarrow> mem \<Rightarrow> mem" where
  "block_set_prev_free b m = store32 m b (load32 m b OR 2)"

definition block_set_prev_used :: "u32 \<Rightarrow> mem \<Rightarrow> mem" where
  "block_set_prev_used b m = store32 m b (load32 m b AND NOT 2)"

definition block_to_ptr :: "u32 \<Rightarrow> u32" where "block_to_ptr b = b + TLSF_BLOCK_OVERHEAD"

definition ptr_to_block :: "u32 \<Rightarrow> u32" where "ptr_to_block ptr = ptr - TLSF_BLOCK_OVERHEAD"

definition block_next_phys :: "mem \<Rightarrow> u32 \<Rightarrow> u32" where
  "block_next_phys m b = block_to_ptr b + block_get_size m b"

definition block_is_sentinel :: "mem \<Rightarrow> u32 \<Rightarrow> bool" where
  "block_is_sentinel m b \<longleftrightarrow> block_get_size m b = 0"

abbreviation prev_phys_addr :: "u32 \<Rightarrow> u32" where "prev_phys_addr b \<equiv> b + 4"
abbreviation free_prev_addr :: "u32 \<Rightarrow> u32" where "free_prev_addr b \<equiv> b + 8"
abbreviation free_next_addr :: "u32 \<Rightarrow> u32" where "free_next_addr b \<equiv> b + 12"

section \<open>Mapping of sizes to buckets\<close>

definition mapping_insert :: "u32 \<Rightarrow> u32 \<times> u32" where
  "mapping_insert bytes =
     (if bytes < 8 then
        let sl = bytes div (TLSF_MIN_BLOCK_SIZE div TLSF_SLI_COUNT)
        in (0, if TLSF_SLI_COUNT \<le> sl then TLSF_SLI_COUNT - 1 else sl)
      else
        let fl = tlsf_log2_floor bytes; sl = drop_bit (unat (fl - 2)) bytes XOR 4
        in if TLSF_FLI_COUNT \<le> fl then (TLSF_FLI_COUNT - 1, TLSF_SLI_COUNT - 1) else (fl, sl))"

definition mapping_search :: "u32 \<Rightarrow> u32 \<times> u32" where
  "mapping_search bytes =
     (if 8 \<le> bytes then mapping_insert (bytes + (push_bit (unat (tlsf_log2_floor bytes - 2)) 1 - 1))
      else mapping_insert bytes)"

section \<open>Free lists\<close>

definition set_bucket :: "u32 \<Rightarrow> u32 \<Rightarrow> u32 \<Rightarrow> tlsf_control \<Rightarrow> tlsf_control" where
  "set_bucket fl sl b s = s\<lparr>free_lists := (free_lists s)(unat fl := (free_lists s (unat fl))(unat sl := b))\<rparr>"

definition free_list_remove :: "u32 \<Rightarrow> tlsf_control \<Rightarrow> tlsf_control" where
  "free_list_remove block s =
     (let m = tlsf_ram s; prev = load32 m (free_prev_addr block); next = load32 m (free_next_addr block);
          m = (if next \<noteq> 0 then store32 m (free_prev_addr next) prev else m);
          m = (if prev \<noteq> 0 then store32 m (free_next_addr prev) next else m);
          s = s\<lparr>tlsf_ram := m\<rparr>; (fl, sl) = mapping_insert (block_get_size m block)
      in if free_lists s (unat fl) (unat sl) = block then
           let s = set_bucket fl sl next s in
           if next = 0 then
             let s = s\<lparr>sl_bitmap := (sl_bitmap s)(unat fl := sl_bitmap s (unat fl) AND NOT (push_bit (unat sl) 1))\<rparr>
             in if sl_bitmap s (unat fl) = 0 then s\<lparr>fl_bitmap := fl_bitmap s AND NOT (push_bit (unat fl) 1)\<rparr> else s
           else s
         else s)"

definition free_list_insert :: "u32 \<Rightarrow> tlsf_control \<Rightarrow> tlsf_control" where
  "free_list_insert block s =
     (let m = tlsf_ram s; (fl, sl) = mapping_insert (block_get_size m block); head = free_lists s (unat fl) (unat sl);
          m = store32 m (free_prev_addr block) 0;
          m = store32 m (free_next_addr block) head;
          m = (if head \<noteq> 0 then store32 m (free_prev_addr head) block else m);
          s = set_bucket fl sl block (s\<lparr>tlsf_ram := m\<rparr>)
      in s\<lparr>fl_bitmap := fl_bitmap s OR push_bit (unat fl) 1,
           sl_bitmap := (sl_bitmap s)(unat fl := sl_bitmap s (unat fl) OR push_bit (unat sl) 1)\<rparr>)"

definition find_suitable_block :: "u32 \<Rightarrow> u32 \<Rightarrow> tlsf_control \<Rightarrow> u32" where
  "find_suitable_block fl sl s =
     (let sl_map = sl_bitmap s (unat fl) AND push_bit (unat sl) (NOT 0) in
      if sl_map = 0 then
        let fl_map = fl_bitmap s AND push_bit (unat (fl + 1)) (NOT 0) in
        if fl_map = 0 then 0
        else let fl = tlsf_ffs fl_map in free_lists s (unat fl) (unat (tlsf_ffs (sl_bitmap s (unat fl))))
      else free_lists s (unat fl) (unat (tlsf_ffs sl_map)))"

definition block_split :: "u32 \<Rightarrow> u32 \<Rightarrow> mem \<Rightarrow> u32 \<times> mem" where
  "block_split block bytes m =
     (let remaining = block_get_size m block - bytes - TLSF_BLOCK_OVERHEAD;
          rest = block_to_ptr block + bytes;
          m = store32 m rest 0;
          m = block_set_size rest remaining m;
          m = store32 m (prev_phys_addr rest) block;
          m = block_set_size block bytes m;
          next = block_next_phys m rest
      in (rest, if \<not> block_is_sentinel m next then store32 m (prev_phys_addr next) rest else m))"

definition block_absorb_next :: "u32 \<Rightarrow> u32 \<Rightarrow> mem \<Rightarrow> mem" where
  "block_absorb_next block next m =
     (let new_size = block_get_size m block + TLSF_BLOCK_OVERHEAD + block_get_size m next;
          m = block_set_size block new_size m;
          next_next = block_next_phys m block
      in if \<not> block_is_sentinel m next_next then store32 m (prev_phys_addr next_next) block else m)"

section \<open>Public operations\<close>

text \<open>Initialisation clears the whole control structure; the memory is not part of it.\<close>

definition tlsf_cleared :: "tlsf_control \<Rightarrow> tlsf_control" where
  "tlsf_cleared s =
     \<lparr>fl_bitmap = 0, sl_bitmap = (\<lambda>_. 0), free_lists = (\<lambda>_ _. 0), pool_start = 0, pool_end = 0, pool_size = 0, free_bytes = 0,
      alloc_count = 0, free_op_count = 0, failed_alloc_count = 0, wcet_alloc_cycles = 0, wcet_free_cycles = 0,
      initialized = False, tlsf_ram = tlsf_ram s\<rparr>"

definition kernel_tlsf_initialize :: "u32 \<Rightarrow> u32 \<Rightarrow> tlsf_control \<Rightarrow> bool \<times> tlsf_control" where
  "kernel_tlsf_initialize buffer bytes s =
     (if buffer = 0 \<or> bytes < TLSF_BLOCK_OVERHEAD + TLSF_MIN_BLOCK_SIZE + TLSF_BLOCK_OVERHEAD then (False, s)
      else
        let (buffer, bytes) =
              (if buffer AND TLSF_ALIGN_MASK \<noteq> 0 then
                 let aligned = (buffer + TLSF_ALIGN_MASK) AND NOT TLSF_ALIGN_MASK in (aligned, bytes - (aligned - buffer))
               else (buffer, bytes));
            s = (tlsf_cleared s)\<lparr>pool_start := buffer, pool_end := buffer + bytes, pool_size := bytes\<rparr>;
            sentinel = pool_end s - TLSF_BLOCK_OVERHEAD;
            m = store32 (tlsf_ram s) sentinel 0;
            m = store32 m (prev_phys_addr sentinel) 0;
            usable = bytes - TLSF_BLOCK_OVERHEAD - TLSF_BLOCK_OVERHEAD;
            m = store32 m buffer 0;
            m = block_set_size buffer usable m;
            m = block_set_free buffer m;
            m = store32 m (prev_phys_addr buffer) 0;
            m = store32 m (free_prev_addr buffer) 0;
            m = store32 m (free_next_addr buffer) 0;
            m = store32 m (prev_phys_addr sentinel) buffer;
            s = free_list_insert buffer (s\<lparr>tlsf_ram := m\<rparr>)
        in (True, s\<lparr>free_bytes := usable, initialized := True\<rparr>))"

definition tlsf_request :: "u32 \<Rightarrow> u32" where
  "tlsf_request bytes =
     ((if bytes < TLSF_MIN_BLOCK_SIZE then TLSF_MIN_BLOCK_SIZE else bytes) + TLSF_ALIGN_MASK) AND NOT TLSF_ALIGN_MASK"

definition kernel_tlsf_alloc :: "u32 \<Rightarrow> u32 \<Rightarrow> u32 \<Rightarrow> tlsf_control \<Rightarrow> u32 \<times> tlsf_control" where
  "kernel_tlsf_alloc t0 t1 request_size s =
     (if \<not> initialized s \<or> request_size = 0 then (0, s)
      else if TLSF_MAX_BLOCK_SIZE < request_size then (0, s\<lparr>failed_alloc_count := failed_alloc_count s + 1\<rparr>)
      else
        let bytes = tlsf_request request_size; (fl, sl) = mapping_search bytes; block = find_suitable_block fl sl s
        in if block = 0 then (0, s\<lparr>failed_alloc_count := failed_alloc_count s + 1\<rparr>)
        else
          let s = free_list_remove block s; bsize = block_get_size (tlsf_ram s) block;
              s = (if bytes + TLSF_BLOCK_OVERHEAD + TLSF_MIN_BLOCK_SIZE \<le> bsize then
                     let (rest, m) = block_split block bytes (tlsf_ram s);
                         m = block_set_prev_used rest (block_set_free rest m);
                         s = free_list_insert rest (s\<lparr>tlsf_ram := m\<rparr>)
                     in s\<lparr>free_bytes := free_bytes s - (bytes + TLSF_BLOCK_OVERHEAD)\<rparr>
                   else s\<lparr>free_bytes := free_bytes s - bsize\<rparr>);
              m = block_set_used block (tlsf_ram s); next = block_next_phys m block;
              m = (if \<not> block_is_sentinel m next then block_set_prev_used next m else m);
              cycles = t1 - t0
          in (block_to_ptr block,
              s\<lparr>tlsf_ram := m, alloc_count := alloc_count s + 1,
                wcet_alloc_cycles := (if wcet_alloc_cycles s < cycles then cycles else wcet_alloc_cycles s)\<rparr>))"

definition tlsf_merge_next :: "u32 \<Rightarrow> tlsf_control \<Rightarrow> u32 \<times> tlsf_control" where
  "tlsf_merge_next block s =
     (let m = tlsf_ram s; next = block_next_phys m block in
      if \<not> block_is_sentinel m next \<and> block_is_free m next then
        let s = free_list_remove next s in (TLSF_BLOCK_OVERHEAD, s\<lparr>tlsf_ram := block_absorb_next block next (tlsf_ram s)\<rparr>)
      else (0, s))"

definition tlsf_merge_prev :: "u32 \<Rightarrow> tlsf_control \<Rightarrow> u32 \<times> u32 \<times> tlsf_control" where
  "tlsf_merge_prev block s =
     (let m = tlsf_ram s; prev = load32 m (prev_phys_addr block) in
      if block_is_prev_free m block \<and> prev \<noteq> 0 \<and> block_is_free m prev then
        let s = free_list_remove prev s in (prev, TLSF_BLOCK_OVERHEAD, s\<lparr>tlsf_ram := block_absorb_next prev block (tlsf_ram s)\<rparr>)
      else (block, 0, s))"

definition kernel_tlsf_free :: "u32 \<Rightarrow> u32 \<Rightarrow> u32 \<Rightarrow> tlsf_control \<Rightarrow> tlsf_control" where
  "kernel_tlsf_free t0 t1 ptr s =
     (if ptr = 0 \<or> \<not> initialized s then s
      else
        let block = ptr_to_block ptr; added_free_bytes = block_get_size (tlsf_ram s) block;
            (extra, s) = tlsf_merge_next block s; added_free_bytes = added_free_bytes + extra;
            (block, extra, s) = tlsf_merge_prev block s; added_free_bytes = added_free_bytes + extra;
            s = free_list_insert block (s\<lparr>tlsf_ram := block_set_free block (tlsf_ram s)\<rparr>);
            s = s\<lparr>free_bytes := free_bytes s + added_free_bytes\<rparr>;
            m = tlsf_ram s; next_after = block_next_phys m block;
            m = (if \<not> block_is_sentinel m next_after then block_set_prev_free next_after m else m);
            cycles = t1 - t0
        in s\<lparr>tlsf_ram := m, free_op_count := free_op_count s + 1,
             wcet_free_cycles := (if wcet_free_cycles s < cycles then cycles else wcet_free_cycles s)\<rparr>)"

definition kernel_tlsf_owns :: "u32 \<Rightarrow> tlsf_control \<Rightarrow> bool" where
  "kernel_tlsf_owns ptr s \<longleftrightarrow> ptr \<noteq> 0 \<and> initialized s \<and> pool_start s \<le> ptr \<and> ptr < pool_end s"

section \<open>Bit scans find the extreme set bits\<close>

lemma takeWhile_first:
  assumes "P (xs ! k)" "k < length xs" "\<And>j. j < k \<Longrightarrow> \<not> P (xs ! j)"
  shows "length (takeWhile (\<lambda>x. \<not> P x) xs) = k"
proof -
  have "takeWhile (\<lambda>x. \<not> P x) xs = take k xs"
    using assms by (intro takeWhile_eq_take_P_nth) simp_all
  then show ?thesis using assms(2) by simp
qed

lemma ffs_least:
  assumes "bit v k" "\<And>j. j < k \<Longrightarrow> \<not> bit v j"
  shows "tlsf_ffs v = of_nat k"
proof -
  have k: "k < 32" using assms(1) bit_imp_le_length [of v k] by simp
  then have "length (takeWhile (\<lambda>i. \<not> bit v i) [0..<32]) = k"
    using assms by (intro takeWhile_first) simp_all
  then show ?thesis by (simp add: tlsf_ffs_def)
qed

lemma log2_greatest:
  assumes "bit v k" "\<And>j. k < j \<Longrightarrow> \<not> bit v j"
  shows "tlsf_log2_floor v = of_nat k"
proof -
  have k: "k < 32" using assms(1) bit_imp_le_length [of v k] by simp
  have n: "rev [0..<32] ! j = 31 - j" if "j < 32" for j using that by (simp add: rev_nth)
  have "length (takeWhile (\<lambda>i. \<not> bit v i) (rev [0..<32])) = 31 - k"
    using assms k n by (intro takeWhile_first) simp_all
  then show ?thesis using k by (simp add: tlsf_log2_floor_def tlsf_clz_def of_nat_diff)
qed

lemma bit_bounds:
  fixes v :: u32
  assumes "2 ^ k \<le> unat v" "unat v < 2 ^ Suc k"
  shows "bit v k" "\<And>j. k < j \<Longrightarrow> \<not> bit v j"
proof -
  have b: "bit v j \<longleftrightarrow> bit (unat v) j" for j by (simp add: bit_unsigned_iff bit_imp_le_length)
  have "unat v div 2 ^ k = 1" using assms by (intro div_nat_eqI) simp_all
  then show "bit v k" unfolding b by (simp add: bit_iff_odd)
  show "\<not> bit v j" if "k < j" for j
  proof -
    have "unat v < 2 ^ j" using assms(2) that by (meson Suc_leI less_le_trans one_le_numeral power_increasing)
    then show ?thesis unfolding b by (simp add: bit_iff_odd)
  qed
qed

lemma log2_floor: "2 ^ k \<le> unat v \<Longrightarrow> unat v < 2 ^ Suc k \<Longrightarrow> tlsf_log2_floor v = of_nat k"
  using bit_bounds log2_greatest by metis

section \<open>Buckets\<close>

abbreviation log_class :: "nat \<Rightarrow> nat \<Rightarrow> bool" where
  "log_class n k \<equiv> 2 ^ k \<le> n \<and> n < 2 ^ Suc k"

lemma log_class_exists: "0 < n \<Longrightarrow> \<exists>k. log_class n k"
proof (induction n rule: less_induct)
  case (less n)
  show ?case
  proof (cases "n = 1")
    case False
    then have "0 < n div 2" "n div 2 < n" using less.prems by auto
    then obtain k where "2 ^ k \<le> n div 2" "n div 2 < 2 ^ Suc k" using less.IH by blast
    then have "log_class n (Suc k)" by auto
    then show ?thesis ..
  qed (auto intro: exI [of _ 0])
qed

lemma log_class_less: "log_class n k \<Longrightarrow> n < 2 ^ j \<Longrightarrow> k < j"
  by (meson le_less_trans not_le one_less_numeral_iff power_less_imp_less_exp semiring_norm(76))

lemma log_class_mono: "log_class a j \<Longrightarrow> log_class b k \<Longrightarrow> a \<le> b \<Longrightarrow> j \<le> k"
  by (metis le_less_trans log_class_less not_less_eq_eq order_less_le_trans not_le)

lemma log_class_three: "log_class n k \<Longrightarrow> 8 \<le> n \<Longrightarrow> 3 \<le> k"
  by (rule log_class_mono [where a = 8 and j = 3 and b = n and k = k]) simp_all

definition bucket :: "u32 \<times> u32 \<Rightarrow> nat" where
  "bucket p = 4 * unat (fst p) + unat (snd p)"

text \<open>The buckets in order of size: four per power of two, and everything from 64 KiB on in the last one.\<close>

definition size_bucket :: "nat \<Rightarrow> nat \<Rightarrow> nat" where
  "size_bucket k n = 4 * k + (n div 2 ^ (k - 2) - 4)"

lemma quarter:
  assumes "log_class n k" "2 \<le> k"
  shows "4 \<le> n div 2 ^ (k - 2)" "n div 2 ^ (k - 2) < 8"
proof -
  obtain j where "k = j + 2" using assms(2) by (metis add.commute le_Suc_ex)
  then have "(2::nat) ^ k = 4 * 2 ^ (k - 2)" "(2::nat) ^ Suc k = 8 * 2 ^ (k - 2)" by simp_all
  then show "4 \<le> n div 2 ^ (k - 2)" "n div 2 ^ (k - 2) < 8"
    using assms(1) by (simp_all add: less_eq_div_iff_mult_less_eq div_less_iff_less_mult)
qed

lemma quarter_floor:
  assumes "log_class n k" "3 \<le> k"
  shows "log_class (n div 2 ^ (k - 2) * 2 ^ (k - 2)) k"
proof -
  let ?g = "2 ^ (k - 2) :: nat"
  obtain j where "k = 2 + j" using le_Suc_ex [of 2 k] assms(2) by auto
  then have p: "(2::nat) ^ k = 4 * ?g" by simp
  have "4 * ?g \<le> n div ?g * ?g" using quarter(1) [OF assms(1)] assms(2) by (intro mult_le_mono1) simp
  moreover have "n div ?g * ?g \<le> n" by simp
  ultimately show ?thesis using p assms(1) by linarith
qed

lemma insert_class:
  assumes "log_class (unat v) k" "3 \<le> k" "k < 16"
  shows "mapping_insert v = (of_nat k, of_nat (unat v div 2 ^ (k - 2) - 4))"
proof -
  have l: "tlsf_log2_floor v = of_nat k" using assms(1) by (intro log2_floor) simp_all
  have "(2::nat) ^ 3 \<le> 2 ^ k" using assms(2) by (rule power_increasing) simp
  then have big: "\<not> v < 8" using assms(1) by (simp add: word_less_nat_alt)
  have k: "unat (of_nat k - 2 :: u32) = k - 2" "\<not> (16::u32) \<le> of_nat k" using assms(2,3)
    by (simp_all add: unat_sub_if' word_le_nat_alt unsigned_of_nat take_bit_nat_eq_self)
  define q where "q = unat v div 2 ^ (k - 2)"
  have "4 \<le> q" "q < 8" using quarter [OF assms(1)] assms(2) by (simp_all add: q_def)
  then have "q \<in> {4, 5, 6, 7}" by auto
  then have "(of_nat q XOR 4 :: u32) = of_nat (q - 4)" by auto
  moreover have dq: "unat (drop_bit (k - 2) v) = q" unfolding unat_drop_bit_eq q_def by (simp add: drop_bit_eq_div)
  have "drop_bit (k - 2) v = of_nat q" unfolding dq [symmetric] by simp
  ultimately show ?thesis using big k l by (simp add: mapping_insert_def q_def)
qed

lemma bucket_insert:
  assumes "log_class (unat v) k" "3 \<le> k" "k < 16"
  shows "bucket (mapping_insert v) = size_bucket k (unat v)" "bucket (mapping_insert v) < 4 * Suc k"
proof -
  have "unat v div 2 ^ (k - 2) - 4 < 4" using quarter [OF assms(1)] assms(2) by simp
  then show "bucket (mapping_insert v) = size_bucket k (unat v)" "bucket (mapping_insert v) < 4 * Suc k"
    unfolding insert_class [OF assms] using assms(3)
    by (simp_all add: bucket_def size_bucket_def unsigned_of_nat take_bit_nat_eq_self)
qed

text \<open>
  A size that is a multiple of its bucket's granularity is the least one of its bucket: every smaller block is
  filed in an earlier bucket.
\<close>

lemma bucket_floor:
  assumes "log_class F k" "3 \<le> k" "2 ^ (k - 2) dvd F" "log_class (unat b) j" "3 \<le> j" "j < 16" "unat b < F"
  shows "bucket (mapping_insert b) < size_bucket k F"
proof (cases "j = k")
  case True
  have "unat b div 2 ^ (k - 2) < F div 2 ^ (k - 2)" using assms(3,7) by (metis div_less_iff_less_mult dvd_div_mult_self zero_less_power zero_less_numeral)
  moreover have "4 \<le> unat b div 2 ^ (k - 2)" using quarter(1) [OF assms(4)] True assms(5) by simp
  ultimately show ?thesis unfolding bucket_insert(1) [OF assms(4-6)] by (simp add: size_bucket_def True)
next
  case False
  have "j \<le> k" using log_class_mono [OF assms(4,1)] assms(7) by simp
  then have "4 * Suc j \<le> 4 * k" using False by simp
  then show ?thesis using bucket_insert(2) [OF assms(4-6)] by (simp add: size_bucket_def)
qed

lemma search_round:
  assumes "log_class (unat v) k" "3 \<le> k" "k < 16" "unat v \<le> 57344"
  shows "mapping_search v = mapping_insert (v + (2 ^ (k - 2) - 1))" "unat (v + (2 ^ (k - 2) - 1) :: u32) = unat v + (2 ^ (k - 2) - 1)"
    "unat v + (2 ^ (k - 2) - 1) < 65536"
proof -
  have l: "tlsf_log2_floor v = of_nat k" using assms(1) by (intro log2_floor) simp_all
  have "(2::nat) ^ 3 \<le> 2 ^ k" using assms(2) by (rule power_increasing) simp
  then have big: "8 \<le> v" using assms(1) by (simp add: word_le_nat_alt)
  have "unat (of_nat k - 2 :: u32) = k - 2" using assms(2,3)
    by (simp add: unat_sub_if' unsigned_of_nat take_bit_nat_eq_self)
  then show "mapping_search v = mapping_insert (v + (2 ^ (k - 2) - 1))" using big l by (simp add: mapping_search_def)
  have p: "(2::nat) ^ (k - 2) \<le> 8192" using assms(3) power_increasing [of "k - 2" 13 "2::nat"] by simp
  show less: "unat v + (2 ^ (k - 2) - 1) < 65536" using p assms(4) by simp
  have pw: "unat (2 ^ (k - 2) :: u32) = 2 ^ (k - 2)"
    using assms(3) unsigned_of_nat [of "2 ^ (k - 2)", where 'a = nat and 'b = 32] by (simp add: take_bit_nat_eq_self)
  then have "(2 ^ (k - 2) :: u32) \<noteq> 0" by (metis power_not_zero unat_0 zero_neq_numeral)
  then have "unat (2 ^ (k - 2) - 1 :: u32) = 2 ^ (k - 2) - 1" using pw unat_minus_one by metis
  then show "unat (v + (2 ^ (k - 2) - 1) :: u32) = unat v + (2 ^ (k - 2) - 1)" using less by (simp add: unat_word_ariths)
qed

lemma search_sound:
  assumes "8 \<le> unat v" "unat v \<le> 57344" "8 \<le> unat b" "unat b < 65536"
    "bucket (mapping_search v) \<le> bucket (mapping_insert b)"
  shows "unat v \<le> unat b"
proof (rule ccontr)
  assume less: "\<not> unat v \<le> unat b"
  obtain k where k: "log_class (unat v) k" using log_class_exists [of "unat v"] assms(1) by auto
  have k3: "3 \<le> k" by (rule log_class_three [OF k assms(1)])
  have k16: "k < 16" using log_class_less [OF k, of 16] assms(2) by simp
  obtain j where j: "log_class (unat b) j" using log_class_exists [of "unat b"] assms(3) by auto
  have j3: "3 \<le> j" by (rule log_class_three [OF j assms(3)])
  have j16: "j < 16" using log_class_less [OF j, of 16] assms(4) by simp
  let ?r = "v + (2 ^ (k - 2) - 1) :: u32"
  note r = search_round [OF k k3 k16 assms(2)]
  obtain i where i: "log_class (unat ?r) i" using log_class_exists [of "unat ?r"] r(2) assms(1) by auto
  have i16: "i < 16" using log_class_less [OF i, of 16] r(2,3) by simp
  have "unat v \<le> unat ?r" unfolding r(2) by (rule le_add1)
  then have ki: "k \<le> i" by (rule log_class_mono [OF k i])
  then have i3: "3 \<le> i" using k3 by simp
  define F where "F = unat ?r div 2 ^ (i - 2) * 2 ^ (i - 2)"
  have q: "4 \<le> unat ?r div 2 ^ (i - 2)" "unat ?r div 2 ^ (i - 2) < 8" using quarter [OF i] i3 by simp_all
  have F: "log_class F i" "2 ^ (i - 2) dvd F" "F div 2 ^ (i - 2) = unat ?r div 2 ^ (i - 2)"
    using quarter_floor [OF i] i3 by (simp_all add: F_def)
  have "unat v \<le> F"
  proof (cases "i = k")
    case True
    have "unat ?r = unat v + (2 ^ (i - 2) - 1)" using r(2) True by simp
    moreover have "F + unat ?r mod 2 ^ (i - 2) = unat ?r" unfolding F_def by (rule div_mult_mod_eq)
    moreover have "unat ?r mod 2 ^ (i - 2) < 2 ^ (i - 2)" by simp
    ultimately show ?thesis by linarith
  next
    case False
    then have "(2::nat) ^ Suc k \<le> 2 ^ i" using ki by (intro power_increasing) simp_all
    then show ?thesis using F(1) k by linarith
  qed
  then have "unat b < F" using less by simp
  from bucket_floor [OF F(1) i3 F(2) j j3 j16 this] have "bucket (mapping_insert b) < size_bucket i F" .
  moreover have "size_bucket i F = bucket (mapping_insert ?r)" unfolding bucket_insert(1) [OF i i3 i16] by (simp add: size_bucket_def F(3))
  ultimately show False using assms(5) r(1) by simp
qed

text \<open>
  For every request up to 57344 bytes the rounded-up search bucket is sound: no block filed in that
  bucket or in a later one is smaller than the request.
\<close>

theorem mapping_search_sound:
  assumes "8 \<le> unat v" "unat v \<le> 57344" "8 \<le> unat b" "unat b < 65536"
    "bucket (mapping_search v) \<le> bucket (mapping_insert b)"
  shows "unat v \<le> unat b"
  by (rule search_sound [OF assms])

theorem mapping_search_sound_witness:
  "bucket (mapping_search 100) \<le> bucket (mapping_insert 112) \<and> unat (100::u32) \<le> unat (112::u32)"
proof -
  have "log_class (unat (112::u32)) 6" "log_class (unat (100::u32)) 6" by simp_all
  then have "mapping_insert 112 = (6, 3)" "mapping_search 100 = mapping_insert 115"
    using insert_class [of 6 112] search_round(1) [of 6 100] by simp_all
  moreover have "mapping_insert 115 = (6, 3)" using insert_class [of 6 115] by simp
  ultimately have "bucket (mapping_search 100) \<le> bucket (mapping_insert 112)" by simp
  then show ?thesis using mapping_search_sound [of 100 112] by simp
qed

section \<open>The index\<close>

text \<open>
  The bitmaps agree with the list heads, and every head is filed in the bucket of its size.
\<close>

definition head_of :: "tlsf_control \<Rightarrow> nat \<Rightarrow> u32" where
  "head_of s i = free_lists s (i div 4) (i mod 4)"

definition index_ok :: "tlsf_control \<Rightarrow> bool" where
  "index_ok s \<longleftrightarrow> (\<forall>f. bit (fl_bitmap s) f \<longleftrightarrow> f < 16 \<and> sl_bitmap s f \<noteq> 0) \<and>
     (\<forall>f < 16. \<forall>l. bit (sl_bitmap s f) l \<longleftrightarrow> l < 4 \<and> free_lists s f l \<noteq> 0)"

definition filed :: "tlsf_control \<Rightarrow> bool" where
  "filed s \<longleftrightarrow> (\<forall>i < 64. head_of s i \<noteq> 0 \<longrightarrow> 8 \<le> unat (block_get_size (tlsf_ram s) (head_of s i)) \<and>
     bucket (mapping_insert (block_get_size (tlsf_ram s) (head_of s i))) = i)"

text \<open>The search as a specification: the first non-empty bucket from \<open>i\<close> on.\<close>

definition first_bucket :: "tlsf_control \<Rightarrow> nat \<Rightarrow> nat option" where
  "first_bucket s i = find (\<lambda>j. head_of s j \<noteq> 0) [i..<64]"

lemma least_bit:
  fixes v :: u32
  assumes "v \<noteq> 0"
  obtains k where "bit v k" "\<And>j. j < k \<Longrightarrow> \<not> bit v j" "tlsf_ffs v = of_nat k" "k < 32"
proof -
  have "\<exists>n. bit v n" using assms by (auto simp: bit_eq_iff)
  then have k: "bit v (LEAST n. bit v n)" by (rule LeastI_ex)
  have l: "\<not> bit v j" if "j < (LEAST n. bit v n)" for j using that by (rule not_less_Least)
  show thesis using that [OF k l ffs_least [OF k l]] bit_imp_le_length [OF k] by simp
qed

lemma first_bucketI:
  assumes "i \<le> j" "j < 64" "head_of s j \<noteq> 0" "\<And>x. i \<le> x \<Longrightarrow> x < j \<Longrightarrow> head_of s x = 0"
  shows "first_bucket s i = Some j"
  unfolding first_bucket_def find_Some_iff using assms by (intro exI [of _ "j - i"]) auto

lemma quarter_same:
  assumes "4 * a + b \<le> x" "x div 4 = (a::nat)"
  shows "b \<le> x mod 4"
  using assms mult_div_mod_eq [of 4 x] by linarith

lemma quarter_later: "4 * a + b \<le> x \<Longrightarrow> x div 4 \<noteq> a \<Longrightarrow> a < x div (4::nat)"
  using div_le_mono [of "4 * a" x 4] by simp

lemma quarter_cases:
  assumes "4 * a + b \<le> x" "x < 4 * c + d" "d < (4::nat)"
  shows "x div 4 = a \<and> b \<le> x mod 4 \<or> a < x div 4 \<and> x div 4 < c \<or> x div 4 = c \<and> x mod 4 < d"
proof -
  have "x < (c + 1) * 4" using assms(2,3) by simp
  then have "x div 4 < c + 1" by (rule less_mult_imp_div_less)
  moreover have "x mod 4 < d" if "x div 4 = c" using assms(2) that mult_div_mod_eq [of 4 x] by linarith
  ultimately show ?thesis using quarter_same [OF assms(1)] quarter_later [OF assms(1)] by linarith
qed

lemma index_bits:
  assumes "index_ok s"
  shows "f < 16 \<Longrightarrow> bit (sl_bitmap s f) l \<longleftrightarrow> l < 4 \<and> free_lists s f l \<noteq> 0" "bit (fl_bitmap s) f \<longleftrightarrow> f < 16 \<and> sl_bitmap s f \<noteq> 0"
    "f < 16 \<Longrightarrow> sl_bitmap s f = 0 \<Longrightarrow> x div 4 = f \<Longrightarrow> head_of s x = 0"
proof -
  show sl: "bit (sl_bitmap s f) l \<longleftrightarrow> l < 4 \<and> free_lists s f l \<noteq> 0" if "f < 16" for f l using assms that by (simp add: index_ok_def)
  show "bit (fl_bitmap s) f \<longleftrightarrow> f < 16 \<and> sl_bitmap s f \<noteq> 0" using assms by (simp add: index_ok_def)
  show "f < 16 \<Longrightarrow> sl_bitmap s f = 0 \<Longrightarrow> x div 4 = f \<Longrightarrow> head_of s x = 0" using sl [of f "x mod 4"] by (simp add: head_of_def)
qed

text \<open>The search inside the requested class, and in the later ones.\<close>

lemma find_in_class:
  assumes ok: "index_ok s" and f: "f < 16" and l0: "l0 < 4" and nz: "sl_bitmap s f AND push_bit l0 (NOT 0) \<noteq> 0"
  shows "\<exists>l. tlsf_ffs (sl_bitmap s f AND push_bit l0 (NOT 0)) = of_nat l \<and> l < 4 \<and> first_bucket s (4 * f + l0) = Some (4 * f + l)"
proof -
  let ?sm = "sl_bitmap s f AND push_bit l0 (NOT 0)"
  have sm: "bit ?sm l \<longleftrightarrow> l0 \<le> l \<and> l < 4 \<and> free_lists s f l \<noteq> 0" for l
    using index_bits(1) [OF ok f, of l] by (auto simp: bit_simps)
  obtain l where l: "bit ?sm l" "\<And>j. j < l \<Longrightarrow> \<not> bit ?sm j" "tlsf_ffs ?sm = of_nat l" using least_bit [OF nz] by blast
  then have l': "l0 \<le> l" "l < 4" "free_lists s f l \<noteq> 0" using sm by auto
  have "first_bucket s (4 * f + l0) = Some (4 * f + l)"
  proof (rule first_bucketI)
    fix x assume x: "4 * f + l0 \<le> x" "x < 4 * f + l"
    have "x div 4 = f" using x l'(2) by (intro div_nat_eqI) simp_all
    then have "x div 4 = f" "x mod 4 < l" "l0 \<le> x mod 4" using x mult_div_mod_eq [of 4 x] by linarith+
    then show "head_of s x = 0" using l(2) [of "x mod 4"] sm [of "x mod 4"] l'(2) by (simp add: head_of_def)
  qed (use l' f in \<open>simp_all add: head_of_def\<close>)
  then show ?thesis using l(3) l'(2) by blast
qed

lemma find_in_later:
  assumes ok: "index_ok s" and f: "f < 16" and l0: "l0 < 4" and none: "\<And>l. l0 \<le> l \<Longrightarrow> l < 4 \<Longrightarrow> free_lists s f l = 0"
    and fm: "fm = fl_bitmap s AND push_bit (Suc f) (NOT 0)"
  shows "fm = 0 \<Longrightarrow> first_bucket s (4 * f + l0) = None"
    "fm \<noteq> 0 \<Longrightarrow> \<exists>g l. tlsf_ffs fm = of_nat g \<and> g < 16 \<and> tlsf_ffs (sl_bitmap s g) = of_nat l \<and> l < 4 \<and>
       first_bucket s (4 * f + l0) = Some (4 * g + l)"
proof -
  have bits: "bit fm g \<longleftrightarrow> f < g \<and> g < 16 \<and> sl_bitmap s g \<noteq> 0" for g
    using index_bits(2) [OF ok, of g] unfolding fm by (auto simp: bit_simps)
  have here: "head_of s x = 0" if "x div 4 = f" "l0 \<le> x mod 4" for x using none [of "x mod 4"] that by (simp add: head_of_def)
  show "first_bucket s (4 * f + l0) = None" if "fm = 0"
  proof -
    have "head_of s x = 0" if "4 * f + l0 \<le> x" "x < 64" for x
    proof (cases "x div 4 = f")
      case True
      then show ?thesis using here quarter_same [OF that(1)] by blast
    next
      case False
      then have d: "f < x div 4" "x div 4 < 16" using quarter_later [OF that(1)] that(2) by auto
      then show ?thesis using bits [of "x div 4"] \<open>fm = 0\<close> index_bits(3) [OF ok d(2) _ refl] by simp
    qed
    then show ?thesis by (auto simp: first_bucket_def find_None_iff)
  qed
  assume "fm \<noteq> 0"
  then obtain g where g: "bit fm g" "\<And>j. j < g \<Longrightarrow> \<not> bit fm j" "tlsf_ffs fm = of_nat g" using least_bit by blast
  then have g': "f < g" "g < 16" "sl_bitmap s g \<noteq> 0" using bits by auto
  have all: "sl_bitmap s g AND push_bit 0 (NOT 0) = sl_bitmap s g" by simp
  obtain l where l: "tlsf_ffs (sl_bitmap s g) = of_nat l" "l < 4" "first_bucket s (4 * g) = Some (4 * g + l)"
    using find_in_class [OF ok g'(2), of 0] g'(3) unfolding all by auto
  have top: "head_of s (4 * g + l) \<noteq> 0" "x \<in> {4 * g..<4 * g + l} \<Longrightarrow> head_of s x = 0" for x
    using l(3) unfolding first_bucket_def find_Some_iff by auto (metis add_diff_inverse_nat linorder_not_less nat_add_left_cancel_less)
  have "first_bucket s (4 * f + l0) = Some (4 * g + l)"
  proof (rule first_bucketI)
    fix x assume x: "4 * f + l0 \<le> x" "x < 4 * g + l"
    from quarter_cases [OF x l(2)] show "head_of s x = 0"
    proof (elim disjE conjE)
      assume "f < x div 4" "x div 4 < g"
      then show ?thesis using g(2) [of "x div 4"] bits [of "x div 4"] g'(2) index_bits(3) [OF ok _ _ refl, of x] by simp
    next
      assume "x div 4 = g" "x mod 4 < l"
      then have "x \<in> {4 * g..<4 * g + l}" using x(2) by auto
      then show ?thesis by (rule top(2))
    qed (rule here)
  qed (use g'(1,2) l0 l(2) top(1) in auto)
  then show "\<exists>g l. tlsf_ffs fm = of_nat g \<and> g < 16 \<and> tlsf_ffs (sl_bitmap s g) = of_nat l \<and> l < 4 \<and>
      first_bucket s (4 * f + l0) = Some (4 * g + l)" using g(3) g'(2) l(1,2) by blast
qed

lemma find_first_bucket:
  assumes ok: "index_ok s" and fl: "unat fl < 16" "unat sl < 4"
  shows "find_suitable_block fl sl s = (case first_bucket s (bucket (fl, sl)) of None \<Rightarrow> 0 | Some j \<Rightarrow> head_of s j)"
proof -
  let ?sm = "sl_bitmap s (unat fl) AND push_bit (unat sl) (NOT 0)" and ?fm = "fl_bitmap s AND push_bit (Suc (unat fl)) (NOT 0)"
  have f1: "unat (fl + 1) = Suc (unat fl)" using fl(1) by (simp add: unat_word_ariths)
  have b: "bucket (fl, sl) = 4 * unat fl + unat sl" by (simp add: bucket_def)
  have n: "unat (of_nat n :: u32) = n" if "n < 16" for n using that by (simp add: unsigned_of_nat take_bit_nat_eq_self)
  show ?thesis
  proof (cases "?sm = 0")
    case False
    then show ?thesis using find_in_class [OF ok fl False] n
      unfolding find_suitable_block_def Let_def b by (auto simp: head_of_def)
  next
    case True
    have "free_lists s (unat fl) l = 0" if "unat sl \<le> l" "l < 4" for l
    proof -
      have "\<not> bit ?sm l" using True by simp
      then show ?thesis using that index_bits(1) [OF ok fl(1), of l] by (auto simp: bit_simps)
    qed
    note later = find_in_later [OF ok fl this refl]
    show ?thesis
    proof (cases "?fm = 0")
      case none: True
      then show ?thesis using True later(1) unfolding find_suitable_block_def Let_def b f1 by simp
    next
      case False
      then show ?thesis using True later(2) n unfolding find_suitable_block_def Let_def b f1 by (auto simp: head_of_def)
    qed
  qed
qed

section \<open>Allocation\<close>

lemma insert_clamp: "65536 \<le> unat v \<Longrightarrow> mapping_insert v = (15, 3)"
proof -
  assume v: "65536 \<le> unat v"
  then obtain k where k: "log_class (unat v) k" using log_class_exists [of "unat v"] by auto
  have "16 \<le> k" using log_class_mono [where a = 65536 and j = 16 and b = "unat v" and k = k] k v by simp
  moreover have "k < 32" by (rule log_class_less [OF k]) (use unsigned_less [where 'a = nat, of v] in simp)
  moreover have "tlsf_log2_floor v = of_nat k" using k by (intro log2_floor) simp_all
  moreover have "\<not> v < 8" using v by (simp add: word_less_nat_alt)
  ultimately show ?thesis
    by (simp add: mapping_insert_def Let_def word_le_nat_alt unsigned_of_nat take_bit_nat_eq_self)
qed

lemma insert_range: "8 \<le> unat v \<Longrightarrow> unat (fst (mapping_insert v)) < 16 \<and> unat (snd (mapping_insert v)) < 4"
proof (cases "unat v < 65536")
  case True
  assume v: "8 \<le> unat v"
  then obtain k where k: "log_class (unat v) k" using log_class_exists [of "unat v"] by auto
  have k3: "3 \<le> k" by (rule log_class_three [OF k v])
  have k16: "k < 16" using log_class_less [OF k, of 16] True by simp
  have "unat v div 2 ^ (k - 2) - 4 < 4" using quarter [OF k] k3 by simp
  then show ?thesis unfolding insert_class [OF k k3 k16] using k16 by (simp add: unsigned_of_nat take_bit_nat_eq_self)
qed (simp add: insert_clamp)

lemma unat_tlsf_request:
  assumes "0 < unat v" "unat v \<le> 65535"
  shows "unat (tlsf_request v) = (max 16 (unat v) + 7) div 8 * 8"
proof -
  let ?w = "if v < 16 then 16 else v"
  have w: "unat ?w = max 16 (unat v)" by (simp add: word_less_nat_alt)
  have "tlsf_request v = align_up ?w (2 ^ 3)" by (simp add: tlsf_request_def align_up_def)
  then show ?thesis using unat_align_up [of 3 ?w] w assms(2) by simp
qed

lemma search_range: "8 \<le> unat v \<Longrightarrow> unat v \<le> 65536 \<Longrightarrow> unat (fst (mapping_search v)) < 16 \<and> unat (snd (mapping_search v)) < 4"
proof -
  assume v: "8 \<le> unat v" "unat v \<le> 65536"
  obtain k where k: "log_class (unat v) k" using log_class_exists [of "unat v"] v by auto
  have k3: "3 \<le> k" by (rule log_class_three [OF k v(1)])
  have k17: "k < 17" using log_class_less [OF k, of 17] v by simp
  have u: "unat (of_nat k - 2 :: u32) = k - 2" using k3 k17 by (simp add: unat_sub_if' unsigned_of_nat take_bit_nat_eq_self)
  have l: "tlsf_log2_floor v = of_nat k" using k by (intro log2_floor) simp_all
  have "unat (2 ^ (k - 2) - 1 :: u32) \<le> 16383"
  proof -
    have "k - 2 \<le> 14" using k17 by simp
    then have "(2::nat) ^ (k - 2) \<le> 2 ^ 14" by (rule power_increasing) simp
    then show ?thesis using k17 unat_2p [of "k - 2"] by (simp add: unat_sub_if' word_le_nat_alt)
  qed
  then have "8 \<le> unat (v + (2 ^ (k - 2) - 1))" using v by (simp add: unat_word_ariths)
  then show ?thesis using insert_range l u v(1) by (simp add: mapping_search_def word_le_nat_alt)
qed

lemma tlsf_alloc_cases:
  assumes "initialized s" "index_ok s" "0 < unat n" "unat n \<le> 65535"
  defines "j \<equiv> first_bucket s (bucket (mapping_search (tlsf_request n)))"
  shows "j = None \<Longrightarrow> kernel_tlsf_alloc t0 t1 n s = (0, s\<lparr>failed_alloc_count := failed_alloc_count s + 1\<rparr>)"
    "j = Some i \<Longrightarrow> fst (kernel_tlsf_alloc t0 t1 n s) = block_to_ptr (head_of s i)"
proof -
  let ?r = "tlsf_request n"
  have r: "8 \<le> unat ?r" "unat ?r \<le> 65536" unfolding unat_tlsf_request [OF assms(3,4)] using assms(4) by auto
  obtain fl sl where m: "mapping_search ?r = (fl, sl)" by (rule prod.exhaust)
  have f: "find_suitable_block fl sl s = (case j of None \<Rightarrow> 0 | Some j \<Rightarrow> head_of s j)"
    using find_first_bucket [OF assms(2), of fl sl] search_range [OF r] m by (simp add: j_def)
  have n: "n \<noteq> 0" "\<not> 65535 < n" using assms(3,4) by (auto simp: word_less_nat_alt)
  show "j = None \<Longrightarrow> kernel_tlsf_alloc t0 t1 n s = (0, s\<lparr>failed_alloc_count := failed_alloc_count s + 1\<rparr>)"
    using assms(1) n m f by (simp add: kernel_tlsf_alloc_def)
  assume "j = Some i"
  moreover from this have "head_of s i \<noteq> 0" unfolding j_def first_bucket_def by (auto simp: find_Some_iff)
  ultimately show "fst (kernel_tlsf_alloc t0 t1 n s) = block_to_ptr (head_of s i)"
    using assms(1) n m f by (simp add: kernel_tlsf_alloc_def Let_def)
qed

text \<open>A pool of 57416 bytes at 0xC1000000: one free block of 57400 bytes, filed in the last bucket.\<close>

definition tlsf_blank :: tlsf_control where
  "tlsf_blank = \<lparr>fl_bitmap = 0, sl_bitmap = (\<lambda>_. 0), free_lists = (\<lambda>_ _. 0), pool_start = 0, pool_end = 0, pool_size = 0,
     free_bytes = 0, alloc_count = 0, free_op_count = 0, failed_alloc_count = 0, wcet_alloc_cycles = 0, wcet_free_cycles = 0,
     initialized = False, tlsf_ram = (\<lambda>_. 0)\<rparr>"

definition tlsf_pool :: tlsf_control where
  "tlsf_pool = snd (kernel_tlsf_initialize 0xC1000000 57416 tlsf_blank)"

lemma insert_57400: "mapping_insert 57400 = (15, 3)"
  using insert_class [of 15 57400] by simp

lemma tlsf_pool:
  "initialized tlsf_pool" "fl_bitmap tlsf_pool = 0x8000" "sl_bitmap tlsf_pool = (\<lambda>_. 0)(15 := 8)"
  "free_lists tlsf_pool = (\<lambda>_ _. 0)(15 := (\<lambda>_. 0)(3 := 0xC1000000))" "pool_end tlsf_pool = 0xC100E048"
  "block_get_size (tlsf_ram tlsf_pool) 0xC1000000 = 57400"
  by (simp_all add: tlsf_pool_def kernel_tlsf_initialize_def tlsf_blank_def tlsf_cleared_def Let_def free_list_insert_def
      block_set_size_def block_set_free_def block_get_size_def set_bucket_def mem_simps insert_57400)

lemma tlsf_pool_index: "index_ok tlsf_pool" "filed tlsf_pool"
proof -
  have b: "bit (0x8000::u32) f \<longleftrightarrow> f = 15" "bit (8::u32) f \<longleftrightarrow> f = 3" for f
    using bit_exp_iff [of 15 f, where 'a = u32] bit_exp_iff [of 3 f, where 'a = u32] by auto
  then show "index_ok tlsf_pool" by (auto simp: index_ok_def tlsf_pool)
  have only: "i = 63" if "head_of tlsf_pool i \<noteq> 0" for i
  proof -
    have "i div 4 = 15" "i mod 4 = 3" using that by (auto simp: head_of_def tlsf_pool(4) split: if_splits)
    then show ?thesis using mult_div_mod_eq [of 4 i] by linarith
  qed
  have "head_of tlsf_pool 63 = 0xC1000000" by (simp add: head_of_def tlsf_pool(4))
  then show "filed tlsf_pool" unfolding filed_def using only tlsf_pool(6) insert_57400 by (auto simp: bucket_def)
qed



text \<open>
  C30 (error): requests from 57345 to 65535 bytes pass the size bound, but their rounded size leaves the range of the
  mapping and is clamped to the last bucket: they get the head of that bucket whatever its size,
  which need only be 57344 bytes. The caller then writes past the end of the block.
\<close>

theorem tlsf_large_request_unchecked:
  assumes "initialized s" "index_ok s" "57344 < unat n" "unat n \<le> 65535" "free_lists s 15 3 \<noteq> 0"
  shows "fst (kernel_tlsf_alloc t0 t1 n s) = block_to_ptr (free_lists s 15 3) \<and> mapping_insert 57344 = (15, 3)"
proof -
  let ?r = "tlsf_request n"
  have r: "57344 < unat ?r" "unat ?r \<le> 65536" using unat_tlsf_request [of n] assms(3,4) by auto
  have "mapping_search ?r = (15, 3)"
  proof (cases "unat ?r = 65536")
    case True
    have l: "tlsf_log2_floor ?r = 16" using log2_floor [of 16 ?r] True by simp
    have "65536 \<le> unat (?r + 16383)" using True by (simp add: unat_word_ariths)
    then have "mapping_insert (?r + 16383) = (15, 3)" by (rule insert_clamp)
    then show ?thesis using l True by (simp add: mapping_search_def word_le_nat_alt)
  next
    case False
    then have l: "tlsf_log2_floor ?r = 15" using log2_floor [of 15 ?r] r by simp
    have "65536 \<le> unat (?r + 8191)" using r by (simp add: unat_word_ariths)
    then have "mapping_insert (?r + 8191) = (15, 3)" by (rule insert_clamp)
    then show ?thesis using l r by (simp add: mapping_search_def word_le_nat_alt)
  qed
  moreover have "first_bucket s 63 = Some 63" using assms(5) by (intro first_bucketI) (simp_all add: head_of_def)
  ultimately have "fst (kernel_tlsf_alloc t0 t1 n s) = block_to_ptr (head_of s 63)"
    using tlsf_alloc_cases(2) [OF assms(1,2), where i = 63] assms(3,4) by (simp add: bucket_def)
  moreover have "mapping_insert 57344 = (15, 3)" using insert_class [of 15 57344] by simp
  ultimately show ?thesis by (simp add: head_of_def)
qed

theorem tlsf_large_request_unchecked_witness:
  "fst (kernel_tlsf_alloc 0 5 60000 tlsf_pool) = 0xC1000008 \<and> pool_end tlsf_pool - 0xC1000008 < 60000 \<and>
   block_get_size (tlsf_ram tlsf_pool) 0xC1000000 = 57400"
  using tlsf_large_request_unchecked [OF tlsf_pool(1) tlsf_pool_index(1), of 60000 0 5]
  by (simp add: tlsf_pool block_to_ptr_def)

end
