(* ===== verification/Libc_String.thy ===== *)
theory Libc_String
  imports Prelude
begin

text \<open>
  The memory functions of \<open>src/libc/string\<close> on the byte memory: \<open>memset\<close>, \<open>memcpy\<close>, \<open>memmove\<close>, \<open>memcmp\<close> and \<open>strlen\<close>, as
  the loops they are, and what they do to a range of memory. The pointer that the copying functions
  return is their first argument.
\<close>

definition memset :: "mem \<Rightarrow> u32 \<Rightarrow> u8 \<Rightarrow> nat \<Rightarrow> mem" where
  "memset m buf v n = fold (\<lambda>i m. m(buf + of_nat i := v)) [0..<n] m"

text \<open>The body of the copying loops, \<open>dst[i] = src[i]\<close>.\<close>

definition copy_byte :: "u32 \<Rightarrow> u32 \<Rightarrow> nat \<Rightarrow> mem \<Rightarrow> mem" where
  "copy_byte dst src i m = m(dst + of_nat i := m (src + of_nat i))"

definition memcpy :: "mem \<Rightarrow> u32 \<Rightarrow> u32 \<Rightarrow> nat \<Rightarrow> mem" where
  "memcpy m dst src n = fold (copy_byte dst src) [0..<n] m"

definition memmove :: "mem \<Rightarrow> u32 \<Rightarrow> u32 \<Rightarrow> nat \<Rightarrow> mem" where
  "memmove m dst src n =
     (if dst < src then fold (copy_byte dst src) [0..<n] m
      else fold (copy_byte dst src) (rev [0..<n]) m)"

fun memcmp_loop :: "mem \<Rightarrow> u32 \<Rightarrow> u32 \<Rightarrow> nat list \<Rightarrow> int" where
  "memcmp_loop m a b [] = 0"
| "memcmp_loop m a b (i # rest) =
     (if m (a + of_nat i) < m (b + of_nat i) then -1
      else if m (b + of_nat i) < m (a + of_nat i) then 1
      else memcmp_loop m a b rest)"

definition memcmp :: "mem \<Rightarrow> u32 \<Rightarrow> u32 \<Rightarrow> nat \<Rightarrow> int" where
  "memcmp m a b n = memcmp_loop m a b [0..<n]"

partial_function (option) strlen_loop :: "mem \<Rightarrow> u32 \<Rightarrow> u32 \<Rightarrow> u32 option" where
  "strlen_loop m s len = (if m (s + len) \<noteq> 0 then strlen_loop m s (len + 1) else Some len)"

definition strlen :: "mem \<Rightarrow> u32 \<Rightarrow> u32 option" where
  "strlen m s = strlen_loop m s 0"

section \<open>Ranges\<close>

definition mem_bytes :: "mem \<Rightarrow> u32 \<Rightarrow> nat \<Rightarrow> u8 list" where
  "mem_bytes m a n = map (\<lambda>i. m (a + of_nat i)) [0..<n]"

lemma length_mem_bytes [simp]: "length (mem_bytes m a n) = n"
  by (simp add: mem_bytes_def)

lemma unat_offset: "unat a + i < 2 ^ 32 \<Longrightarrow> unat (a + of_nat i :: u32) = unat a + i"
  by (simp add: unat_word_ariths unsigned_of_nat take_bit_nat_eq_self)

lemma offset_eq: "i < 2 ^ 32 \<Longrightarrow> x = a + of_nat i \<longleftrightarrow> unat (x - a :: u32) = i"
proof
  assume "i < 2 ^ 32" "x = a + of_nat i"
  then show "unat (x - a) = i" by (simp add: unsigned_of_nat take_bit_nat_eq_self)
next
  assume "unat (x - a) = i"
  then have "of_nat i = x - a" by auto
  then show "x = a + of_nat i" by simp
qed

lemma memset_at:
  assumes "n \<le> 2 ^ 32"
  shows "memset m buf v n x = (if unat (x - buf) < n then v else m x)"
  using assms
proof (induction n)
  case (Suc n)
  have "memset m buf v (Suc n) x = ((memset m buf v n)(buf + of_nat n := v)) x" by (simp add: memset_def)
  also have "\<dots> = (if unat (x - buf) = n then v else memset m buf v n x)" using Suc.prems offset_eq [of n x buf] by simp
  finally show ?case using Suc by auto
qed (simp add: memset_def)

text \<open>One step of a copy that has not yet overwritten the byte it reads.\<close>

lemma copy_up:
  assumes "n \<le> 2 ^ 32" "\<And>i j. i < n \<Longrightarrow> j < i \<Longrightarrow> unat (src + of_nat i - dst) \<noteq> j"
  shows "fold (copy_byte dst src) [0..<n] m x =
    (if unat (x - dst) < n then m (src + (x - dst)) else m x)"
  using assms
proof (induction n arbitrary: x)
  case (Suc n)
  let ?m = "fold (copy_byte dst src) [0..<n] m"
  have IH: "?m y = (if unat (y - dst) < n then m (src + (y - dst)) else m y)" for y using Suc by simp
  have read: "?m (src + of_nat n) = m (src + of_nat n)" using IH [of "src + of_nat n"] Suc.prems(2) [of n] by auto
  have "fold (copy_byte dst src) [0..<Suc n] m x = (?m(dst + of_nat n := m (src + of_nat n))) x"
    using read by (simp add: copy_byte_def)
  also have "\<dots> = (if unat (x - dst) = n then m (src + (x - dst)) else ?m x)"
    using Suc.prems(1) offset_eq [of n x dst] by auto
  finally show ?case using IH [of x] by auto
qed simp

lemma copy_down:
  assumes "n \<le> 2 ^ 32" "j \<le> n" "\<And>i k. i < n \<Longrightarrow> i < k \<Longrightarrow> k < n \<Longrightarrow> unat (src + of_nat i - dst) \<noteq> k"
  shows "fold (copy_byte dst src) (rev [j..<n]) m x =
    (if j \<le> unat (x - dst) \<and> unat (x - dst) < n then m (src + (x - dst)) else m x)"
  using assms(2)
proof (induction "n - j" arbitrary: j x)
  case (Suc d)
  then have j: "j < n" "d = n - Suc j" "Suc j \<le> n" by simp_all
  let ?m = "fold (copy_byte dst src) (rev [Suc j..<n]) m"
  have IH: "?m y = (if Suc j \<le> unat (y - dst) \<and> unat (y - dst) < n then m (src + (y - dst)) else m y)" for y
    using Suc.hyps(1) [OF j(2,3)] .
  have read: "?m (src + of_nat j) = m (src + of_nat j)"
    using IH [of "src + of_nat j"] assms(3) [OF j(1), of "unat (src + of_nat j - dst)"] by (auto simp: Suc_le_eq)
  have "fold (copy_byte dst src) (rev [j..<n]) m x = (?m(dst + of_nat j := m (src + of_nat j))) x"
    using read j(1) by (simp add: upt_conv_Cons copy_byte_def)
  also have "\<dots> = (if unat (x - dst) = j then m (src + (x - dst)) else ?m x)"
    using assms(1) j(1) offset_eq [of j x dst] by auto
  finally show ?case using IH [of x] j(1) by auto
qed auto

lemma memcpy_at:
  assumes "n \<le> 2 ^ 32" "apart dst n src n"
  shows "memcpy m dst src n x = (if unat (x - dst) < n then m (src + (x - dst)) else m x)"
  unfolding memcpy_def
proof (rule copy_up [OF assms(1)])
  fix i j assume i: "i < n" "j < i"
  have "unat (src + of_nat i - src) < n" using i assms(1) by (simp add: unsigned_of_nat take_bit_nat_eq_self)
  from apart_ge [OF assms(2) this] show "unat (src + of_nat i - dst) \<noteq> j" using i by simp
qed

lemma memcmp_loop_zero: "memcmp_loop m a b is = 0 \<longleftrightarrow> (\<forall>i \<in> set is. m (a + of_nat i) = m (b + of_nat i))"
  by (induction "is") auto

lemma memcmp_zero: "memcmp m a b n = 0 \<longleftrightarrow> mem_bytes m a n = mem_bytes m b n"
  by (auto simp: memcmp_def memcmp_loop_zero mem_bytes_def)

lemma strlen_loop_counts:
  "\<lbrakk>k \<le> n; \<forall>i. k \<le> i \<and> i < n \<longrightarrow> m (s + of_nat i) \<noteq> 0; m (s + of_nat n) = 0\<rbrakk> \<Longrightarrow>
    strlen_loop m s (of_nat k) = Some (of_nat n)"
proof (induction "n - k" arbitrary: k)
  case (Suc d)
  then have "strlen_loop m s (of_nat (Suc k)) = Some (of_nat n)" by (intro Suc.hyps(1)) auto
  then show ?case using Suc by (subst strlen_loop.simps) (simp add: add.commute)
qed (simp add: strlen_loop.simps)

lemma strlen_is_first_nul:
  "\<forall>i < n. m (s + of_nat i) \<noteq> 0 \<Longrightarrow> m (s + of_nat n) = 0 \<Longrightarrow> strlen m s = Some (of_nat n)"
  using strlen_loop_counts [of 0 n m s] by (simp add: strlen_def)

text \<open>
  C31 (equivalence): \<open>memmove\<close> equals a copy through a snapshot of the source, however the two ranges overlap: every byte
  of the destination receives the byte the source had before the call and no other byte changes.
\<close>

theorem memmove_is_snapshot:
  assumes "unat dst + n \<le> 2 ^ 32" "unat src + n \<le> 2 ^ 32"
  shows "memmove m dst src n x = (if unat (x - dst) < n then m (src + (x - dst)) else m x)"
proof (cases "dst < src")
  case True
  have "unat (src + of_nat i - dst) \<noteq> j" if "i < n" "j < i" for i j
  proof -
    have "unat (src + of_nat i) = unat src + i" using that assms(2) by (intro unat_offset) simp
    then show ?thesis using that True by (simp add: unat_sub_if' word_less_nat_alt)
  qed
  then show ?thesis using copy_up [of n src dst m x] assms(1) True by (simp add: memmove_def)
next
  case False
  have "unat (src + of_nat i - dst) \<noteq> k" if "i < n" "i < k" "k < n" for i k
  proof -
    have u: "unat (src + of_nat i) = unat src + i" using that assms(2) by (intro unat_offset) simp
    have "unat src \<le> unat dst" using False by (simp add: word_less_nat_alt)
    then show ?thesis using that u assms(1) by (auto simp: unat_sub_if')
  qed
  then show ?thesis using copy_down [of n 0 src dst m x] assms(1) False by (simp add: memmove_def)
qed

theorem memmove_is_snapshot_witness:
  "memmove ((\<lambda>_. 0)(100 := 1, 101 := 2, 102 := 3)) 101 100 3 103 = 3"
  using memmove_is_snapshot [of 101 3 100 "(\<lambda>_. 0)(100 := 1, 101 := 2, 102 := 3)" 103] by simp

end
