(* ===== verification/Slots.thy ===== *)
theory Slots
  imports Libc_String
begin

text \<open>
  Arrays of equal slots carved out of one backing block, as the ring buffer and the pool allocator have
  them: slot \<open>i\<close> starts at \<open>base + i * bytes\<close>. The facts are that distinct slots share no byte as long as the
  array fits the address space, and that the slots keep the alignment of the backing block. The alignment
  helper here is the variant of the core allocators, which passes the value through for \<open>align = 0\<close>.
\<close>

definition slot_align_up :: "u32 \<Rightarrow> u32 \<Rightarrow> u32" where
  "slot_align_up value align = (if align = 0 then value else align_up value align)"

definition slot_at :: "u32 \<Rightarrow> u32 \<Rightarrow> nat \<Rightarrow> u32" where
  "slot_at base bytes i = base + of_nat i * bytes"

lemma unat_of_nat_small: "n < 2 ^ 32 \<Longrightarrow> unat (of_nat n :: u32) = n"
  by (simp add: unsigned_of_nat take_bit_nat_eq_self)

lemma unat_sum_le: "unat (x + y :: u32) \<le> unat x + unat y"
  by (simp add: unat_word_ariths)

lemma unat_neg: "x \<noteq> 0 \<Longrightarrow> unat (- x :: u32) = 2 ^ 32 - unat x"
  using unat_sub_if' [of 0 x] by (simp add: word_le_nat_alt unat_eq_zero)

lemma slot_diff_up:
  assumes "i \<le> j" "j * unat b < 2 ^ 32"
  shows "unat (slot_at base b j - slot_at base b i) = (j - i) * unat b"
proof -
  have "slot_at base b j - slot_at base b i = of_nat ((j - i) * unat b)"
    using assms(1) by (simp add: slot_at_def of_nat_diff left_diff_distrib)
  moreover have "(j - i) * unat b < 2 ^ 32" using assms by (meson diff_le_self le_less_trans mult_le_mono1)
  ultimately show ?thesis by (simp only: unat_of_nat_small)
qed

lemma slot_in_range: "i < n \<Longrightarrow> n * unat b \<le> 2 ^ 32 \<Longrightarrow> 0 < unat b \<Longrightarrow> i * unat b + unat b \<le> n * unat (b :: u32)"
  using mult_le_mono1 [of "Suc i" n "unat b"] by simp

lemma slot_apart_up:
  assumes "i < j" "j < n" "n * unat b \<le> 2 ^ 32" "0 < unat b"
  shows "apart (slot_at base b i) (unat b) (slot_at base b j) (unat b)"
proof -
  have r: "j * unat b + unat b \<le> 2 ^ 32" using slot_in_range [OF assms(2-4)] assms(3) by simp
  then have d: "unat (slot_at base b j - slot_at base b i) = (j - i) * unat b" using assms by (intro slot_diff_up) auto
  have "slot_at base b i - slot_at base b j = - (slot_at base b j - slot_at base b i)" by simp
  moreover have "slot_at base b j - slot_at base b i \<noteq> 0" using d assms by (metis unat_0 mult_is_0 zero_less_diff neq0_conv)
  ultimately have "unat (slot_at base b i - slot_at base b j) = 2 ^ 32 - (j - i) * unat b"
    using d unat_neg by metis
  moreover have "(j - i) * unat b + unat b \<le> 2 ^ 32"
    using r mult_le_mono1 [OF diff_le_self, of j i "unat b"] by linarith
  moreover have "unat b \<le> (j - i) * unat b" using assms(1) by (auto simp: Suc_le_eq)
  ultimately show ?thesis using d unfolding apart_def by linarith
qed

lemma slots_apart:
  assumes "i \<noteq> j" "i < n" "j < n" "n * unat b \<le> 2 ^ 32" "0 < unat b"
  shows "apart (slot_at base b i) (unat b) (slot_at base b j) (unat b)"
  using slot_apart_up [of i j n b base] slot_apart_up [of j i n b base] assms by (cases "i < j") (auto simp: apart_sym)

lemma slot_offset:
  assumes "i < n" "n * unat b \<le> 2 ^ 32" "0 < unat b"
  shows "unat (slot_at base b i - base) = i * unat b"
proof -
  have "i * unat b < 2 ^ 32" using slot_in_range [OF assms] assms by simp
  then show ?thesis using slot_diff_up [of 0 i b base] by (simp add: slot_at_def)
qed

lemma slot_within:
  assumes "i < n" "n * unat b \<le> 2 ^ 32" "0 < unat b" "unat (x - slot_at base b i) < unat b"
  shows "unat (x - base) < n * unat b"
proof -
  have r: "i * unat b + unat b \<le> n * unat b" by (rule slot_in_range [OF assms(1-3)])
  have "x - base = (x - slot_at base b i) + (slot_at base b i - base)" by simp
  then have "unat (x - base) \<le> unat (x - slot_at base b i) + unat (slot_at base b i - base)"
    using unat_sum_le [of "x - slot_at base b i" "slot_at base b i - base"] by simp
  also have "\<dots> < unat b + i * unat b" using slot_offset [OF assms(1-3), of base] assms(4) by simp
  finally show ?thesis using r by simp
qed

lemma mem_bytes_cong:
  assumes "n \<le> 2 ^ 32" "\<And>x. unat (x - a) < n \<Longrightarrow> m x = m' x"
  shows "mem_bytes m a n = mem_bytes m' a n"
  using assms by (auto simp: mem_bytes_def unat_of_nat_small)

end
