(* ===== verification/Fifo.thy ===== *)
theory Fifo
  imports Prelude
begin

text \<open>
  Bounded first-in first-out buffers. The kernel has five of them (dialogue channel, keyboard and
  mouse rings, audio capture, the slot ring buffer); this theory states the contract they share and
  what follows from it, and proves the arithmetic of rings with free-running 32-bit indices, whose
  wrap-around at \<open>2\<^sup>3\<^sup>2\<close> is harmless because the capacity divides it.
\<close>

section \<open>The contract\<close>

locale bounded_fifo =
  fixes inv :: "'s \<Rightarrow> bool"
    and contents :: "'s \<Rightarrow> 'a list"
    and capacity :: "'s \<Rightarrow> nat"
    and offer :: "'a \<Rightarrow> 's \<Rightarrow> bool \<times> 's"
    and take_one :: "'s \<Rightarrow> 'a option \<times> 's"
  assumes within: "inv s \<Longrightarrow> length (contents s) \<le> capacity s"
    and offer_room: "inv s \<Longrightarrow> length (contents s) < capacity s \<Longrightarrow>
      \<exists>s'. offer x s = (True, s') \<and> inv s' \<and> contents s' = contents s @ [x] \<and> capacity s' = capacity s"
    and offer_full: "inv s \<Longrightarrow> length (contents s) = capacity s \<Longrightarrow>
      \<exists>s'. offer x s = (False, s') \<and> inv s' \<and> contents s' = contents s \<and> capacity s' = capacity s"
    and take_cons: "inv s \<Longrightarrow> contents s = x # xs \<Longrightarrow>
      \<exists>s'. take_one s = (Some x, s') \<and> inv s' \<and> contents s' = xs \<and> capacity s' = capacity s"
    and take_empty: "inv s \<Longrightarrow> contents s = [] \<Longrightarrow>
      \<exists>s'. take_one s = (None, s') \<and> inv s' \<and> contents s' = [] \<and> capacity s' = capacity s"

text \<open>A schedule of producer and consumer steps, and what it accepts and delivers.\<close>

datatype 'a fifo_event = Offer 'a | Take

fun fifo_run :: "('a \<Rightarrow> 's \<Rightarrow> bool \<times> 's) \<Rightarrow> ('s \<Rightarrow> 'a option \<times> 's) \<Rightarrow> 'a fifo_event list \<Rightarrow> 's \<Rightarrow> 'a list \<times> 'a list \<times> 's" where
  "fifo_run offer take_one [] s = ([], [], s)"
| "fifo_run offer take_one (Offer x # es) s =
     (let (ok, s) = offer x s; (accepted, delivered, s) = fifo_run offer take_one es s
      in (if ok then x # accepted else accepted, delivered, s))"
| "fifo_run offer take_one (Take # es) s =
     (let (r, s) = take_one s; (accepted, delivered, s) = fifo_run offer take_one es s
      in (accepted, (case r of Some x \<Rightarrow> x # delivered | None \<Rightarrow> delivered), s))"

context bounded_fifo
begin

text \<open>Nothing accepted is lost, duplicated or reordered, whatever the interleaving.\<close>

lemma run_conserves:
  assumes "inv s" "fifo_run offer take_one es s = (accepted, delivered, s')"
  shows "inv s' \<and> contents s @ accepted = delivered @ contents s' \<and> capacity s' = capacity s"
  using assms
proof (induction es arbitrary: s accepted delivered)
  case (Cons e es)
  show ?case
  proof (cases e)
    case (Offer x)
    obtain ok t where t: "offer x s = (ok, t)" by (cases "offer x s")
    obtain a d where r: "fifo_run offer take_one es t = (a, d, s')"
      using Cons.prems(2) Offer t by (auto split: prod.splits)
    have eq: "accepted = (if ok then x # a else a)" "delivered = d" using Cons.prems(2) Offer t r by auto
    have "inv t \<and> contents t = contents s @ (if ok then [x] else []) \<and> capacity t = capacity s"
    proof (cases "length (contents s) < capacity s")
      case True
      then show ?thesis using offer_room [OF Cons.prems(1) True, of x] t by auto
    next
      case False
      then have "length (contents s) = capacity s" using within [OF Cons.prems(1)] by simp
      then show ?thesis using offer_full [OF Cons.prems(1), of x] t by auto
    qed
    then show ?thesis using Cons.IH [OF _ r] eq by auto
  next
    case Take
    obtain v t where t: "take_one s = (v, t)" by (cases "take_one s")
    obtain a d where r: "fifo_run offer take_one es t = (a, d, s')"
      using Cons.prems(2) Take t by (auto split: prod.splits)
    have eq: "accepted = a" "delivered = (case v of Some x \<Rightarrow> x # d | None \<Rightarrow> d)" using Cons.prems(2) Take t r by auto
    show ?thesis
    proof (cases "contents s")
      case Nil
      then have "v = None" "inv t" "contents t = []" "capacity t = capacity s" using take_empty [OF Cons.prems(1)] t by auto
      then show ?thesis using Cons.IH [OF _ r] eq Nil by auto
    next
      case nonempty: (Cons x xs)
      then have "v = Some x" "inv t" "contents t = xs" "capacity t = capacity s"
        using take_cons [OF Cons.prems(1) nonempty] t by auto
      then show ?thesis using Cons.IH [OF _ r] eq nonempty by auto
    qed
  qed
qed simp

text \<open>An offer is refused exactly when the buffer is full.\<close>

lemma offer_iff: "inv s \<Longrightarrow> fst (offer x s) \<longleftrightarrow> length (contents s) < capacity s"
  using offer_room [of s x] offer_full [of s x] within [of s] by (cases "length (contents s) < capacity s") auto

end

section \<open>Rings with free-running indices\<close>

definition ring_contents :: "'a list \<Rightarrow> u32 \<Rightarrow> u32 \<Rightarrow> 'a list" where
  "ring_contents slots head tail =
     map (\<lambda>i. slots ! (unat (tail + of_nat i) mod length slots)) [0..<unat (head - tail)]"

lemma length_ring_contents [simp]: "length (ring_contents slots head tail) = unat (head - tail)"
  by (simp add: ring_contents_def)

lemma ring_contents_empty [simp]: "ring_contents slots head head = []"
  by (simp add: ring_contents_def)

lemma unat_mod_pow2_add: "k \<le> 32 \<Longrightarrow> unat (x + y :: u32) mod 2 ^ k = (unat x + unat y) mod 2 ^ k"
  by (simp add: unat_word_ariths mod_mod_cancel le_imp_power_dvd [of k 32 "2::nat", simplified])

lemma ring_slot_distinct:
  assumes "k \<le> 31" "i < unat (head - tail)" "unat (head - tail :: u32) < 2 ^ k"
  shows "unat (tail + of_nat i) mod 2 ^ k \<noteq> unat head mod 2 ^ k"
proof
  let ?d = "unat (head - tail)"
  have i: "unat (of_nat i :: u32) = i"
    using assms(2) unsigned_less [where 'a = nat, of "head - tail"] by (subst unat_of_nat) simp
  assume eq: "unat (tail + of_nat i) mod 2 ^ k = unat head mod 2 ^ k"
  have "unat (tail + of_nat i) mod 2 ^ k = (unat tail + i) mod 2 ^ k"
    using unat_mod_pow2_add [of k tail "of_nat i"] assms(1) i by simp
  moreover have "unat head mod 2 ^ k = (unat tail + ?d) mod 2 ^ k"
    using unat_mod_pow2_add [of k tail "head - tail"] assms(1) by simp
  ultimately have "(unat tail + ?d) mod 2 ^ k = (unat tail + i) mod 2 ^ k" using eq by simp
  then have "2 ^ k dvd (unat tail + ?d) - (unat tail + i)"
    using assms(2) by (subst mod_eq_dvd_iff_nat [symmetric]) simp_all
  then have "2 ^ k \<le> ?d - i" using assms(2) by (intro dvd_imp_le) simp_all
  with assms(3) show False by simp
qed

lemma ring_push:
  assumes "length slots = 2 ^ k" "k \<le> 31" "unat (head - tail :: u32) < 2 ^ k"
  shows "ring_contents (slots[unat head mod 2 ^ k := x]) (head + 1) tail = ring_contents slots head tail @ [x]"
proof -
  have "(2::nat) ^ k \<le> 2 ^ 31" using assms(2) by (rule power_increasing) simp
  then have "unat (head - tail + 1) = unat (head - tail) + 1"
    using assms(3) by (simp add: unat_word_ariths)
  then have n: "unat (head + 1 - tail) = Suc (unat (head - tail))" by (simp add: algebra_simps)
  have "slots[unat head mod 2 ^ k := x] ! (unat (tail + of_nat i) mod 2 ^ k) = slots ! (unat (tail + of_nat i) mod 2 ^ k)"
    if "i < unat (head - tail)" for i
    using ring_slot_distinct [OF assms(2) that assms(3)] by simp
  then show ?thesis
    using assms(1) by (simp add: ring_contents_def n)
qed

lemma ring_pop_count: "head \<noteq> tail \<Longrightarrow> unat (head - tail :: u32) = Suc (unat (head - (tail + 1)))"
proof -
  assume "head \<noteq> tail"
  then have nz: "head - tail \<noteq> 0" by simp
  then have "unat (head - tail) \<noteq> 0" by (simp only: unat_eq_zero) simp
  with unat_minus_one [OF nz] show ?thesis by (simp add: diff_diff_eq)
qed

lemma ring_pop:
  assumes "head \<noteq> tail"
  shows "ring_contents slots head tail = slots ! (unat tail mod length slots) # ring_contents slots head (tail + 1)"
  unfolding ring_contents_def ring_pop_count [OF assms] upt_conv_Cons [OF zero_less_Suc] list.map map_Suc_upt [symmetric] map_map
  by (simp add: add.assoc add.commute [of 1])

lemma ring_nth:
  "i < unat (head - tail) \<Longrightarrow> ring_contents slots head tail ! i = slots ! (unat (tail + of_nat i) mod length slots)"
  by (simp add: ring_contents_def)

lemma ring_drop:
  "n \<le> unat (head - tail :: u32) \<Longrightarrow> ring_contents slots head (tail + of_nat n) = drop n (ring_contents slots head tail)"
proof (induction n arbitrary: tail)
  case (Suc n)
  then have ne: "head \<noteq> tail" by auto
  have "n \<le> unat (head - (tail + 1))" using Suc.prems ring_pop_count [OF ne] by simp
  from Suc.IH [OF this] show ?case using ring_pop [OF ne, of slots] by (simp add: add.assoc)
qed simp

section \<open>Acknowledging an interrupt\<close>

text \<open>
  The producers of the device rings are interrupt handlers. Each ends by telling the controller that
  delivered the interrupt that it is over: the local APIC, or a line of the PIC.
\<close>

datatype end_of_interrupt = Eoi_Apic | Eoi_Pic u8

end
