(* ===== verification/Ring_Buffer.thy ===== *)
theory Ring_Buffer
  imports Slots Fifo
begin

text \<open>
  The slot ring buffer of \<open>src/kernel/kernel/memory/ring_buffer.c\<close>: fixed slots in one block of the kernel heap, a
  message copied into a zeroed slot and copied out again. Messages live in the byte memory, so callers pass
  pointers as in C; the block \<open>kmalloc\<close> returns is an argument of the initialisation. The indices are reduced
  modulo the capacity at each step, so any capacity works, not only powers of two. The atomic accesses
  are those of one processor running the calls one after the other.
\<close>

datatype ring_buffer_mode = Mode_Local | Mode_Spsc | Mode_Mpsc | Mode_Mpmc

record ring_buffer =
  kernel_ring_buffer_base :: u32
  kernel_ring_buffer_slot_size :: u32
  kernel_ring_buffer_capacity :: u32
  kernel_ring_buffer_head :: u32
  kernel_ring_buffer_tail :: u32
  kernel_ring_buffer_count :: u32
  kernel_ring_buffer_mode :: ring_buffer_mode
  kernel_ring_buffer_high_watermark :: u32
  kernel_ring_buffer_enqueue_count :: u32
  kernel_ring_buffer_dequeue_count :: u32
  kernel_ring_buffer_failed_enqueue_count :: u32
  kernel_ring_buffer_failed_dequeue_count :: u32
  kernel_ring_buffer_initialized :: bool
  ring_ram :: mem

definition kernel_ring_buffer_initialize_ex :: "u32 \<Rightarrow> u32 \<Rightarrow> u32 \<Rightarrow> ring_buffer_mode \<Rightarrow> ring_buffer \<Rightarrow> bool \<times> ring_buffer" where
  "kernel_ring_buffer_initialize_ex backing slot_size slot_count mode s =
     (if kernel_ring_buffer_initialized s then (True, s)
      else if slot_size = 0 \<or> slot_count = 0 then (False, s)
      else
        let s = s\<lparr>kernel_ring_buffer_slot_size := slot_align_up slot_size 8, kernel_ring_buffer_capacity := slot_count\<rparr>
        in if backing = 0 then (False, s)
           else (True, s\<lparr>kernel_ring_buffer_base := backing, kernel_ring_buffer_head := 0, kernel_ring_buffer_tail := 0,
             kernel_ring_buffer_count := 0, kernel_ring_buffer_mode := mode, kernel_ring_buffer_high_watermark := 0,
             kernel_ring_buffer_enqueue_count := 0, kernel_ring_buffer_dequeue_count := 0,
             kernel_ring_buffer_failed_enqueue_count := 0, kernel_ring_buffer_failed_dequeue_count := 0,
             kernel_ring_buffer_initialized := True\<rparr>))"

definition kernel_ring_buffer_initialize :: "u32 \<Rightarrow> u32 \<Rightarrow> u32 \<Rightarrow> ring_buffer \<Rightarrow> bool \<times> ring_buffer" where
  "kernel_ring_buffer_initialize backing slot_size slot_count s =
     kernel_ring_buffer_initialize_ex backing slot_size slot_count Mode_Local s"

definition kernel_ring_buffer_enqueue :: "u32 \<Rightarrow> u32 \<Rightarrow> ring_buffer \<Rightarrow> bool \<times> ring_buffer" where
  "kernel_ring_buffer_enqueue data bytes s =
     (if \<not> kernel_ring_buffer_initialized s \<or> data = 0 \<or> bytes = 0 \<or> kernel_ring_buffer_slot_size s < bytes then
        (False, if kernel_ring_buffer_initialized s
                then s\<lparr>kernel_ring_buffer_failed_enqueue_count := kernel_ring_buffer_failed_enqueue_count s + 1\<rparr> else s)
      else if kernel_ring_buffer_capacity s \<le> kernel_ring_buffer_count s then
        (False, s\<lparr>kernel_ring_buffer_failed_enqueue_count := kernel_ring_buffer_failed_enqueue_count s + 1\<rparr>)
      else
        let slot = kernel_ring_buffer_base s + kernel_ring_buffer_tail s * kernel_ring_buffer_slot_size s;
            ram = memcpy (memset (ring_ram s) slot 0 (unat (kernel_ring_buffer_slot_size s))) slot data (unat bytes);
            next_tail = (kernel_ring_buffer_tail s + 1) mod kernel_ring_buffer_capacity s;
            count = kernel_ring_buffer_count s + 1
        in (True, s\<lparr>ring_ram := ram, kernel_ring_buffer_tail := next_tail, kernel_ring_buffer_count := count,
              kernel_ring_buffer_enqueue_count := kernel_ring_buffer_enqueue_count s + 1,
              kernel_ring_buffer_high_watermark :=
                (if kernel_ring_buffer_high_watermark s < count then count else kernel_ring_buffer_high_watermark s)\<rparr>))"

definition kernel_ring_buffer_dequeue :: "u32 \<Rightarrow> u32 \<Rightarrow> ring_buffer \<Rightarrow> bool \<times> ring_buffer" where
  "kernel_ring_buffer_dequeue out_data out_size s =
     (if \<not> kernel_ring_buffer_initialized s \<or> out_data = 0 \<or> out_size = 0 \<or> kernel_ring_buffer_slot_size s < out_size then
        (False, if kernel_ring_buffer_initialized s
                then s\<lparr>kernel_ring_buffer_failed_dequeue_count := kernel_ring_buffer_failed_dequeue_count s + 1\<rparr> else s)
      else if kernel_ring_buffer_count s = 0 then
        (False, s\<lparr>kernel_ring_buffer_failed_dequeue_count := kernel_ring_buffer_failed_dequeue_count s + 1\<rparr>)
      else
        let slot = kernel_ring_buffer_base s + kernel_ring_buffer_head s * kernel_ring_buffer_slot_size s;
            next_head = (kernel_ring_buffer_head s + 1) mod kernel_ring_buffer_capacity s
        in (True, s\<lparr>ring_ram := memcpy (ring_ram s) out_data slot (unat out_size), kernel_ring_buffer_head := next_head,
              kernel_ring_buffer_count := kernel_ring_buffer_count s - 1,
              kernel_ring_buffer_dequeue_count := kernel_ring_buffer_dequeue_count s + 1\<rparr>))"

section \<open>Invariant and abstraction\<close>

definition ring_span :: "ring_buffer \<Rightarrow> nat" where
  "ring_span s = unat (kernel_ring_buffer_capacity s) * unat (kernel_ring_buffer_slot_size s)"

definition ring_slot :: "ring_buffer \<Rightarrow> nat \<Rightarrow> u32" where
  "ring_slot s i = slot_at (kernel_ring_buffer_base s) (kernel_ring_buffer_slot_size s) i"

definition ring_position :: "ring_buffer \<Rightarrow> nat \<Rightarrow> nat" where
  "ring_position s k = (unat (kernel_ring_buffer_head s) + k) mod unat (kernel_ring_buffer_capacity s)"

definition ring_messages :: "ring_buffer \<Rightarrow> u8 list list" where
  "ring_messages s = map (\<lambda>k. mem_bytes (ring_ram s) (ring_slot s (ring_position s k)) (unat (kernel_ring_buffer_slot_size s)))
     [0..<unat (kernel_ring_buffer_count s)]"

definition ring_buffer_inv :: "ring_buffer \<Rightarrow> bool" where
  "ring_buffer_inv s \<longleftrightarrow>
     kernel_ring_buffer_initialized s \<and> 8 \<le> unat (kernel_ring_buffer_slot_size s) \<and> ring_span s < 2 ^ 32 \<and>
     kernel_ring_buffer_head s < kernel_ring_buffer_capacity s \<and>
     kernel_ring_buffer_count s \<le> kernel_ring_buffer_capacity s \<and>
     unat (kernel_ring_buffer_tail s) = ring_position s (unat (kernel_ring_buffer_count s))"


lemma slot_at_word: "base + i * b = slot_at base b (unat i)"
  by (simp add: slot_at_def)

lemma ring_position_less: "ring_buffer_inv s \<Longrightarrow> ring_position s k < unat (kernel_ring_buffer_capacity s)"
  by (auto simp: ring_buffer_inv_def ring_position_def word_less_nat_alt)

lemma next_position:
  assumes "unat p < unat (c :: u32)"
  shows "unat ((p + 1) mod c) = (unat p + 1) mod unat c"
proof -
  have "unat p + 1 < 2 ^ 32" using assms unsigned_less [where 'a = nat, of c] by simp
  then have "unat (p + 1) = unat p + 1" using unat_offset [of p 1] by simp
  then show ?thesis by (simp add: unat_mod)
qed

lemma position_inj:
  assumes "i < k" "k < (c::nat)"
  shows "(h + i) mod c \<noteq> (h + k) mod c"
proof
  assume "(h + i) mod c = (h + k) mod c"
  then have "c dvd (h + k) - (h + i)" using assms by (metis mod_eq_dvd_iff_nat nat_add_left_cancel_le less_imp_le)
  then have "c dvd k - i" by simp
  then show False using assms by (auto dest: dvd_imp_le)
qed

lemma ring_slot_within:
  assumes "ring_buffer_inv s" "unat (x - ring_slot s (ring_position s k)) < unat (kernel_ring_buffer_slot_size s)"
  shows "unat (x - kernel_ring_buffer_base s) < ring_span s"
  using assms ring_position_less [OF assms(1), of k] unfolding ring_slot_def ring_span_def
  by (intro slot_within [of "ring_position s k"]) (auto simp: ring_buffer_inv_def ring_span_def)

text \<open>A client buffer that lies outside the ring's block.\<close>

definition client_buffer :: "ring_buffer \<Rightarrow> u32 \<Rightarrow> nat \<Rightarrow> bool" where
  "client_buffer s p n \<longleftrightarrow> p \<noteq> 0 \<and> n < 2 ^ 32 \<and> apart (kernel_ring_buffer_base s) (ring_span s) p n"

lemma client_buffer_apart:
  assumes "ring_buffer_inv s" "client_buffer s p n"
  shows "apart (ring_slot s (ring_position s k)) (unat (kernel_ring_buffer_slot_size s)) p n"
proof -
  let ?b = "unat (kernel_ring_buffer_slot_size s)" and ?i = "ring_position s k" and ?base = "kernel_ring_buffer_base s"
  have i: "?i < unat (kernel_ring_buffer_capacity s)" "ring_span s < 2 ^ 32" "0 < ?b"
    using assms(1) ring_position_less [OF assms(1)] by (auto simp: ring_buffer_inv_def)
  have r: "?i * ?b + ?b \<le> ring_span s" using i unfolding ring_span_def by (intro slot_in_range) auto
  have o: "unat (ring_slot s ?i - ?base) = ?i * ?b"
    using i unfolding ring_slot_def ring_span_def by (intro slot_offset) auto
  have a: "ring_span s \<le> unat (p - ?base)" "n \<le> unat (?base - p)"
    using assms(2) by (auto simp: client_buffer_def apart_def)
  define d e where "d = ring_slot s ?i - ?base" and "e = p - ?base"
  have eqs: "p - ring_slot s ?i = e - d" "ring_slot s ?i - p = d - e" "?base - p = - e" by (simp_all add: d_def e_def)
  have ne: "e \<noteq> 0" using a r i by (auto simp: e_def)
  have l: "unat d + ?b \<le> unat e" "unat d < unat e" using a r o i by (auto simp: d_def e_def)
  have "unat (e - d) = unat e - unat d" using l by (simp add: unat_sub_if')
  moreover have "unat (d - e) = unat d + 2 ^ 32 - unat e" using l by (simp add: unat_sub_if')
  moreover have "n \<le> 2 ^ 32 - unat e" using a(2) eqs(3) unat_neg [OF ne] by metis
  ultimately show ?thesis using l unsigned_less [where 'a = nat, of e] unfolding apart_def eqs by (intro conjI) linarith+
qed

section \<open>What the operations do\<close>

lemma slot_written:
  assumes "apart slot b data n" "n \<le> b" "b < 2 ^ 32"
  shows "memcpy (memset m slot 0 b) slot data n x =
    (if unat (x - slot) < n then m (data + (x - slot)) else if unat (x - slot) < b then 0 else m x)"
proof -
  have "apart slot n data n" using assms by (auto simp: apart_def)
  then have c: "memcpy (memset m slot 0 b) slot data n x =
    (if unat (x - slot) < n then memset m slot 0 b (data + (x - slot)) else memset m slot 0 b x)"
    using assms by (intro memcpy_at) auto
  have "b \<le> unat (data + (x - slot) - slot)" if "unat (x - slot) < n"
    using apart_ge [OF assms(1), of "data + (x - slot)"] that by simp
  then show ?thesis using c assms(3) by (auto simp: memset_at)
qed

lemma slot_written_bytes:
  assumes "apart slot b data n" "n \<le> b" "b < 2 ^ 32"
  shows "mem_bytes (memcpy (memset m slot 0 b) slot data n) slot b = mem_bytes m data n @ replicate (b - n) 0"
  using assms(2,3) by (intro nth_equalityI) (auto simp: mem_bytes_def slot_written [OF assms] nth_append unat_of_nat_small)

lemma ring_slots_apart:
  assumes "ring_buffer_inv s" "i < k" "k < unat (kernel_ring_buffer_capacity s)"
  shows "apart (ring_slot s (ring_position s k)) (unat (kernel_ring_buffer_slot_size s))
    (ring_slot s (ring_position s i)) (unat (kernel_ring_buffer_slot_size s))"
  using assms ring_position_less [OF assms(1)] position_inj [OF assms(2,3)] unfolding ring_slot_def
  by (intro slots_apart [where n = "unat (kernel_ring_buffer_capacity s)"])
    (auto simp: ring_buffer_inv_def ring_span_def ring_position_def eq_commute)

definition same_ring :: "ring_buffer \<Rightarrow> ring_buffer \<Rightarrow> bool" where
  "same_ring s s' \<longleftrightarrow> kernel_ring_buffer_base s' = kernel_ring_buffer_base s \<and>
     kernel_ring_buffer_slot_size s' = kernel_ring_buffer_slot_size s \<and>
     kernel_ring_buffer_capacity s' = kernel_ring_buffer_capacity s"

lemma same_ring_client: "same_ring s s' \<Longrightarrow> client_buffer s' p n \<longleftrightarrow> client_buffer s p n"
  by (simp add: same_ring_def client_buffer_def ring_span_def)

lemma unat_count_up: "c < (d :: u32) \<Longrightarrow> unat (c + 1) = Suc (unat c)"
  using unat_offset [of c 1] unsigned_less [where 'a = nat, of d] by (simp add: word_less_nat_alt)

lemma enqueue_unfold:
  assumes "ring_buffer_inv s" "data \<noteq> 0" "0 < bytes" "bytes \<le> kernel_ring_buffer_slot_size s"
    "kernel_ring_buffer_count s < kernel_ring_buffer_capacity s"
  obtains s' where "kernel_ring_buffer_enqueue data bytes s = (True, s')" "same_ring s s'"
    "kernel_ring_buffer_initialized s'" "kernel_ring_buffer_head s' = kernel_ring_buffer_head s"
    "kernel_ring_buffer_count s' = kernel_ring_buffer_count s + 1"
    "kernel_ring_buffer_tail s' = (kernel_ring_buffer_tail s + 1) mod kernel_ring_buffer_capacity s"
    "ring_ram s' = (let slot = ring_slot s (ring_position s (unat (kernel_ring_buffer_count s)))
       in memcpy (memset (ring_ram s) slot 0 (unat (kernel_ring_buffer_slot_size s))) slot data (unat bytes))"
proof -
  have t: "ring_position s (unat (kernel_ring_buffer_count s)) = unat (kernel_ring_buffer_tail s)" "kernel_ring_buffer_initialized s"
    using assms(1) by (simp_all add: ring_buffer_inv_def)
  have g: "bytes \<noteq> 0" "\<not> kernel_ring_buffer_slot_size s < bytes" "\<not> kernel_ring_buffer_capacity s \<le> kernel_ring_buffer_count s"
    using assms by auto
  show thesis
    by (rule that [of "snd (kernel_ring_buffer_enqueue data bytes s)"])
      (use assms(2) g t in \<open>simp_all add: kernel_ring_buffer_enqueue_def Let_def same_ring_def ring_slot_def slot_at_word\<close>)
qed

lemma enqueue_effect:
  assumes inv: "ring_buffer_inv s" and buf: "client_buffer s data (unat bytes)"
    and len: "0 < bytes" "bytes \<le> kernel_ring_buffer_slot_size s" and room: "kernel_ring_buffer_count s < kernel_ring_buffer_capacity s"
  obtains s' where "kernel_ring_buffer_enqueue data bytes s = (True, s')" "ring_buffer_inv s'" "same_ring s s'"
    "ring_messages s' = ring_messages s @
      [mem_bytes (ring_ram s) data (unat bytes) @ replicate (unat (kernel_ring_buffer_slot_size s) - unat bytes) 0]"
proof -
  let ?b = "unat (kernel_ring_buffer_slot_size s)" and ?c = "unat (kernel_ring_buffer_count s)"
  let ?slot = "\<lambda>k. ring_slot s (ring_position s k)"
  have "data \<noteq> 0" using buf by (simp add: client_buffer_def)
  then obtain s' where s': "kernel_ring_buffer_enqueue data bytes s = (True, s')" "same_ring s s'"
    "kernel_ring_buffer_initialized s'" "kernel_ring_buffer_head s' = kernel_ring_buffer_head s"
    "kernel_ring_buffer_count s' = kernel_ring_buffer_count s + 1"
    "kernel_ring_buffer_tail s' = (kernel_ring_buffer_tail s + 1) mod kernel_ring_buffer_capacity s"
    "ring_ram s' = memcpy (memset (ring_ram s) (?slot ?c) 0 ?b) (?slot ?c) data (unat bytes)"
    by (rule enqueue_unfold [OF inv _ len room, unfolded Let_def]) (rule that)
  have c': "unat (kernel_ring_buffer_count s') = Suc ?c" using s'(5) unat_count_up [OF room] by simp
  have pos: "ring_position s' k = ring_position s k" "ring_slot s' k = ring_slot s k" for k
    using s'(2,4) by (auto simp: ring_position_def ring_slot_def same_ring_def)
  have ap: "apart (?slot ?c) ?b data (unat bytes)" by (rule client_buffer_apart [OF inv buf])
  have small: "unat bytes \<le> ?b" "?b < 2 ^ 32"
    using len(2) unsigned_less [where 'a = nat, of "kernel_ring_buffer_slot_size s"] by (simp_all add: word_le_nat_alt)
  have old: "mem_bytes (ring_ram s') (?slot k) ?b = mem_bytes (ring_ram s) (?slot k) ?b" if "k < ?c" for k
  proof (rule mem_bytes_cong)
    fix x assume "unat (x - ?slot k) < ?b"
    moreover have "apart (?slot ?c) ?b (?slot k) ?b" by (rule ring_slots_apart [OF inv that]) (use room in \<open>simp add: word_less_nat_alt\<close>)
    ultimately have "?b \<le> unat (x - ?slot ?c)" using apart_ge by blast
    then show "ring_ram s' x = ring_ram s x" using slot_written [OF ap small] s'(7) small by simp
  qed (use small in simp)
  have "ring_messages s' = ring_messages s @ [mem_bytes (ring_ram s') (?slot ?c) ?b]"
    using old s'(2) by (simp add: ring_messages_def c' pos same_ring_def)
  then have m: "ring_messages s' = ring_messages s @ [mem_bytes (ring_ram s) data (unat bytes) @ replicate (?b - unat bytes) 0]"
    using slot_written_bytes [OF ap small] s'(7) by simp
  have "unat (kernel_ring_buffer_tail s') = ring_position s (Suc ?c)"
    using inv s'(6) next_position [of "kernel_ring_buffer_tail s" "kernel_ring_buffer_capacity s"] ring_position_less [OF inv, of ?c]
    by (simp add: ring_buffer_inv_def ring_position_def mod_Suc_eq)
  then have "ring_buffer_inv s'" using inv s'(2-4) room c' pos
    by (simp add: ring_buffer_inv_def same_ring_def ring_span_def word_le_nat_alt word_less_nat_alt)
  then show thesis using s'(1,2) m by (intro that)
qed

lemma dequeue_unfold:
  assumes "ring_buffer_inv s" "out \<noteq> 0" "0 < bytes" "bytes \<le> kernel_ring_buffer_slot_size s" "kernel_ring_buffer_count s \<noteq> 0"
  obtains s' where "kernel_ring_buffer_dequeue out bytes s = (True, s')" "same_ring s s'"
    "kernel_ring_buffer_initialized s'" "kernel_ring_buffer_tail s' = kernel_ring_buffer_tail s"
    "kernel_ring_buffer_count s' = kernel_ring_buffer_count s - 1"
    "kernel_ring_buffer_head s' = (kernel_ring_buffer_head s + 1) mod kernel_ring_buffer_capacity s"
    "ring_ram s' = memcpy (ring_ram s) out (ring_slot s (ring_position s 0)) (unat bytes)"
proof -
  have t: "ring_position s 0 = unat (kernel_ring_buffer_head s)" "kernel_ring_buffer_initialized s"
    using assms(1) by (simp_all add: ring_buffer_inv_def ring_position_def word_less_nat_alt)
  have g: "bytes \<noteq> 0" "\<not> kernel_ring_buffer_slot_size s < bytes" using assms by auto
  show thesis
    by (rule that [of "snd (kernel_ring_buffer_dequeue out bytes s)"])
      (use assms(2,5) g t in \<open>simp_all add: kernel_ring_buffer_dequeue_def Let_def same_ring_def ring_slot_def slot_at_word\<close>)
qed

lemma dequeue_effect:
  assumes inv: "ring_buffer_inv s" and buf: "client_buffer s out (unat bytes)"
    and len: "0 < bytes" "bytes \<le> kernel_ring_buffer_slot_size s" and ms: "ring_messages s = x # xs"
  obtains s' where "kernel_ring_buffer_dequeue out bytes s = (True, s')" "ring_buffer_inv s'" "same_ring s s'"
    "ring_messages s' = xs" "mem_bytes (ring_ram s') out (unat bytes) = take (unat bytes) x"
proof -
  let ?b = "unat (kernel_ring_buffer_slot_size s)" and ?c = "unat (kernel_ring_buffer_count s)" and ?n = "unat bytes"
  let ?slot = "\<lambda>k. ring_slot s (ring_position s k)"
  have o: "out \<noteq> 0" using buf by (simp add: client_buffer_def)
  have "length (ring_messages s) = ?c" by (simp add: ring_messages_def)
  then have c: "0 < ?c" using ms by simp
  then have "kernel_ring_buffer_count s \<noteq> 0" by auto
  with o obtain s' where s': "kernel_ring_buffer_dequeue out bytes s = (True, s')" "same_ring s s'"
    "kernel_ring_buffer_initialized s'" "kernel_ring_buffer_tail s' = kernel_ring_buffer_tail s"
    "kernel_ring_buffer_count s' = kernel_ring_buffer_count s - 1"
    "kernel_ring_buffer_head s' = (kernel_ring_buffer_head s + 1) mod kernel_ring_buffer_capacity s"
    "ring_ram s' = memcpy (ring_ram s) out (?slot 0) ?n"
    by (rule dequeue_unfold [OF inv _ len]) (rule that)
  have c': "unat (kernel_ring_buffer_count s') = ?c - 1" using s'(5) c by (simp add: unat_sub word_le_nat_alt)
  have h: "unat (kernel_ring_buffer_head s') = ring_position s 1"
    using inv s'(6) next_position [of "kernel_ring_buffer_head s" "kernel_ring_buffer_capacity s"]
    by (simp add: ring_buffer_inv_def ring_position_def word_less_nat_alt)
  have pos: "ring_position s' k = ring_position s (Suc k)" "ring_slot s' j = ring_slot s j" for k j
    using s'(2) h by (auto simp: ring_position_def ring_slot_def same_ring_def mod_simps)
  have small: "?n \<le> ?b" "?n < 2 ^ 32" "?b < 2 ^ 32"
    using len(2) unsigned_less [where 'a = nat, of "kernel_ring_buffer_slot_size s"] by (simp_all add: word_le_nat_alt)
  have ap: "apart (?slot k) ?b out ?n" for k by (rule client_buffer_apart [OF inv buf])
  have at: "ring_ram s' y = (if unat (y - out) < ?n then ring_ram s (?slot 0 + (y - out)) else ring_ram s y)" for y
    using ap [of 0] small unfolding s'(7) by (intro memcpy_at) (auto simp: apart_def)
  have old: "mem_bytes (ring_ram s') (?slot k) ?b = mem_bytes (ring_ram s) (?slot k) ?b" for k
  proof (rule mem_bytes_cong)
    fix y assume "unat (y - ?slot k) < ?b"
    then have "?n \<le> unat (y - out)" using ap [of k] apart_ge apart_sym by blast
    then show "ring_ram s' y = ring_ram s y" using at by simp
  qed (use small in simp)
  have all: "[0..<?c] = 0 # map Suc [0..<?c - 1]" using c by (simp add: map_Suc_upt upt_conv_Cons)
  have msgs: "x = mem_bytes (ring_ram s) (?slot 0) ?b" "xs = ring_messages s'"
    using ms old s'(2) unfolding ring_messages_def all by (auto simp: c' pos same_ring_def)
  have got: "mem_bytes (ring_ram s') out ?n = take ?n x"
    using small unfolding msgs(1) by (intro nth_equalityI) (auto simp: mem_bytes_def at unat_of_nat_small)
  have "ring_buffer_inv s'" using inv s'(2-4) c c' pos h ring_position_less [OF inv, of 1]
    by (auto simp: ring_buffer_inv_def same_ring_def ring_span_def word_le_nat_alt word_less_nat_alt)
  then show thesis using s'(1,2) msgs(2) got by (auto intro: that)
qed

section \<open>Word messages\<close>

text \<open>
  The kernel's self test uses the ring with 32-bit messages: it enqueues \<open>&value\<close> and dequeues into \<open>&observed\<close>
  with \<open>sizeof(uint32_t)\<close>. The two calls, with the variables at \<open>value\<close> and \<open>observed\<close>, form a bounded first-in
  first-out buffer of words.
\<close>

definition send_word :: "u32 \<Rightarrow> u32 \<Rightarrow> ring_buffer \<Rightarrow> bool \<times> ring_buffer" where
  "send_word value w s = kernel_ring_buffer_enqueue value 4 (s\<lparr>ring_ram := store32 (ring_ram s) value w\<rparr>)"

definition receive_word :: "u32 \<Rightarrow> ring_buffer \<Rightarrow> u32 option \<times> ring_buffer" where
  "receive_word observed s =
     (let (ok, s) = kernel_ring_buffer_dequeue observed 4 s in (if ok then Some (load32 (ring_ram s) observed) else None, s))"

definition bytes_word :: "u8 list \<Rightarrow> u32" where
  "bytes_word bs = load32 (\<lambda>a. bs ! unat a) 0"

definition ring_words :: "ring_buffer \<Rightarrow> u32 list" where
  "ring_words s = map bytes_word (ring_messages s)"

definition word_ring_inv :: "u32 \<Rightarrow> u32 \<Rightarrow> ring_buffer \<Rightarrow> bool" where
  "word_ring_inv value observed s \<longleftrightarrow> ring_buffer_inv s \<and> client_buffer s value 4 \<and> client_buffer s observed 4"

lemma bytes_word_mem: "bytes_word (mem_bytes m a 4 @ rest) = load32 m a"
proof -
  have "mem_bytes m a 4 = [m a, m (a + 1), m (a + 2), m (a + 3)]" by (simp add: mem_bytes_def upt_rec)
  then show ?thesis by (simp add: bytes_word_def load32_def)
qed

lemma bytes_word_take:
  assumes "4 \<le> length bs" "mem_bytes m a 4 = take 4 bs"
  shows "bytes_word bs = load32 m a"
  using bytes_word_mem [of m a "drop 4 bs"] assms by simp

lemma ring_slot_size_word: "ring_buffer_inv s \<Longrightarrow> 4 \<le> kernel_ring_buffer_slot_size s"
  by (auto simp: ring_buffer_inv_def word_le_nat_alt)

lemma client_store:
  assumes "word_ring_inv value observed s"
  shows "word_ring_inv value observed (s\<lparr>ring_ram := store32 (ring_ram s) value w\<rparr>)"
    "ring_messages (s\<lparr>ring_ram := store32 (ring_ram s) value w\<rparr>) = ring_messages s"
proof -
  let ?b = "unat (kernel_ring_buffer_slot_size s)"
  have inv: "ring_buffer_inv s" "client_buffer s value 4" using assms by (auto simp: word_ring_inv_def)
  show "word_ring_inv value observed (s\<lparr>ring_ram := store32 (ring_ram s) value w\<rparr>)"
    using assms by (simp add: word_ring_inv_def ring_buffer_inv_def ring_span_def ring_position_def client_buffer_def)
  have "mem_bytes (store32 (ring_ram s) value w) (ring_slot s (ring_position s k)) ?b =
    mem_bytes (ring_ram s) (ring_slot s (ring_position s k)) ?b" for k
  proof (rule mem_bytes_cong)
    fix x assume "unat (x - ring_slot s (ring_position s k)) < ?b"
    then have "4 \<le> unat (x - value)" using client_buffer_apart [OF inv, of k] apart_ge apart_sym by blast
    then show "store32 (ring_ram s) value w x = ring_ram s x" by (rule store32_other)
  qed (use unsigned_less [where 'a = nat, of "kernel_ring_buffer_slot_size s"] in simp)
  then show "ring_messages (s\<lparr>ring_ram := store32 (ring_ram s) value w\<rparr>) = ring_messages s"
    by (simp add: ring_messages_def ring_position_def ring_slot_def)
qed

lemma mem_bytes_stored: "bytes_word (mem_bytes (store32 m a w) a 4 @ rest) = w"
  by (simp add: bytes_word_mem)

lemma same_ring_word_inv:
  "word_ring_inv value observed s \<Longrightarrow> ring_buffer_inv s' \<Longrightarrow> same_ring s s' \<Longrightarrow> word_ring_inv value observed s'"
  by (simp add: word_ring_inv_def same_ring_client)

lemma length_ring_words: "length (ring_words s) = unat (kernel_ring_buffer_count s)"
  by (simp add: ring_words_def ring_messages_def)

lemma send_room:
  assumes "word_ring_inv value observed s" "length (ring_words s) < unat (kernel_ring_buffer_capacity s)"
  shows "\<exists>s'. send_word value w s = (True, s') \<and> word_ring_inv value observed s' \<and> ring_words s' = ring_words s @ [w] \<and>
    unat (kernel_ring_buffer_capacity s') = unat (kernel_ring_buffer_capacity s)"
proof -
  let ?t = "s\<lparr>ring_ram := store32 (ring_ram s) value w\<rparr>"
  have t: "word_ring_inv value observed ?t" "ring_messages ?t = ring_messages s" using client_store [OF assms(1)] by auto
  then have inv: "ring_buffer_inv ?t" "client_buffer ?t value (unat (4 :: u32))" by (simp_all add: word_ring_inv_def)
  have room: "kernel_ring_buffer_count ?t < kernel_ring_buffer_capacity ?t"
    using assms(2) by (simp add: length_ring_words word_less_nat_alt)
  obtain s' where s': "kernel_ring_buffer_enqueue value 4 ?t = (True, s')" "ring_buffer_inv s'" "same_ring ?t s'"
    "ring_messages s' = ring_messages ?t @ [mem_bytes (ring_ram ?t) value (unat (4 :: u32)) @
      replicate (unat (kernel_ring_buffer_slot_size ?t) - unat (4 :: u32)) 0]"
    by (rule enqueue_effect [OF inv _ ring_slot_size_word [OF inv(1)] room]) (simp, rule that)
  then show ?thesis using same_ring_word_inv [OF t(1) s'(2,3)] t(2)
    by (simp add: send_word_def ring_words_def mem_bytes_stored same_ring_def)
qed

lemma send_full:
  assumes "word_ring_inv value observed s" "length (ring_words s) = unat (kernel_ring_buffer_capacity s)"
  shows "\<exists>s'. send_word value w s = (False, s') \<and> word_ring_inv value observed s' \<and> ring_words s' = ring_words s \<and>
    unat (kernel_ring_buffer_capacity s') = unat (kernel_ring_buffer_capacity s)"
proof -
  let ?t = "s\<lparr>ring_ram := store32 (ring_ram s) value w\<rparr>"
  let ?s' = "?t\<lparr>kernel_ring_buffer_failed_enqueue_count := kernel_ring_buffer_failed_enqueue_count ?t + 1\<rparr>"
  have t: "word_ring_inv value observed ?t" "ring_messages ?t = ring_messages s" using client_store [OF assms(1)] by auto
  have "kernel_ring_buffer_capacity s \<le> kernel_ring_buffer_count s" using assms(2) by (simp add: length_ring_words word_le_nat_alt)
  moreover have "\<not> kernel_ring_buffer_slot_size s < 4" "kernel_ring_buffer_initialized s" "value \<noteq> 0"
    using assms(1) ring_slot_size_word [of s] by (auto simp: word_ring_inv_def ring_buffer_inv_def client_buffer_def)
  ultimately have "send_word value w s = (False, ?s')" by (simp add: send_word_def kernel_ring_buffer_enqueue_def)
  moreover have "word_ring_inv value observed ?s'" "ring_messages ?s' = ring_messages ?t"
    using t(1) by (simp_all add: word_ring_inv_def ring_buffer_inv_def ring_span_def ring_position_def client_buffer_def
      ring_messages_def ring_slot_def)
  ultimately show ?thesis using t(2) by (simp add: ring_words_def)
qed

lemma receive_cons:
  assumes "word_ring_inv value observed s" "ring_words s = w # ws"
  shows "\<exists>s'. receive_word observed s = (Some w, s') \<and> word_ring_inv value observed s' \<and> ring_words s' = ws \<and>
    unat (kernel_ring_buffer_capacity s') = unat (kernel_ring_buffer_capacity s)"
proof -
  have inv: "ring_buffer_inv s" "client_buffer s observed (unat (4 :: u32))" using assms(1) by (simp_all add: word_ring_inv_def)
  obtain x xs where ms: "ring_messages s = x # xs" "bytes_word x = w" "map bytes_word xs = ws"
    using assms(2) by (auto simp: ring_words_def)
  have "x \<in> set (ring_messages s)" using ms(1) by simp
  then have len: "length x = unat (kernel_ring_buffer_slot_size s)" by (auto simp: ring_messages_def)
  obtain s' where s': "kernel_ring_buffer_dequeue observed 4 s = (True, s')" "ring_buffer_inv s'" "same_ring s s'"
    "ring_messages s' = xs" "mem_bytes (ring_ram s') observed (unat (4 :: u32)) = take (unat (4 :: u32)) x"
    by (rule dequeue_effect [OF inv _ ring_slot_size_word [OF inv(1)] ms(1)]) (simp, rule that)
  have "load32 (ring_ram s') observed = w"
    using bytes_word_take [of x "ring_ram s'" observed] s'(5) ms(2) len inv(1) by (simp add: ring_buffer_inv_def)
  then show ?thesis using s' same_ring_word_inv [OF assms(1) s'(2,3)] ms(3)
    by (simp add: receive_word_def ring_words_def same_ring_def)
qed

lemma receive_empty:
  assumes "word_ring_inv value observed s" "ring_words s = []"
  shows "\<exists>s'. receive_word observed s = (None, s') \<and> word_ring_inv value observed s' \<and> ring_words s' = [] \<and>
    unat (kernel_ring_buffer_capacity s') = unat (kernel_ring_buffer_capacity s)"
proof -
  let ?s' = "s\<lparr>kernel_ring_buffer_failed_dequeue_count := kernel_ring_buffer_failed_dequeue_count s + 1\<rparr>"
  have "unat (kernel_ring_buffer_count s) = 0" using assms(2) length_ring_words [of s] by simp
  then have c: "kernel_ring_buffer_count s = 0" by (simp add: unat_eq_zero)
  moreover have "\<not> kernel_ring_buffer_slot_size s < 4" "kernel_ring_buffer_initialized s" "observed \<noteq> 0"
    using assms(1) ring_slot_size_word [of s] by (auto simp: word_ring_inv_def ring_buffer_inv_def client_buffer_def)
  ultimately have "receive_word observed s = (None, ?s')" by (simp add: receive_word_def kernel_ring_buffer_dequeue_def)
  moreover have "word_ring_inv value observed ?s'" "ring_words ?s' = []"
    using assms(1) c by (simp_all add: word_ring_inv_def ring_buffer_inv_def ring_span_def ring_position_def client_buffer_def
      ring_messages_def ring_words_def)
  ultimately show ?thesis by simp
qed

interpretation word_ring: bounded_fifo "word_ring_inv value observed" ring_words
  "\<lambda>s. unat (kernel_ring_buffer_capacity s)" "send_word value" "receive_word observed"
proof unfold_locales
  show "length (ring_words s) \<le> unat (kernel_ring_buffer_capacity s)" if "word_ring_inv value observed s" for s
    using that by (simp add: length_ring_words word_ring_inv_def ring_buffer_inv_def word_le_nat_alt)
qed (auto intro: send_room send_full receive_cons receive_empty)

lemma unat_align_8: "unat v + 7 < 2 ^ 32 \<Longrightarrow> 0 < v \<Longrightarrow> 8 \<le> unat (slot_align_up v 8) \<and> unat v \<le> unat (slot_align_up v 8)"
  using unat_align_up [of 3 v] by (simp add: slot_align_up_def word_less_nat_alt) linarith


text \<open>A concrete ring: three slots at 0x1000 and the two variables above it.\<close>

abbreviation (input) blank_ring :: ring_buffer where
  "blank_ring \<equiv> \<lparr>kernel_ring_buffer_base = 0, kernel_ring_buffer_slot_size = 0, kernel_ring_buffer_capacity = 0,
     kernel_ring_buffer_head = 0, kernel_ring_buffer_tail = 0, kernel_ring_buffer_count = 0, kernel_ring_buffer_mode = Mode_Local,
     kernel_ring_buffer_high_watermark = 0, kernel_ring_buffer_enqueue_count = 0, kernel_ring_buffer_dequeue_count = 0,
     kernel_ring_buffer_failed_enqueue_count = 0, kernel_ring_buffer_failed_dequeue_count = 0,
     kernel_ring_buffer_initialized = False, ring_ram = (\<lambda>_. 0)\<rparr>"


end
