(* ===== verification/Pool_Allocator.thy ===== *)
theory Pool_Allocator
  imports Slots
begin

text \<open>
  The object pool of \<open>src/kernel/kernel/memory/pool_allocator.c\<close>: equal slots in one block of the kernel heap, the free ones
  linked through their first word and marked by a cookie in their second word. The block that \<open>kmalloc\<close> returns and the
  two readings of the time-stamp counter are arguments. The pool is shown well formed in every state that allocations,
  client writes and calls of \<open>kernel_pool_free\<close> with arbitrary pointers can reach.
\<close>

record object_pool =
  kernel_pool_base :: u32
  kernel_pool_free_head :: u32
  kernel_pool_slot_size :: u32
  kernel_pool_object_size :: u32
  kernel_pool_capacity :: u32
  kernel_pool_free_count :: u32
  kernel_pool_peak_used :: u32
  kernel_pool_failed_alloc_count :: u32
  kernel_pool_wcet_alloc :: u32
  kernel_pool_wcet_free :: u32
  kernel_pool_initialized :: bool
  pool_ram :: mem

abbreviation (input) pool_cookie :: u32 where
  "pool_cookie \<equiv> 0x504F4F4C"

definition kernel_pool_align_up :: "u32 \<Rightarrow> u32 \<Rightarrow> u32" where
  "kernel_pool_align_up value align = slot_align_up value align"

definition pool_thread_slot :: "nat \<Rightarrow> object_pool \<Rightarrow> object_pool" where
  "pool_thread_slot index s =
     (let slot = kernel_pool_base s + of_nat index * kernel_pool_slot_size s;
          ram = store32 (store32 (pool_ram s) slot (kernel_pool_free_head s)) (slot + 4) pool_cookie
      in s\<lparr>pool_ram := ram, kernel_pool_free_head := slot\<rparr>)"

definition kernel_pool_allocator_initialize :: "u32 \<Rightarrow> u32 \<Rightarrow> u32 \<Rightarrow> object_pool \<Rightarrow> bool \<times> object_pool" where
  "kernel_pool_allocator_initialize backing object_size object_count s =
     (if kernel_pool_initialized s then (True, s)
      else if object_size = 0 \<or> object_count = 0 then (False, s)
      else
        let slot_size = kernel_pool_align_up object_size 4;
            slot_size = (if slot_size < 8 then kernel_pool_align_up 8 4 else slot_size);
            s = s\<lparr>kernel_pool_object_size := object_size, kernel_pool_slot_size := slot_size\<rparr>
        in if backing = 0 then (False, s)
           else
             let s = s\<lparr>kernel_pool_base := backing, kernel_pool_capacity := object_count, kernel_pool_free_count := object_count,
                   kernel_pool_peak_used := 0, kernel_pool_failed_alloc_count := 0, kernel_pool_wcet_alloc := 0,
                   kernel_pool_wcet_free := 0, kernel_pool_free_head := 0\<rparr>;
                 s = fold pool_thread_slot [0..<unat object_count] s
             in (True, s\<lparr>kernel_pool_initialized := True\<rparr>))"

definition kernel_pool_alloc :: "u32 \<Rightarrow> u32 \<Rightarrow> object_pool \<Rightarrow> u32 \<times> object_pool" where
  "kernel_pool_alloc t0 t1 s =
     (if \<not> kernel_pool_initialized s \<or> kernel_pool_free_head s = 0 then
        (0, if kernel_pool_initialized s
            then s\<lparr>kernel_pool_failed_alloc_count := kernel_pool_failed_alloc_count s + 1\<rparr> else s)
      else
        let slot = kernel_pool_free_head s;
            free_count = kernel_pool_free_count s - 1;
            used_count = kernel_pool_capacity s - free_count;
            delta = t1 - t0
        in (slot, s\<lparr>kernel_pool_free_head := load32 (pool_ram s) slot, pool_ram := store32 (pool_ram s) (slot + 4) 0,
              kernel_pool_free_count := free_count,
              kernel_pool_peak_used := (if kernel_pool_peak_used s < used_count then used_count else kernel_pool_peak_used s),
              kernel_pool_wcet_alloc := (if kernel_pool_wcet_alloc s < delta then delta else kernel_pool_wcet_alloc s)\<rparr>))"

text \<open>The poison loop writes its byte over the object behind the link word, as \<open>memset\<close> does.\<close>

definition pool_poison :: "build_flags \<Rightarrow> u32 \<Rightarrow> object_pool \<Rightarrow> mem" where
  "pool_poison flags ptr s =
     (if debug_poison flags \<and> 4 < kernel_pool_object_size s
      then memset (pool_ram s) (ptr + 4) 0xDF (unat (kernel_pool_object_size s - 4)) else pool_ram s)"

definition kernel_pool_free :: "build_flags \<Rightarrow> u32 \<Rightarrow> u32 \<Rightarrow> u32 \<Rightarrow> object_pool \<Rightarrow> bool \<times> object_pool" where
  "kernel_pool_free flags t0 t1 ptr s =
     (if \<not> kernel_pool_initialized s \<or> ptr = 0 then (False, s)
      else
        let end_addr = kernel_pool_base s + kernel_pool_slot_size s * kernel_pool_capacity s in
        if ptr < kernel_pool_base s \<or> end_addr \<le> ptr then (False, s)
        else if (ptr - kernel_pool_base s) mod kernel_pool_slot_size s \<noteq> 0 then (False, s)
        else if load32 (pool_ram s) (ptr + 4) = pool_cookie then (False, s)
        else
          let ram = store32 (store32 (pool_poison flags ptr s) ptr (kernel_pool_free_head s)) (ptr + 4) pool_cookie;
              delta = t1 - t0
          in (True, s\<lparr>pool_ram := ram, kernel_pool_free_head := ptr,
                kernel_pool_free_count := (if kernel_pool_free_count s < kernel_pool_capacity s
                  then kernel_pool_free_count s + 1 else kernel_pool_free_count s),
                kernel_pool_wcet_free := (if kernel_pool_wcet_free s < delta then delta else kernel_pool_wcet_free s)\<rparr>))"

section \<open>The slots\<close>

definition pool_slots :: "object_pool \<Rightarrow> u32 set" where
  "pool_slots s = slot_at (kernel_pool_base s) (kernel_pool_slot_size s) ` {..<unat (kernel_pool_capacity s)}"

text \<open>The geometry of the pool, fixed by its initialisation.\<close>

definition pool_geometry :: "object_pool \<Rightarrow> bool" where
  "pool_geometry s \<longleftrightarrow> kernel_pool_base s \<noteq> 0 \<and> 4 dvd unat (kernel_pool_base s) \<and>
     4 dvd unat (kernel_pool_slot_size s) \<and> 8 \<le> unat (kernel_pool_slot_size s) \<and>
     unat (kernel_pool_object_size s) \<le> unat (kernel_pool_slot_size s) \<and>
     unat (kernel_pool_base s) + unat (kernel_pool_capacity s) * unat (kernel_pool_slot_size s) < 2 ^ 32"

definition pool_free_list :: "object_pool \<Rightarrow> u32 list \<Rightarrow> bool" where
  "pool_free_list s fs \<longleftrightarrow> chain (load32 (pool_ram s)) (kernel_pool_free_head s) fs \<and>
     (\<forall>p \<in> set fs. load32 (pool_ram s) (p + 4) = pool_cookie) \<and> unat (kernel_pool_free_count s) = length fs"

definition pool_wf :: "object_pool \<Rightarrow> u32 set \<Rightarrow> bool" where
  "pool_wf s live \<longleftrightarrow> kernel_pool_initialized s \<and> pool_geometry s \<and>
     (\<exists>fs. pool_free_list s fs \<and> set fs \<inter> live = {} \<and> set fs \<union> live = pool_slots s)"

lemma unat_slot:
  assumes "i < n" "unat base + n * unat b < 2 ^ 32" "0 < unat b"
  shows "unat (slot_at base b i) = unat base + i * unat b"
proof -
  have "i * unat b + unat b \<le> n * unat b" using assms by (intro slot_in_range) auto
  then have "unat base + i * unat b < 2 ^ 32" using assms by linarith
  then show ?thesis using unat_offset [of base "i * unat b"] by (simp add: slot_at_def)
qed

lemma pool_slot_unat:
  assumes "pool_geometry s" "p \<in> pool_slots s"
  obtains i where "i < unat (kernel_pool_capacity s)" "p = slot_at (kernel_pool_base s) (kernel_pool_slot_size s) i"
    "unat p = unat (kernel_pool_base s) + i * unat (kernel_pool_slot_size s)"
proof -
  obtain i where i: "i < unat (kernel_pool_capacity s)" "p = slot_at (kernel_pool_base s) (kernel_pool_slot_size s) i"
    using assms(2) by (auto simp: pool_slots_def)
  then show thesis using assms(1) unat_slot [OF i(1)] by (intro that) (auto simp: pool_geometry_def)
qed

lemma pool_slots_apart:
  assumes "pool_geometry s" "p \<in> pool_slots s" "q \<in> pool_slots s" "p \<noteq> q"
  shows "apart p (unat (kernel_pool_slot_size s)) q (unat (kernel_pool_slot_size s))"
proof -
  obtain i where i: "i < unat (kernel_pool_capacity s)" "p = slot_at (kernel_pool_base s) (kernel_pool_slot_size s) i"
    by (rule pool_slot_unat [OF assms(1,2)]) (rule that)
  obtain j where j: "j < unat (kernel_pool_capacity s)" "q = slot_at (kernel_pool_base s) (kernel_pool_slot_size s) j"
    by (rule pool_slot_unat [OF assms(1,3)]) (rule that)
  show ?thesis unfolding i(2) j(2)
    by (rule slots_apart [of i j "unat (kernel_pool_capacity s)"]) (use i j assms in \<open>auto simp: pool_geometry_def\<close>)
qed

lemma pool_slot_aligned:
  assumes "pool_geometry s" "p \<in> pool_slots s"
  shows "4 dvd unat p" "p \<noteq> 0" "unat p + unat (kernel_pool_slot_size s) < 2 ^ 32"
proof -
  let ?b = "unat (kernel_pool_slot_size s)"
  obtain i where i: "i < unat (kernel_pool_capacity s)" "unat p = unat (kernel_pool_base s) + i * ?b"
    by (rule pool_slot_unat [OF assms]) (rule that)
  have g: "0 < unat (kernel_pool_base s)" "0 < ?b" "4 dvd unat (kernel_pool_base s)" "4 dvd ?b"
    "unat (kernel_pool_base s) + unat (kernel_pool_capacity s) * ?b < 2 ^ 32"
    using assms(1) by (auto simp: pool_geometry_def unat_gt_0)
  show "4 dvd unat p" using i(2) g by simp
  show "p \<noteq> 0" using i(2) g(1) by auto
  have "i * ?b + ?b \<le> unat (kernel_pool_capacity s) * ?b" using i(1) g by (intro slot_in_range) auto
  then show "unat p + ?b < 2 ^ 32" using i(2) g(5) by linarith
qed

text \<open>The range and remainder tests of \<open>kernel_pool_free\<close> accept exactly the slots.\<close>

lemma pool_slot_test:
  assumes "pool_geometry s"
  shows "p \<in> pool_slots s \<longleftrightarrow> kernel_pool_base s \<le> p \<and>
    p < kernel_pool_base s + kernel_pool_slot_size s * kernel_pool_capacity s \<and>
    (p - kernel_pool_base s) mod kernel_pool_slot_size s = 0" (is "_ \<longleftrightarrow> ?test")
proof -
  let ?b = "unat (kernel_pool_slot_size s)" and ?c = "unat (kernel_pool_capacity s)" and ?base = "unat (kernel_pool_base s)"
  have g: "?base + ?c * ?b < 2 ^ 32" "0 < ?b" using assms by (auto simp: pool_geometry_def)
  then have e: "unat (kernel_pool_base s + kernel_pool_slot_size s * kernel_pool_capacity s) = ?base + ?c * ?b"
    using unat_offset [of "kernel_pool_base s" "?c * ?b"] by (simp add: mult.commute)
  show ?thesis
  proof
    assume "p \<in> pool_slots s"
    then obtain i where i: "i < ?c" "unat p = ?base + i * ?b" by (rule pool_slot_unat [OF assms]) (rule that)
    then have "unat p < ?base + ?c * ?b" using g(2) by simp
    then show ?test using i e by (simp add: word_le_nat_alt word_less_nat_alt word_unat_eq_iff unat_mod unat_sub)
  next
    assume t: ?test
    then have o: "unat (p - kernel_pool_base s) = unat p - ?base" "?base \<le> unat p" "unat p < ?base + ?c * ?b"
      using e by (auto simp: word_le_nat_alt word_less_nat_alt unat_sub)
    define i where "i = (unat p - ?base) div ?b"
    have "(unat p - ?base) mod ?b = 0" using t o by (metis unat_mod unat_0)
    then have d: "unat p - ?base = i * ?b" unfolding i_def by (metis add.right_neutral div_mult_mod_eq)
    have i: "i < ?c" using o d by (metis add_less_imp_less_left le_add_diff_inverse mult_less_cancel2)
    have "unat p = unat (slot_at (kernel_pool_base s) (kernel_pool_slot_size s) i)"
      using unat_slot [OF i g] d o(2) by simp
    then show "p \<in> pool_slots s" using i unfolding pool_slots_def by (metis imageI lessThan_iff word_unat_eq_iff)
  qed
qed

section \<open>Writes inside one slot\<close>

definition only_slot :: "object_pool \<Rightarrow> u32 \<Rightarrow> mem \<Rightarrow> bool" where
  "only_slot s p m \<longleftrightarrow> (\<forall>x. unat (kernel_pool_slot_size s) \<le> unat (x - p) \<longrightarrow> m x = pool_ram s x)"

lemma second_word: "unat (x - (p + 4)) < 4 \<Longrightarrow> unat (x - p :: u32) < 8"
  using unat_sum_le [of "x - (p + 4)" 4] by simp

lemma past_second_word: "8 \<le> unat (x - p :: u32) \<Longrightarrow> 4 \<le> unat (x - (p + 4))"
  using second_word [of x p] by (auto simp: not_less [symmetric])

lemma only_slot_store: "pool_geometry s \<Longrightarrow> only_slot s p m \<Longrightarrow> only_slot s p (store32 m p v)"
  "pool_geometry s \<Longrightarrow> only_slot s p m \<Longrightarrow> only_slot s p (store32 m (p + 4) v)"
  by (auto simp: only_slot_def pool_geometry_def intro!: store32_other past_second_word trans [OF store32_other])

lemma only_slot_poison:
  assumes "pool_geometry s"
  shows "only_slot s p (pool_poison flags p s)"
proof -
  let ?o = "kernel_pool_object_size s" and ?b = "unat (kernel_pool_slot_size s)"
  have "\<not> unat (x - (p + 4)) < unat (?o - 4)" if "4 < ?o" "?b \<le> unat (x - p)" for x
  proof
    assume "unat (x - (p + 4)) < unat (?o - 4)"
    moreover have "unat (?o - 4) = unat ?o - 4" using that(1) by (simp add: unat_sub word_less_nat_alt word_le_nat_alt)
    moreover have "unat (x - p) \<le> unat (x - (p + 4)) + 4" using unat_sum_le [of "x - (p + 4)" 4] by simp
    moreover have "unat ?o \<le> ?b" using assms by (simp add: pool_geometry_def)
    ultimately show False using that(2) by linarith
  qed
  then show ?thesis using unsigned_less [where 'a = nat, of "?o - 4"] by (simp add: only_slot_def pool_poison_def memset_at)
qed

lemma other_slot_kept:
  assumes g: "pool_geometry s" and pq: "p \<in> pool_slots s" "q \<in> pool_slots s" "q \<noteq> p" and m: "only_slot s p m"
  shows "load32 m q = load32 (pool_ram s) q" "load32 m (q + 4) = load32 (pool_ram s) (q + 4)"
proof -
  have b: "8 \<le> unat (kernel_pool_slot_size s)" using g by (simp add: pool_geometry_def)
  have "m x = pool_ram s x" if "unat (x - q) < 8" for x
    using apart_ge [OF pool_slots_apart [OF g pq(1,2)], of x] m that pq(3) b by (auto simp: only_slot_def)
  then show "load32 m q = load32 (pool_ram s) q" "load32 m (q + 4) = load32 (pool_ram s) (q + 4)"
    using second_word by (auto intro!: load32_cong)
qed

lemma free_list_kept:
  assumes g: "pool_geometry s" and fs: "chain (load32 (pool_ram s)) h fs" "\<forall>q \<in> set fs. load32 (pool_ram s) (q + 4) = pool_cookie"
    and p: "p \<in> pool_slots s" "p \<notin> set fs" "set fs \<subseteq> pool_slots s" and m: "only_slot s p m"
  shows "chain (load32 m) h fs" "\<forall>q \<in> set fs. load32 m (q + 4) = pool_cookie"
proof -
  have k: "load32 m q = load32 (pool_ram s) q \<and> load32 m (q + 4) = load32 (pool_ram s) (q + 4)" if "q \<in> set fs" for q
    using other_slot_kept [OF g p(1) _ _ m, of q] that p by blast
  show "chain (load32 m) h fs" using fs(1) k chain_cong [of fs "load32 m" "load32 (pool_ram s)"] by blast
  show "\<forall>q \<in> set fs. load32 m (q + 4) = pool_cookie" using fs(2) k by simp
qed

section \<open>The operations keep the pool well formed\<close>

lemma pool_alloc_wf:
  assumes wf: "pool_wf s live" and a: "kernel_pool_alloc t0 t1 s = (p, s')"
  shows "pool_wf s' (if p = 0 then live else insert p live)" "p \<noteq> 0 \<Longrightarrow> p \<notin> live \<and> p \<in> pool_slots s"
proof -
  obtain fs where g: "pool_geometry s" and fs: "pool_free_list s fs" "set fs \<inter> live = {}" "set fs \<union> live = pool_slots s"
    using wf by (auto simp: pool_wf_def)
  have i: "kernel_pool_initialized s" using wf by (simp add: pool_wf_def)
  have "pool_wf s' (if p = 0 then live else insert p live) \<and> (p \<noteq> 0 \<longrightarrow> p \<notin> live \<and> p \<in> pool_slots s)"
  proof (cases fs)
    case Nil
    then have "p = 0 \<and> s' = s\<lparr>kernel_pool_failed_alloc_count := kernel_pool_failed_alloc_count s + 1\<rparr>"
      using a fs(1) i by (simp add: kernel_pool_alloc_def pool_free_list_def)
    then show ?thesis using wf by (simp add: pool_wf_def pool_geometry_def pool_free_list_def pool_slots_def)
  next
    case (Cons h r)
    then have h: "kernel_pool_free_head s = h" "h \<noteq> 0" "chain (load32 (pool_ram s)) (load32 (pool_ram s) h) r"
      "\<forall>q \<in> set r. load32 (pool_ram s) (q + 4) = pool_cookie" "unat (kernel_pool_free_count s) = Suc (length r)" "h \<notin> set r"
      using fs(1) chain_distinct [of "load32 (pool_ram s)" h fs] by (auto simp: pool_free_list_def)
    have s': "p = h" "kernel_pool_free_head s' = load32 (pool_ram s) h" "pool_ram s' = store32 (pool_ram s) (h + 4) 0"
      "kernel_pool_free_count s' = kernel_pool_free_count s - 1" "pool_geometry s'" "pool_slots s' = pool_slots s"
      using a i h(1,2) g by (auto simp: kernel_pool_alloc_def Let_def pool_geometry_def pool_slots_def)
    have hs: "h \<in> pool_slots s" "set r \<subseteq> pool_slots s" using fs(3) Cons by auto
    have "only_slot s h (pool_ram s')" using only_slot_store(2) [OF g, of h "pool_ram s" 0] s'(3) by (simp add: only_slot_def)
    note kept = free_list_kept [OF g h(3,4) hs(1) h(6) hs(2) this]
    have "unat (kernel_pool_free_count s') = length r" using s'(4) h(5) by (simp add: unat_sub word_le_nat_alt)
    then have "pool_free_list s' r" using kept s'(2) by (simp add: pool_free_list_def)
    moreover have "kernel_pool_initialized s'" using a i h(1,2) by (auto simp: kernel_pool_alloc_def Let_def)
    ultimately show ?thesis using s' h fs(2,3) Cons hs(1) by (auto simp: pool_wf_def)
  qed
  then show "pool_wf s' (if p = 0 then live else insert p live)" "p \<noteq> 0 \<Longrightarrow> p \<notin> live \<and> p \<in> pool_slots s" by auto
qed

lemma pool_slots_card: "card (pool_slots s) \<le> unat (kernel_pool_capacity s)" "finite (pool_slots s)"
  unfolding pool_slots_def using card_image_le [of "{..<unat (kernel_pool_capacity s)}"] by auto

lemma pool_free_wf:
  assumes wf: "pool_wf s live" and a: "kernel_pool_free flags t0 t1 p s = (ok, s')"
  shows "pool_wf s' (if ok then live - {p} else live)" "ok \<Longrightarrow> p \<in> live"
proof -
  obtain fs where g: "pool_geometry s" and fs: "pool_free_list s fs" "set fs \<inter> live = {}" "set fs \<union> live = pool_slots s"
    using wf by (auto simp: pool_wf_def)
  have i: "kernel_pool_initialized s" using wf by (simp add: pool_wf_def)
  have "pool_wf s' (if ok then live - {p} else live) \<and> (ok \<longrightarrow> p \<in> live)"
  proof (cases ok)
    case False
    then have "s' = s" using a by (auto simp: kernel_pool_free_def Let_def split: if_splits)
    then show ?thesis using wf False by simp
  next
    case True
    define m where "m = store32 (pool_poison flags p s) p (kernel_pool_free_head s)"
    have t: "p \<in> pool_slots s" "load32 (pool_ram s) (p + 4) \<noteq> pool_cookie"
      using a True unfolding pool_slot_test [OF g] by (auto simp: kernel_pool_free_def Let_def not_less not_le split: if_splits)
    have nf: "p \<notin> set fs" using t(2) fs(1) by (auto simp: pool_free_list_def)
    have s': "kernel_pool_free_head s' = p" "pool_ram s' = store32 m (p + 4) pool_cookie" "pool_geometry s'" "pool_slots s' = pool_slots s"
      "kernel_pool_free_count s' = (if kernel_pool_free_count s < kernel_pool_capacity s then kernel_pool_free_count s + 1 else kernel_pool_free_count s)"
      using a True g by (auto simp: kernel_pool_free_def Let_def m_def pool_geometry_def pool_slots_def split: if_splits)
    have o: "only_slot s p (pool_ram s')" unfolding s'(2) m_def by (intro only_slot_store only_slot_poison g)
    have c: "chain (load32 (pool_ram s)) (kernel_pool_free_head s) fs" "\<forall>q \<in> set fs. load32 (pool_ram s) (q + 4) = pool_cookie"
      "unat (kernel_pool_free_count s) = length fs" using fs(1) by (auto simp: pool_free_list_def)
    have sub: "set fs \<subseteq> pool_slots s" using fs(3) by blast
    note kept = free_list_kept [OF g c(1,2) t(1) nf sub o]
    have "apart (p + 4) 4 p 4" by (simp add: apart_def)
    then have link: "load32 (pool_ram s') p = kernel_pool_free_head s" by (simp add: s'(2) m_def load32_store32_apart)
    have "card (insert p (set fs)) \<le> card (pool_slots s)" using sub t(1) pool_slots_card(2) by (intro card_mono) auto
    then have "length fs < unat (kernel_pool_capacity s)"
      using nf distinct_card [OF chain_distinct [OF c(1)]] pool_slots_card(1) [of s] by simp
    then have "kernel_pool_free_count s < kernel_pool_capacity s" using c(3) by (simp add: word_less_nat_alt)
    then have "unat (kernel_pool_free_count s') = Suc (length fs)"
      using s'(5) c(3) unat_offset [of "kernel_pool_free_count s" 1] unsigned_less [where 'a = nat, of "kernel_pool_capacity s"]
      by (simp add: word_less_nat_alt)
    then have "pool_free_list s' (p # fs)" using kept link s'(1,2) pool_slot_aligned(2) [OF g t(1)] by (simp add: pool_free_list_def)
    moreover have "kernel_pool_initialized s'" using a i True by (auto simp: kernel_pool_free_def Let_def split: if_splits)
    ultimately show ?thesis using s'(3,4) t(1) nf fs(2,3) True unfolding pool_wf_def
      by (intro conjI exI [of _ "p # fs"]) auto
  qed
  then show "pool_wf s' (if ok then live - {p} else live)" "ok \<Longrightarrow> p \<in> live" by auto
qed

text \<open>A client may write any byte of an object it holds.\<close>

lemma pool_write_wf:
  assumes wf: "pool_wf s live" and w: "p \<in> live" "unat (x - p) < unat (kernel_pool_slot_size s)"
  shows "pool_wf (s\<lparr>pool_ram := (pool_ram s)(x := v)\<rparr>) live"
proof -
  let ?s' = "s\<lparr>pool_ram := (pool_ram s)(x := v)\<rparr>"
  obtain fs where g: "pool_geometry s" and fs: "pool_free_list s fs" "set fs \<inter> live = {}" "set fs \<union> live = pool_slots s"
    using wf by (auto simp: pool_wf_def)
  have c: "chain (load32 (pool_ram s)) (kernel_pool_free_head s) fs" "\<forall>q \<in> set fs. load32 (pool_ram s) (q + 4) = pool_cookie"
    using fs(1) by (auto simp: pool_free_list_def)
  have p: "p \<in> pool_slots s" "p \<notin> set fs" "set fs \<subseteq> pool_slots s" using fs w by auto
  have "only_slot s p (pool_ram ?s')" using w(2) by (auto simp: only_slot_def)
  note kept = free_list_kept [OF g c p this]
  then have "pool_free_list ?s' fs" using fs(1) by (simp add: pool_free_list_def)
  moreover have "pool_geometry ?s'" "pool_slots ?s' = pool_slots s" using g by (simp_all add: pool_geometry_def pool_slots_def)
  ultimately show ?thesis using fs(2,3) wf unfolding pool_wf_def by auto
qed

lemma pool_threading:
  assumes "pool_geometry s" "n \<le> unat (kernel_pool_capacity s)" "kernel_pool_free_head s = 0"
  shows "let s' = fold pool_thread_slot [0..<n] s; fs = rev (map (slot_at (kernel_pool_base s) (kernel_pool_slot_size s)) [0..<n]) in
    s' = s\<lparr>pool_ram := pool_ram s', kernel_pool_free_head := kernel_pool_free_head s'\<rparr> \<and>
    chain (load32 (pool_ram s')) (kernel_pool_free_head s') fs \<and> (\<forall>p \<in> set fs. load32 (pool_ram s') (p + 4) = pool_cookie)"
  using assms(2)
proof (induction n)
  case 0
  then show ?case using assms(3) by simp
next
  case (Suc n)
  let ?slot = "slot_at (kernel_pool_base s) (kernel_pool_slot_size s)"
  define t where "t = fold pool_thread_slot [0..<n] s"
  define fs where "fs = rev (map ?slot [0..<n])"
  have IH: "t = s\<lparr>pool_ram := pool_ram t, kernel_pool_free_head := kernel_pool_free_head t\<rparr>"
    "chain (load32 (pool_ram t)) (kernel_pool_free_head t) fs" "\<forall>p \<in> set fs. load32 (pool_ram t) (p + 4) = pool_cookie"
    using Suc by (simp_all add: t_def fs_def Let_def)
  have b: "kernel_pool_base t = kernel_pool_base s" "kernel_pool_slot_size t = kernel_pool_slot_size s"
    "pool_slots t = pool_slots s" "pool_geometry t"
    using assms(1) by (subst IH(1), simp add: pool_slots_def pool_geometry_def)+
  let ?m = "store32 (store32 (pool_ram t) (?slot n) (kernel_pool_free_head t)) (?slot n + 4) pool_cookie"
  have step: "fold pool_thread_slot [0..<Suc n] s = t\<lparr>pool_ram := ?m, kernel_pool_free_head := ?slot n\<rparr>"
    by (simp add: t_def [symmetric] pool_thread_slot_def Let_def b slot_at_def)
  have sl: "?slot n \<in> pool_slots t" "set fs \<subseteq> pool_slots t" using Suc.prems unfolding b(3) by (auto simp: pool_slots_def fs_def)
  have new: "?slot n \<notin> set fs"
  proof
    assume "?slot n \<in> set fs"
    then obtain i where i: "i < n" "?slot n = ?slot i" by (auto simp: fs_def)
    have "apart (?slot i) (unat (kernel_pool_slot_size s)) (?slot n) (unat (kernel_pool_slot_size s))"
      using i(1) Suc.prems assms(1) by (intro slots_apart [of i n "unat (kernel_pool_capacity s)"]) (auto simp: pool_geometry_def)
    then show False using i(2) assms(1) by (simp add: apart_def pool_geometry_def)
  qed
  have "only_slot t (?slot n) ?m" by (intro only_slot_store b(4)) (simp add: only_slot_def)
  note kept = free_list_kept [OF b(4) IH(2,3) sl(1) new sl(2) this]
  have "apart (?slot n + 4) 4 (?slot n) 4" by (simp add: apart_def)
  then have link: "load32 ?m (?slot n) = kernel_pool_free_head t" by (simp add: load32_store32_apart)
  have s': "t\<lparr>pool_ram := ?m, kernel_pool_free_head := ?slot n\<rparr> = s\<lparr>pool_ram := ?m, kernel_pool_free_head := ?slot n\<rparr>"
    by (subst IH(1)) simp
  show ?case unfolding step Let_def
    using kept link s' pool_slot_aligned(2) [OF b(4) sl(1)] by (simp add: fs_def [symmetric])
qed

lemma pool_slot_size_4:
  assumes "unat v + 3 < 2 ^ 32" "0 < v"
  shows "4 dvd unat (kernel_pool_align_up v 4)" "unat v \<le> unat (kernel_pool_align_up v 4)"
proof -
  have "unat (kernel_pool_align_up v 4) = (unat v + 3) div 4 * 4"
    using unat_align_up [of 2 v] assms(1) by (simp add: kernel_pool_align_up_def slot_align_up_def)
  then show "4 dvd unat (kernel_pool_align_up v 4)" "unat v \<le> unat (kernel_pool_align_up v 4)" by auto
qed

lemma threading_slot_size: "kernel_pool_slot_size (fold pool_thread_slot is s) = kernel_pool_slot_size s"
  by (induction "is" arbitrary: s) (simp_all add: pool_thread_slot_def Let_def)

lemma pool_initialize_wf:
  assumes a: "kernel_pool_allocator_initialize backing object_size object_count s = (True, s0)" "\<not> kernel_pool_initialized s"
    and h: "unat object_size + 3 < 2 ^ 32" "4 dvd unat backing"
      "unat backing + unat object_count * unat (kernel_pool_slot_size s0) < 2 ^ 32"
  shows "pool_wf s0 {}"
proof -
  have n: "object_size \<noteq> 0" "object_count \<noteq> 0" "backing \<noteq> 0"
    using a by (auto simp: kernel_pool_allocator_initialize_def Let_def split: if_splits)
  define bytes where "bytes = (if kernel_pool_align_up object_size 4 < 8 then kernel_pool_align_up 8 4 else kernel_pool_align_up object_size 4)"
  define t where "t = s\<lparr>kernel_pool_object_size := object_size, kernel_pool_slot_size := bytes, kernel_pool_base := backing,
    kernel_pool_capacity := object_count, kernel_pool_free_count := object_count, kernel_pool_peak_used := 0,
    kernel_pool_failed_alloc_count := 0, kernel_pool_wcet_alloc := 0, kernel_pool_wcet_free := 0, kernel_pool_free_head := 0\<rparr>"
  define t' where "t' = fold pool_thread_slot [0..<unat object_count] t"
  have s0: "s0 = t'\<lparr>kernel_pool_initialized := True\<rparr>"
    using a n by (simp add: kernel_pool_allocator_initialize_def Let_def t'_def t_def bytes_def)
  have eight: "kernel_pool_align_up 8 4 = 8" by (simp add: kernel_pool_align_up_def slot_align_up_def align_up_def)
  have size: "4 dvd unat bytes" "8 \<le> unat bytes" "unat object_size \<le> unat bytes"
    using pool_slot_size_4 [OF h(1)] n(1) by (auto simp: bytes_def eight word_neq_0_conv word_less_nat_alt)
  define fs where "fs = rev (map (slot_at backing bytes) [0..<unat object_count])"
  have "kernel_pool_slot_size s0 = bytes" by (simp add: s0 t'_def threading_slot_size t_def)
  then have g: "pool_geometry t" using h(2,3) n(3) size by (simp add: pool_geometry_def t_def)
  have "t' = t\<lparr>pool_ram := pool_ram t', kernel_pool_free_head := kernel_pool_free_head t'\<rparr> \<and>
    chain (load32 (pool_ram t')) (kernel_pool_free_head t') fs \<and> (\<forall>p \<in> set fs. load32 (pool_ram t') (p + 4) = pool_cookie)"
    using pool_threading [OF g, of "unat object_count"] by (simp add: Let_def t'_def fs_def t_def)
  then have t': "t' = t\<lparr>pool_ram := pool_ram t', kernel_pool_free_head := kernel_pool_free_head t'\<rparr>"
    "chain (load32 (pool_ram t')) (kernel_pool_free_head t') fs" "\<forall>p \<in> set fs. load32 (pool_ram t') (p + 4) = pool_cookie" by blast+
  have f: "kernel_pool_free_count t' = object_count" "pool_slots t' = pool_slots t" "pool_geometry t'"
    using g by (subst t'(1), simp add: t_def pool_slots_def pool_geometry_def)+
  have "pool_slots t = set fs" by (simp add: pool_slots_def t_def fs_def lessThan_atLeast0)
  moreover have "length fs = unat object_count" by (simp add: fs_def)
  moreover have "pool_slots s0 = pool_slots t'" "pool_geometry s0" using f(3) by (simp_all add: s0 pool_slots_def pool_geometry_def)
  ultimately show ?thesis using t'(2,3) f(1,2) unfolding pool_wf_def pool_free_list_def
    by (intro conjI exI [of _ fs]) (simp_all add: s0)
qed

section \<open>Runs\<close>

text \<open>
  A run of the pool with the set of objects its clients hold: allocations, writes into held objects, and calls of
  \<open>kernel_pool_free\<close> with any pointer whatsoever.
\<close>

inductive pool_run :: "build_flags \<Rightarrow> object_pool \<Rightarrow> object_pool \<Rightarrow> u32 set \<Rightarrow> bool" for flags s0 where
  pool_start: "pool_run flags s0 s0 {}"
| pool_allocate: "pool_run flags s0 s live \<Longrightarrow> kernel_pool_alloc t0 t1 s = (p, s') \<Longrightarrow>
    pool_run flags s0 s' (if p = 0 then live else insert p live)"
| pool_write: "pool_run flags s0 s live \<Longrightarrow> p \<in> live \<Longrightarrow> unat (x - p) < unat (kernel_pool_slot_size s) \<Longrightarrow>
    pool_run flags s0 (s\<lparr>pool_ram := (pool_ram s)(x := v)\<rparr>) live"
| pool_release: "pool_run flags s0 s live \<Longrightarrow> kernel_pool_free flags t0 t1 p s = (ok, s') \<Longrightarrow>
    pool_run flags s0 s' (if ok then live - {p} else live)"

lemma pool_run_wf: "pool_run flags s0 s live \<Longrightarrow> pool_wf s0 {} \<Longrightarrow> pool_wf s live"
  by (induction rule: pool_run.induct) (blast intro: pool_alloc_wf pool_write_wf pool_free_wf)+

lemma pool_wf_count:
  assumes "pool_wf s live"
  shows "unat (kernel_pool_free_count s) + card live = card (pool_slots s)" "live \<subseteq> pool_slots s"
proof -
  obtain fs where fs: "pool_free_list s fs" "set fs \<inter> live = {}" "set fs \<union> live = pool_slots s"
    using assms by (auto simp: pool_wf_def)
  have "card (set fs) = length fs" using fs(1) by (auto simp: pool_free_list_def intro: distinct_card chain_distinct)
  moreover have "finite live" using fs(3) pool_slots_card(2) [of s] by (metis finite_Un)
  ultimately show "unat (kernel_pool_free_count s) + card live = card (pool_slots s)"
    using fs by (simp add: pool_free_list_def card_Un_disjoint flip: fs(3))
  show "live \<subseteq> pool_slots s" using fs(3) by blast
qed

text \<open>
  C33 (type): whatever its clients do (allocate, overwrite the objects they hold, free pointers of any kind, twice
  or never allocated), an initialised pool stays well formed: the free list is an acyclic chain through slots that all
  carry the cookie and that its count counts, the slots are the disjoint union of the free ones and the held ones,
  and two held objects share no byte.
\<close>

theorem pool_well_formed:
  assumes "kernel_pool_allocator_initialize backing object_size object_count s = (True, s0)" "\<not> kernel_pool_initialized s"
    and "unat object_size + 3 < 2 ^ 32" "4 dvd unat backing"
      "unat backing + unat object_count * unat (kernel_pool_slot_size s0) < 2 ^ 32"
    and "pool_run flags s0 s' live"
  shows "pool_wf s' live \<and> unat (kernel_pool_free_count s') + card live = card (pool_slots s') \<and>
    (\<forall>p \<in> live. \<forall>q \<in> live. p \<noteq> q \<longrightarrow> apart p (unat (kernel_pool_slot_size s')) q (unat (kernel_pool_slot_size s')))"
proof -
  have wf: "pool_wf s' live" using pool_run_wf [OF assms(6)] pool_initialize_wf [OF assms(1-5)] by blast
  then have "pool_geometry s'" by (simp add: pool_wf_def)
  then show ?thesis using wf pool_wf_count [OF wf] pool_slots_apart by blast
qed

text \<open>A concrete pool of three twelve-byte objects.\<close>

definition blank_pool :: object_pool where
  "blank_pool = \<lparr>kernel_pool_base = 0, kernel_pool_free_head = 0, kernel_pool_slot_size = 0, kernel_pool_object_size = 0,
     kernel_pool_capacity = 0, kernel_pool_free_count = 0, kernel_pool_peak_used = 0, kernel_pool_failed_alloc_count = 0,
     kernel_pool_wcet_alloc = 0, kernel_pool_wcet_free = 0, kernel_pool_initialized = False, pool_ram = (\<lambda>_. 0)\<rparr>"

definition small_pool :: object_pool where
  "small_pool = snd (kernel_pool_allocator_initialize 0x1000 12 3 blank_pool)"

lemma small_pool_initialized: "kernel_pool_allocator_initialize 0x1000 12 3 blank_pool = (True, small_pool)"
  by (simp add: small_pool_def kernel_pool_allocator_initialize_def blank_pool_def Let_def)

lemma small_pool_fields:
  "kernel_pool_initialized small_pool" "kernel_pool_free_head small_pool = 0x1018" "kernel_pool_slot_size small_pool = 12"
  by (simp_all add: small_pool_def kernel_pool_allocator_initialize_def blank_pool_def Let_def kernel_pool_align_up_def
    slot_align_up_def align_up_def upt_rec pool_thread_slot_def)

lemma small_pool_wf: "pool_wf small_pool {}"
  using pool_initialize_wf [OF small_pool_initialized] by (simp add: small_pool_fields blank_pool_def)

definition held_pool :: object_pool where
  "held_pool = snd (kernel_pool_alloc 0 9 small_pool)"

lemma held_pool_alloc: "kernel_pool_alloc 0 9 small_pool = (0x1018, held_pool)"
  by (simp add: held_pool_def kernel_pool_alloc_def small_pool_fields Let_def)

theorem pool_well_formed_witness:
  "pool_run \<lparr>real_time_mode = True, debug_poison = True\<rparr> small_pool held_pool {0x1018} \<and>
    unat (kernel_pool_free_count held_pool) + card {0x1018 :: u32} = card (pool_slots held_pool)"
proof -
  let ?f = "\<lparr>real_time_mode = True, debug_poison = True\<rparr>"
  have r: "pool_run ?f small_pool held_pool {0x1018}"
    using pool_allocate [OF pool_start held_pool_alloc] by simp
  show ?thesis using r pool_well_formed [OF small_pool_initialized _ _ _ _ r] by (simp add: small_pool_fields blank_pool_def)
qed

text \<open>
  C34 (error): in a well-formed pool \<open>kernel_pool_free\<close> succeeds for exactly the held objects whose second word is not the
  cookie. So every wild pointer and every double free is refused, but so is the release of a held object into which its
  owner happened to store 0x504F4F4C, and that object is lost to the pool.
\<close>

theorem pool_free_exactly:
  assumes "pool_wf s live"
  shows "fst (kernel_pool_free flags t0 t1 p s) \<longleftrightarrow> p \<in> live \<and> load32 (pool_ram s) (p + 4) \<noteq> pool_cookie"
proof
  assume f: "fst (kernel_pool_free flags t0 t1 p s)"
  obtain s' where "kernel_pool_free flags t0 t1 p s = (True, s')" using f by (metis eq_fst_iff)
  then show "p \<in> live \<and> load32 (pool_ram s) (p + 4) \<noteq> pool_cookie"
    using pool_free_wf(2) [OF assms] by (auto simp: kernel_pool_free_def Let_def split: if_splits)
next
  assume p: "p \<in> live \<and> load32 (pool_ram s) (p + 4) \<noteq> pool_cookie"
  have g: "pool_geometry s" "kernel_pool_initialized s" using assms by (simp_all add: pool_wf_def)
  have "p \<in> pool_slots s" using p pool_wf_count(2) [OF assms] by blast
  then show "fst (kernel_pool_free flags t0 t1 p s)"
    using p g(2) pool_slot_test [OF g(1), of p] pool_slot_aligned(2) [OF g(1)]
    by (auto simp: kernel_pool_free_def Let_def not_less not_le)
qed

text \<open>The held object of the concrete pool, after its owner stores the cookie's value in it, cannot be freed.\<close>

theorem pool_free_exactly_witness:
  "\<exists>s. pool_wf s {0x1018} \<and> \<not> fst (kernel_pool_free \<lparr>real_time_mode = True, debug_poison = True\<rparr> 0 9 0x1018 s)"
proof -
  let ?w = "\<lambda>s x v. s\<lparr>pool_ram := (pool_ram s)(x := v)\<rparr>"
  let ?s = "?w (?w (?w (?w held_pool 0x101C 0x4C) 0x101D 0x4F) 0x101E 0x4F) 0x101F 0x50"
  have w: "pool_wf held_pool {0x1018}" using pool_alloc_wf(1) [OF small_pool_wf held_pool_alloc] by simp
  have b: "kernel_pool_slot_size held_pool = 12"
    by (simp add: held_pool_def kernel_pool_alloc_def small_pool_fields Let_def)
  have wf: "pool_wf ?s {0x1018}" by (rule pool_write_wf [where p = "0x1018"])+ (use w b in simp_all)
  have "load32 (pool_ram ?s) (0x1018 + 4) = pool_cookie" by (simp add: load32_def)
  then show ?thesis using wf pool_free_exactly [OF wf, of _ 0 9 "0x1018"] by blast
qed

end
