(* ===== verification/Arenas.thy ===== *)
theory Arenas
  imports Slots
begin

text \<open>
  The two bump allocators of the kernel heap: the per-frame arena of \<open>src/kernel/kernel/memory/frame_arena.c\<close>, which is reset as a
  whole, and the stack allocator of \<open>src/kernel/kernel/memory/stack_allocator.c\<close>, which is rolled back to a marker. The block that
  \<open>kmalloc\<close> returns and the readings of the time-stamp counter are arguments. The contract both keep is that
  every block lies in the arena and behind everything handed out before.
\<close>

section \<open>The frame arena\<close>

record frame_arena =
  kernel_frame_arena_base :: u32
  kernel_frame_arena_capacity :: u32
  kernel_frame_arena_offset :: u32
  kernel_frame_arena_peak :: u32
  kernel_frame_arena_reset_count :: u32
  kernel_frame_arena_failed_alloc_count :: u32
  kernel_frame_arena_budget :: u32
  kernel_frame_arena_budget_exceeded_count :: u32
  kernel_frame_arena_wcet_alloc :: u32
  kernel_frame_arena_wcet_reset :: u32
  kernel_frame_arena_initialized :: bool
  arena_ram :: mem

definition kernel_frame_arena_initialize :: "build_flags \<Rightarrow> u32 \<Rightarrow> u32 \<Rightarrow> frame_arena \<Rightarrow> bool \<times> frame_arena" where
  "kernel_frame_arena_initialize flags backing capacity_bytes s =
     (if kernel_frame_arena_initialized s then (True, s)
      else if capacity_bytes = 0 then (False, s)
      else
        let aligned_capacity = slot_align_up capacity_bytes 16 in
        if backing = 0 then (False, s)
        else (True, s\<lparr>kernel_frame_arena_base := backing, kernel_frame_arena_capacity := aligned_capacity,
          kernel_frame_arena_offset := 0, kernel_frame_arena_peak := 0, kernel_frame_arena_reset_count := 0,
          kernel_frame_arena_failed_alloc_count := 0, kernel_frame_arena_budget := 0,
          kernel_frame_arena_budget_exceeded_count := 0, kernel_frame_arena_wcet_alloc := 0,
          kernel_frame_arena_wcet_reset := 0, kernel_frame_arena_initialized := True,
          arena_ram := (if debug_poison flags then memset (arena_ram s) backing 0xAA (unat aligned_capacity) else arena_ram s)\<rparr>))"

definition kernel_frame_arena_alloc :: "build_flags \<Rightarrow> u32 \<Rightarrow> u32 \<Rightarrow> u32 \<Rightarrow> u32 \<Rightarrow> frame_arena \<Rightarrow> u32 \<times> frame_arena" where
  "kernel_frame_arena_alloc flags t0 t1 bytes align s =
     (if \<not> kernel_frame_arena_initialized s \<or> bytes = 0 then (0, s)
      else
        let effective_align = (if align = 0 then 8 else align);
            aligned_offset = slot_align_up (kernel_frame_arena_offset s) effective_align in
        if kernel_frame_arena_capacity s < aligned_offset \<or> kernel_frame_arena_capacity s - aligned_offset < bytes then
          (0, s\<lparr>kernel_frame_arena_failed_alloc_count := kernel_frame_arena_failed_alloc_count s + 1\<rparr>)
        else
          let real_size = (if debug_poison flags then bytes + 4 else bytes) in
          if 0 < kernel_frame_arena_budget s \<and> kernel_frame_arena_budget s < aligned_offset + real_size then
            (0, s\<lparr>kernel_frame_arena_budget_exceeded_count := kernel_frame_arena_budget_exceeded_count s + 1,
                  kernel_frame_arena_failed_alloc_count := kernel_frame_arena_failed_alloc_count s + 1\<rparr>)
          else
            let result = kernel_frame_arena_base s + aligned_offset;
                offset = aligned_offset + real_size;
                delta = t1 - t0
            in (result, s\<lparr>
                 arena_ram := (if debug_poison flags then store32 (arena_ram s) (result + bytes) 0xFBADBEEF else arena_ram s),
                 kernel_frame_arena_offset := offset,
                 kernel_frame_arena_peak := (if kernel_frame_arena_peak s < offset then offset else kernel_frame_arena_peak s),
                 kernel_frame_arena_wcet_alloc := (if kernel_frame_arena_wcet_alloc s < delta then delta else kernel_frame_arena_wcet_alloc s)\<rparr>))"

definition kernel_frame_arena_reset :: "build_flags \<Rightarrow> u32 \<Rightarrow> u32 \<Rightarrow> frame_arena \<Rightarrow> frame_arena" where
  "kernel_frame_arena_reset flags t0 t1 s =
     (if \<not> kernel_frame_arena_initialized s then s
      else
        let delta = t1 - t0
        in s\<lparr>arena_ram := (if debug_poison flags
               then memset (arena_ram s) (kernel_frame_arena_base s) 0xAA (unat (kernel_frame_arena_offset s)) else arena_ram s),
             kernel_frame_arena_offset := 0,
             kernel_frame_arena_reset_count := kernel_frame_arena_reset_count s + 1,
             kernel_frame_arena_wcet_reset := (if kernel_frame_arena_wcet_reset s < delta then delta else kernel_frame_arena_wcet_reset s)\<rparr>)"

definition kernel_frame_arena_set_frame_budget :: "u32 \<Rightarrow> frame_arena \<Rightarrow> frame_arena" where
  "kernel_frame_arena_set_frame_budget budget_bytes s = s\<lparr>kernel_frame_arena_budget := budget_bytes\<rparr>"

section \<open>The stack allocator\<close>

record stack_allocator =
  kernel_stack_allocator_base :: u32
  kernel_stack_allocator_capacity :: u32
  kernel_stack_allocator_offset :: u32
  kernel_stack_allocator_peak :: u32
  kernel_stack_allocator_alloc_count :: u32
  kernel_stack_allocator_rollback_count :: u32
  kernel_stack_allocator_failed_alloc_count :: u32
  kernel_stack_allocator_initialized :: bool

definition kernel_stack_allocator_initialize :: "u32 \<Rightarrow> u32 \<Rightarrow> stack_allocator \<Rightarrow> bool \<times> stack_allocator" where
  "kernel_stack_allocator_initialize backing capacity_bytes s =
     (if kernel_stack_allocator_initialized s then (True, s)
      else if capacity_bytes = 0 then (False, s)
      else
        let aligned_capacity = slot_align_up capacity_bytes 16 in
        if backing = 0 then (False, s)
        else (True, s\<lparr>kernel_stack_allocator_base := backing, kernel_stack_allocator_capacity := aligned_capacity,
          kernel_stack_allocator_offset := 0, kernel_stack_allocator_peak := 0, kernel_stack_allocator_alloc_count := 0,
          kernel_stack_allocator_rollback_count := 0, kernel_stack_allocator_failed_alloc_count := 0,
          kernel_stack_allocator_initialized := True\<rparr>))"

definition kernel_stack_alloc_push :: "u32 \<Rightarrow> u32 \<Rightarrow> stack_allocator \<Rightarrow> u32 \<times> stack_allocator" where
  "kernel_stack_alloc_push bytes align s =
     (if \<not> kernel_stack_allocator_initialized s \<or> bytes = 0 then (0, s)
      else
        let effective_align = (if align = 0 then 8 else align);
            aligned_offset = slot_align_up (kernel_stack_allocator_offset s) effective_align in
        if kernel_stack_allocator_capacity s < aligned_offset \<or> kernel_stack_allocator_capacity s - aligned_offset < bytes then
          (0, s\<lparr>kernel_stack_allocator_failed_alloc_count := kernel_stack_allocator_failed_alloc_count s + 1\<rparr>)
        else
          let offset = aligned_offset + bytes
          in (kernel_stack_allocator_base s + aligned_offset, s\<lparr>kernel_stack_allocator_offset := offset,
               kernel_stack_allocator_alloc_count := kernel_stack_allocator_alloc_count s + 1,
               kernel_stack_allocator_peak := (if kernel_stack_allocator_peak s < offset then offset else kernel_stack_allocator_peak s)\<rparr>))"

definition kernel_stack_alloc_get_marker :: "stack_allocator \<Rightarrow> u32" where
  "kernel_stack_alloc_get_marker s = kernel_stack_allocator_offset s"

definition kernel_stack_alloc_rollback :: "u32 \<Rightarrow> stack_allocator \<Rightarrow> stack_allocator" where
  "kernel_stack_alloc_rollback marker s =
     (if \<not> kernel_stack_allocator_initialized s then s
      else if marker \<le> kernel_stack_allocator_offset s then
        s\<lparr>kernel_stack_allocator_offset := marker, kernel_stack_allocator_rollback_count := kernel_stack_allocator_rollback_count s + 1\<rparr>
      else s)"

section \<open>The contract of a bump allocator\<close>

text \<open>The alignments the interface is meant for: none given, or a power of two.\<close>

definition good_align :: "u32 \<Rightarrow> bool" where
  "good_align a \<longleftrightarrow> a = 0 \<or> (\<exists>k < 32. a = 2 ^ k)"

locale bump_allocator =
  fixes inv :: "'s \<Rightarrow> bool"
    and base :: "'s \<Rightarrow> u32"
    and capacity :: "'s \<Rightarrow> nat"
    and used :: "'s \<Rightarrow> nat"
    and alloc :: "u32 \<Rightarrow> u32 \<Rightarrow> 's \<Rightarrow> u32 \<times> 's"
  assumes keeps: "inv s \<Longrightarrow> good_align a \<Longrightarrow> alloc n a s = (p, s') \<Longrightarrow>
      inv s' \<and> base s' = base s \<and> capacity s' = capacity s \<and> used s \<le> used s'"
    and grants: "inv s \<Longrightarrow> good_align a \<Longrightarrow> alloc n a s = (p, s') \<Longrightarrow> p \<noteq> 0 \<Longrightarrow>
      used s \<le> unat (p - base s) \<and> unat (p - base s) + unat n \<le> used s' \<and> unat (p - base s) + unat n \<le> capacity s"

text \<open>A sequence of requests (size and alignment), and the blocks (address and size) it was granted.\<close>

fun grant_blocks :: "(u32 \<Rightarrow> u32 \<Rightarrow> 's \<Rightarrow> u32 \<times> 's) \<Rightarrow> (u32 \<times> u32) list \<Rightarrow> 's \<Rightarrow> (u32 \<times> u32) list" where
  "grant_blocks alloc [] s = []"
| "grant_blocks alloc ((n, a) # rs) s =
     (let (p, s) = alloc n a s in (if p = 0 then [] else [(p, n)]) @ grant_blocks alloc rs s)"

context bump_allocator
begin

lemma blocks_in_order:
  assumes "inv s" "\<forall>(n, a) \<in> set rs. good_align a"
  shows "(\<forall>(p, n) \<in> set (grant_blocks alloc rs s). used s \<le> unat (p - base s) \<and> unat (p - base s) + unat n \<le> capacity s) \<and>
    sorted_wrt (\<lambda>(p, n) (q, k). unat (p - base s) + unat n \<le> unat (q - base s)) (grant_blocks alloc rs s)"
  using assms
proof (induction rs arbitrary: s)
  case (Cons r rs)
  obtain n a where r: "r = (n, a)" by (cases r)
  obtain p s' where a: "alloc n a s = (p, s')" by (cases "alloc n a s")
  have g: "good_align a" using Cons.prems(2) r by auto
  note k = keeps [OF Cons.prems(1) g a] and gr = grants [OF Cons.prems(1) g a]
  have IH: "(\<forall>(p, n) \<in> set (grant_blocks alloc rs s'). used s' \<le> unat (p - base s) \<and> unat (p - base s) + unat n \<le> capacity s) \<and>
    sorted_wrt (\<lambda>(p, n) (q, k). unat (p - base s) + unat n \<le> unat (q - base s)) (grant_blocks alloc rs s')"
    using Cons.IH [of s'] Cons.prems(2) k by simp
  then show ?case using k gr r a by (cases "p = 0") fastforce+
qed simp

end

section \<open>Both allocators keep it\<close>

lemma good_align_up:
  assumes "good_align a" "unat v \<le> 2 ^ 30 + 4"
  shows "unat v \<le> unat (slot_align_up v (if a = 0 then 8 else a))"
proof -
  obtain k where k: "k < 32" "(if a = 0 then 8 else a) = 2 ^ k"
    using assms(1) by (cases "a = 0") (auto simp: good_align_def intro: that [of 3])
  have nz: "(2::u32) ^ k \<noteq> 0" using k(1) unat_2p [of k] by (metis power_not_zero unat_0 zero_neq_numeral)
  have "(2::nat) ^ k \<le> 2 ^ 31" using k(1) by (intro power_increasing) auto
  then have "unat v + 2 ^ k - 1 < 2 ^ 32" using assms(2) by simp
  from unat_align_up [OF k(1) this]
  have "unat (slot_align_up v (2 ^ k)) = (unat v + 2 ^ k - 1) div 2 ^ k * 2 ^ k" using nz by (simp add: slot_align_up_def)
  moreover have "unat v \<le> (unat v + 2 ^ k - 1) div 2 ^ k * 2 ^ k"
  proof -
    have "(unat v + 2 ^ k - 1) mod 2 ^ k < 2 ^ k" by simp
    then show ?thesis using div_mult_mod_eq [of "unat v + 2 ^ k - 1" "2 ^ k"] by linarith
  qed
  ultimately show ?thesis using k(2) by simp
qed

lemma bump_room:
  assumes "\<not> (c < w \<or> c - w < n)" "unat (c :: u32) \<le> 2 ^ 30" "unat extra \<le> 4"
  shows "unat (w + n) = unat w + unat n" "unat (w + (n + extra)) = unat w + unat n + unat extra" "unat w + unat n \<le> unat c"
proof -
  have "unat w \<le> unat c" "unat n \<le> unat c - unat w" using assms(1) by (auto simp: not_less word_le_nat_alt unat_sub)
  then show le: "unat w + unat n \<le> unat c" by simp
  show "unat (w + n) = unat w + unat n" using le assms(2) by (simp add: unat_word_ariths)
  show "unat (w + (n + extra)) = unat w + unat n + unat extra" using le assms(2,3) by (simp add: unat_word_ariths)
qed

definition stack_allocator_inv :: "stack_allocator \<Rightarrow> bool" where
  "stack_allocator_inv s \<longleftrightarrow> kernel_stack_allocator_initialized s \<and> unat (kernel_stack_allocator_capacity s) \<le> 2 ^ 30 \<and>
     unat (kernel_stack_allocator_offset s) \<le> unat (kernel_stack_allocator_capacity s)"

lemma stack_push_cases:
  assumes inv: "stack_allocator_inv s" "good_align a" and p: "kernel_stack_alloc_push n a s = (p, s')"
  obtains (refused) "p = 0" "stack_allocator_inv s'" "kernel_stack_allocator_offset s' = kernel_stack_allocator_offset s"
      "kernel_stack_allocator_base s' = kernel_stack_allocator_base s" "kernel_stack_allocator_capacity s' = kernel_stack_allocator_capacity s"
  | (granted) w where "p = kernel_stack_allocator_base s + w" "unat (kernel_stack_allocator_offset s) \<le> unat w"
      "unat (kernel_stack_allocator_offset s') = unat w + unat n" "unat w + unat n \<le> unat (kernel_stack_allocator_capacity s)"
      "kernel_stack_allocator_base s' = kernel_stack_allocator_base s" "kernel_stack_allocator_capacity s' = kernel_stack_allocator_capacity s"
      "stack_allocator_inv s'"
proof -
  define w' where "w' = slot_align_up (kernel_stack_allocator_offset s) (if a = 0 then 8 else a)"
  have i: "kernel_stack_allocator_initialized s" "unat (kernel_stack_allocator_capacity s) \<le> 2 ^ 30" using inv by (auto simp: stack_allocator_inv_def)
  have up: "unat (kernel_stack_allocator_offset s) \<le> unat w'" unfolding w'_def
    using inv by (intro good_align_up) (auto simp: stack_allocator_inv_def)
  let ?full = "kernel_stack_allocator_capacity s < w' \<or> kernel_stack_allocator_capacity s - w' < n"
  show thesis
  proof (cases "n = 0 \<or> ?full")
    case True
    then show thesis using p i(1) inv(1) by (intro refused) (auto simp: kernel_stack_alloc_push_def Let_def w'_def stack_allocator_inv_def split: if_splits)
  next
    case False
    then have f: "\<not> ?full" by blast
    note room = bump_room [OF f i(2), of 0]
    have s': "p = kernel_stack_allocator_base s + w'" "kernel_stack_allocator_offset s' = w' + n"
      "kernel_stack_allocator_base s' = kernel_stack_allocator_base s" "kernel_stack_allocator_capacity s' = kernel_stack_allocator_capacity s"
      "kernel_stack_allocator_initialized s'"
      using p i(1) False by (auto simp: kernel_stack_alloc_push_def Let_def w'_def [symmetric])
    then show thesis using room up i by (intro granted [of w']) (auto simp: stack_allocator_inv_def)
  qed
qed

interpretation stack_bump: bump_allocator stack_allocator_inv kernel_stack_allocator_base
  "\<lambda>s. unat (kernel_stack_allocator_capacity s)" "\<lambda>s. unat (kernel_stack_allocator_offset s)" kernel_stack_alloc_push
proof unfold_locales
  fix s a n p s' assume a: "stack_allocator_inv s" "good_align a" "kernel_stack_alloc_push n a s = (p, s')"
  show "stack_allocator_inv s' \<and> kernel_stack_allocator_base s' = kernel_stack_allocator_base s \<and>
    unat (kernel_stack_allocator_capacity s') = unat (kernel_stack_allocator_capacity s) \<and>
    unat (kernel_stack_allocator_offset s) \<le> unat (kernel_stack_allocator_offset s')"
    by (rule stack_push_cases [OF a]) simp_all
  assume nz: "p \<noteq> 0"
  show "unat (kernel_stack_allocator_offset s) \<le> unat (p - kernel_stack_allocator_base s) \<and>
    unat (p - kernel_stack_allocator_base s) + unat n \<le> unat (kernel_stack_allocator_offset s') \<and>
    unat (p - kernel_stack_allocator_base s) + unat n \<le> unat (kernel_stack_allocator_capacity s)"
    by (rule stack_push_cases [OF a]) (use nz in simp_all)
qed

text \<open>Rolling back to a marker gives back exactly what was pushed since it was taken.\<close>

lemma stack_rollback:
  assumes "stack_allocator_inv s" "good_align a" "kernel_stack_alloc_push n a s = (p, s')"
  shows "kernel_stack_allocator_offset (kernel_stack_alloc_rollback (kernel_stack_alloc_get_marker s) s') = kernel_stack_allocator_offset s"
proof -
  have "stack_allocator_inv s'" "unat (kernel_stack_allocator_offset s) \<le> unat (kernel_stack_allocator_offset s')"
    using stack_bump.keeps [OF assms] by auto
  then show ?thesis
    by (simp add: kernel_stack_alloc_rollback_def kernel_stack_alloc_get_marker_def stack_allocator_inv_def word_le_nat_alt)
qed

definition frame_arena_inv :: "frame_arena \<Rightarrow> bool" where
  "frame_arena_inv s \<longleftrightarrow> kernel_frame_arena_initialized s \<and> unat (kernel_frame_arena_capacity s) \<le> 2 ^ 30 \<and>
     unat (kernel_frame_arena_offset s) \<le> unat (kernel_frame_arena_capacity s) + 4"

lemma frame_alloc_cases:
  assumes inv: "frame_arena_inv s" "good_align a" and p: "kernel_frame_arena_alloc flags t0 t1 n a s = (p, s')"
  obtains (refused) "p = 0" "frame_arena_inv s'" "kernel_frame_arena_offset s' = kernel_frame_arena_offset s"
      "kernel_frame_arena_base s' = kernel_frame_arena_base s" "kernel_frame_arena_capacity s' = kernel_frame_arena_capacity s"
  | (granted) w where "p = kernel_frame_arena_base s + w" "unat (kernel_frame_arena_offset s) \<le> unat w"
      "unat w + unat n \<le> unat (kernel_frame_arena_offset s')" "unat w + unat n \<le> unat (kernel_frame_arena_capacity s)"
      "kernel_frame_arena_base s' = kernel_frame_arena_base s" "kernel_frame_arena_capacity s' = kernel_frame_arena_capacity s"
      "frame_arena_inv s'"
proof -
  define w where "w = slot_align_up (kernel_frame_arena_offset s) (if a = 0 then 8 else a)"
  define r where "r = (if debug_poison flags then n + 4 else n)"
  have i: "kernel_frame_arena_initialized s" "unat (kernel_frame_arena_capacity s) \<le> 2 ^ 30" using inv by (auto simp: frame_arena_inv_def)
  have up: "unat (kernel_frame_arena_offset s) \<le> unat w" unfolding w_def
    using inv by (intro good_align_up) (auto simp: frame_arena_inv_def)
  let ?full = "kernel_frame_arena_capacity s < w \<or> kernel_frame_arena_capacity s - w < n"
  let ?over = "0 < kernel_frame_arena_budget s \<and> kernel_frame_arena_budget s < w + r"
  show thesis
  proof (cases "n = 0 \<or> ?full \<or> ?over")
    case True
    then have "p = 0" "frame_arena_inv s'" "kernel_frame_arena_offset s' = kernel_frame_arena_offset s"
      "kernel_frame_arena_base s' = kernel_frame_arena_base s" "kernel_frame_arena_capacity s' = kernel_frame_arena_capacity s"
      using p i(1) inv(1) by (auto simp: kernel_frame_arena_alloc_def Let_def w_def [symmetric] r_def [symmetric] frame_arena_inv_def split: if_splits)
    then show thesis by (rule refused)
  next
    case False
    then have f: "\<not> ?full" "\<not> ?over" "n \<noteq> 0" by blast+
    note room = bump_room [OF f(1) i(2), of 4]
    have s': "p = kernel_frame_arena_base s + w" "kernel_frame_arena_offset s' = w + r"
      "kernel_frame_arena_base s' = kernel_frame_arena_base s" "kernel_frame_arena_capacity s' = kernel_frame_arena_capacity s"
      "kernel_frame_arena_initialized s'"
      using p i(1) unfolding kernel_frame_arena_alloc_def Let_def w_def [symmetric] r_def [symmetric] if_not_P [OF f(1)] if_not_P [OF f(2)]
      by (auto simp: f(3))
    have "unat w + unat n \<le> unat (w + r)" "unat (w + r) \<le> unat (kernel_frame_arena_capacity s) + 4" using room by (auto simp: r_def)
    then show thesis using s' room(3) up i by (intro granted [of w]) (auto simp: frame_arena_inv_def)
  qed
qed

interpretation frame_bump: bump_allocator frame_arena_inv kernel_frame_arena_base
  "\<lambda>s. unat (kernel_frame_arena_capacity s)" "\<lambda>s. unat (kernel_frame_arena_offset s)" "kernel_frame_arena_alloc flags t0 t1"
proof unfold_locales
  fix s a n p s' assume a: "frame_arena_inv s" "good_align a" "kernel_frame_arena_alloc flags t0 t1 n a s = (p, s')"
  show "frame_arena_inv s' \<and> kernel_frame_arena_base s' = kernel_frame_arena_base s \<and>
    unat (kernel_frame_arena_capacity s') = unat (kernel_frame_arena_capacity s) \<and>
    unat (kernel_frame_arena_offset s) \<le> unat (kernel_frame_arena_offset s')"
    by (rule frame_alloc_cases [OF a]) simp_all
  assume nz: "p \<noteq> 0"
  show "unat (kernel_frame_arena_offset s) \<le> unat (p - kernel_frame_arena_base s) \<and>
    unat (p - kernel_frame_arena_base s) + unat n \<le> unat (kernel_frame_arena_offset s') \<and>
    unat (p - kernel_frame_arena_base s) + unat n \<le> unat (kernel_frame_arena_capacity s)"
    by (rule frame_alloc_cases [OF a]) (use nz in simp_all)
qed

lemma capacity_16:
  assumes "unat c \<le> 2 ^ 29"
  shows "unat (slot_align_up c 16) \<le> 2 ^ 30"
proof -
  have "unat (slot_align_up c 16) = (unat c + 15) div 16 * 16"
    using unat_align_up [of 4 c] assms by (simp add: slot_align_up_def)
  also have "\<dots> \<le> unat c + 15" by simp
  finally show ?thesis using assms by simp
qed

text \<open>
  C35 (safety): the blocks an initialised frame arena grants to any sequence of requests, in both builds and with any mix of
  power-of-two alignments, all end within the arena, and each one ends before the next begins, so no two of
  them overlap until the arena is reset.
\<close>

theorem frame_arena_blocks_disjoint:
  assumes "kernel_frame_arena_initialize flags backing capacity_bytes s = (True, s0)" "\<not> kernel_frame_arena_initialized s"
    and "unat capacity_bytes \<le> 2 ^ 29" "\<forall>(n, a) \<in> set requests. good_align a"
  shows "let blocks = grant_blocks (kernel_frame_arena_alloc flags t0 t1) requests s0 in
    (\<forall>(p, n) \<in> set blocks. unat (p - backing) + unat n \<le> unat (kernel_frame_arena_capacity s0)) \<and>
    sorted_wrt (\<lambda>(p, n) (q, k). unat (p - backing) + unat n \<le> unat (q - backing)) blocks"
proof -
  have s0: "kernel_frame_arena_base s0 = backing" "frame_arena_inv s0"
    using assms(1,2) capacity_16 [OF assms(3)]
    by (auto simp: kernel_frame_arena_initialize_def Let_def frame_arena_inv_def split: if_splits)
  show ?thesis using frame_bump.blocks_in_order [OF s0(2) assms(4), of flags t0 t1] s0(1) unfolding Let_def by blast
qed

abbreviation (input) blank_arena :: frame_arena where
  "blank_arena \<equiv> \<lparr>kernel_frame_arena_base = 0, kernel_frame_arena_capacity = 0, kernel_frame_arena_offset = 0, kernel_frame_arena_peak = 0,
     kernel_frame_arena_reset_count = 0, kernel_frame_arena_failed_alloc_count = 0, kernel_frame_arena_budget = 0,
     kernel_frame_arena_budget_exceeded_count = 0, kernel_frame_arena_wcet_alloc = 0, kernel_frame_arena_wcet_reset = 0,
     kernel_frame_arena_initialized = False, arena_ram = (\<lambda>_. 0)\<rparr>"

theorem frame_arena_blocks_disjoint_witness:
  "\<exists>s0. kernel_frame_arena_initialize \<lparr>real_time_mode = True, debug_poison = False\<rparr> 0x1000 60 blank_arena = (True, s0) \<and>
    (let blocks = grant_blocks (kernel_frame_arena_alloc \<lparr>real_time_mode = True, debug_poison = False\<rparr> 0 9) [(5, 0), (8, 16), (100, 4), (20, 2)] s0 in
      blocks = [(0x1000, 5), (0x1010, 8), (0x1018, 20)] \<and> (\<forall>(p, n) \<in> set blocks. unat (p - 0x1000) + unat n \<le> 64))"
proof -
  let ?f = "\<lparr>real_time_mode = True, debug_poison = False\<rparr>"
  let ?s0 = "snd (kernel_frame_arena_initialize ?f 0x1000 60 blank_arena)"
  have i: "kernel_frame_arena_initialize ?f 0x1000 60 blank_arena = (True, ?s0)"
    by (simp add: kernel_frame_arena_initialize_def Let_def)
  have c: "unat (kernel_frame_arena_capacity ?s0) = 64"
    by (simp add: kernel_frame_arena_initialize_def Let_def slot_align_up_def align_up_def)
  have "good_align 0" "good_align 16" "good_align 4" "good_align 2"
    unfolding good_align_def by (auto intro: exI [of _ 1] exI [of _ 2] exI [of _ 4])
  then have g: "\<forall>(n, a) \<in> set [(5, 0), (8, 16), (100, 4), (20, 2)]. good_align a" by auto
  have b: "grant_blocks (kernel_frame_arena_alloc ?f 0 9) [(5, 0), (8, 16), (100, 4), (20, 2)] ?s0 = [(0x1000, 5), (0x1010, 8), (0x1018, 20)]"
    by (simp add: kernel_frame_arena_initialize_def kernel_frame_arena_alloc_def Let_def slot_align_up_def align_up_def)
  show ?thesis using i b frame_arena_blocks_disjoint [OF i _ _ g, of 0 9] c unfolding Let_def by (intro exI [of _ ?s0]) simp
qed

text \<open>
  The poisoning build writes a canary word behind every block, but the room test of \<open>kernel_frame_arena_alloc\<close> compares the
  request without it: a request that takes exactly the rest of the arena is granted and its canary lands in the four bytes
  behind the arena.
\<close>

lemma frame_arena_canary_overruns:
  assumes "kernel_frame_arena_initialized s" "debug_poison flags" "kernel_frame_arena_budget s = 0" "n \<noteq> 0"
    and "slot_align_up (kernel_frame_arena_offset s) (if a = 0 then 8 else a) \<le> kernel_frame_arena_capacity s"
    and "n = kernel_frame_arena_capacity s - slot_align_up (kernel_frame_arena_offset s) (if a = 0 then 8 else a)"
  shows "\<exists>p s'. kernel_frame_arena_alloc flags t0 t1 n a s = (p, s') \<and>
    load32 (arena_ram s') (kernel_frame_arena_base s + kernel_frame_arena_capacity s) = 0xFBADBEEF \<and>
    kernel_frame_arena_offset s' = kernel_frame_arena_capacity s + 4"
proof -
  define w where "w = slot_align_up (kernel_frame_arena_offset s) (if a = 0 then 8 else a)"
  have n: "n = kernel_frame_arena_capacity s - w" "\<not> (kernel_frame_arena_capacity s < w \<or> kernel_frame_arena_capacity s - w < n)"
    using assms(5,6) by (auto simp: w_def)
  show ?thesis using assms(1-4) n(1)
    unfolding kernel_frame_arena_alloc_def Let_def w_def [symmetric] if_not_P [OF n(2)] by auto
qed

end
