(* ===== verification/Slab.thy ===== *)
theory Slab
  imports Slots "HOL-Library.Monad_Syntax"
begin

text \<open>
  The slab caches of \<open>src/kernel/kernel/memory/slab.c\<close>, which serve the small objects of the client profile's heap: three caches
  (16, 64 and 256 bytes), each an intrusive free list through the pages donated to it, and the address range from its
  lowest to its highest page by which a released object is attributed to a cache. The server profile has stubs in
  their place. The donated pages are an argument.
\<close>

record slab_cache =
  object_size :: u32
  cache_free_head :: u32
  cache_free_count :: u32
  cache_used_count :: u32
  cache_base :: u32
  cache_end :: u32

record slab =
  slab_caches :: "slab_cache list"
  slab_ram :: mem

abbreviation (input) SLAB_NUM_CACHES :: nat where "SLAB_NUM_CACHES \<equiv> 3"
abbreviation (input) SLAB_FREE_COOKIE :: u32 where "SLAB_FREE_COOKIE \<equiv> 0x534C4131"

definition empty_cache :: "u32 \<Rightarrow> slab_cache" where
  "empty_cache n = \<lparr>object_size = n, cache_free_head = 0, cache_free_count = 0, cache_used_count = 0, cache_base = 0, cache_end = 0\<rparr>"

definition slab_caches_static :: "slab_cache list" where
  "slab_caches_static = [empty_cache 16, empty_cache 64, empty_cache 256]"

definition slab_stride :: "build_flags \<Rightarrow> u32 \<Rightarrow> u32" where
  "slab_stride flags obj_size = (if debug_poison flags then (obj_size + 4 + 7) AND NOT 7 else obj_size)"

definition slab_put_slot :: "build_flags \<Rightarrow> u32 \<Rightarrow> slab_cache \<times> mem \<Rightarrow> slab_cache \<times> mem" where
  "slab_put_slot flags cursor = (\<lambda>(cache, m).
     let m = store32 m cursor (cache_free_head cache);
         m = store32 m (cursor + 4) SLAB_FREE_COOKIE;
         m = (if debug_poison flags then store32 m (cursor + object_size cache) 0xC001CAFE else m)
     in (cache\<lparr>cache_free_head := cursor, cache_free_count := cache_free_count cache + 1\<rparr>, m))"

partial_function (option) slab_carve :: "build_flags \<Rightarrow> u32 \<Rightarrow> u32 \<Rightarrow> u32 \<Rightarrow> slab_cache \<times> mem \<Rightarrow> (slab_cache \<times> mem) option" where
  "slab_carve flags stride page_end cursor cm =
     (if cursor + stride \<le> page_end
      then slab_carve flags stride page_end (cursor + stride) (slab_put_slot flags cursor cm)
      else Some cm)"

definition slab_cache_populate :: "build_flags \<Rightarrow> u32 \<Rightarrow> u32 \<Rightarrow> slab_cache \<times> mem \<Rightarrow> (slab_cache \<times> mem) option" where
  "slab_cache_populate flags page_virt page_size = (\<lambda>(cache, m).
     let page_end = page_virt + page_size;
         cache = (if cache_base cache = 0 \<or> page_virt < cache_base cache then cache\<lparr>cache_base := page_virt\<rparr> else cache);
         cache = (if cache_end cache < page_end then cache\<lparr>cache_end := page_end\<rparr> else cache)
     in slab_carve flags (slab_stride flags (object_size cache)) page_end page_virt (cache, m))"

fun slab_donate :: "build_flags \<Rightarrow> nat \<Rightarrow> u32 list \<Rightarrow> slab \<Rightarrow> slab option" where
  "slab_donate flags i [] s = Some s"
| "slab_donate flags i (page # pages) s =
     (if page = 0 then slab_donate flags (Suc i) pages s
      else do {
        let k = i mod SLAB_NUM_CACHES;
        (cache, m) \<leftarrow> slab_cache_populate flags page 4096 (slab_caches s ! k, slab_ram s);
        slab_donate flags (Suc i) pages (s\<lparr>slab_caches := (slab_caches s)[k := cache], slab_ram := m\<rparr>)
      })"

definition kernel_slab_initialize :: "build_flags \<Rightarrow> u32 list \<Rightarrow> slab \<Rightarrow> slab option" where
  "kernel_slab_initialize flags backing_pages s =
     (if real_time_mode flags then slab_donate flags 0 backing_pages s else Some s)"

definition kernel_slab_alloc :: "build_flags \<Rightarrow> u32 \<Rightarrow> slab \<Rightarrow> u32 \<times> slab" where
  "kernel_slab_alloc flags bytes s =
     (if \<not> real_time_mode flags then (0, s)
      else case find (\<lambda>i. object_size (slab_caches s ! i) = bytes) [0..<SLAB_NUM_CACHES] of
        None \<Rightarrow> (0, s)
      | Some i \<Rightarrow>
          let cache = slab_caches s ! i; obj = cache_free_head cache in
          if obj = 0 then (0, s)
          else (obj, s\<lparr>slab_caches := (slab_caches s)[i := cache\<lparr>cache_free_head := load32 (slab_ram s) obj,
                   cache_free_count := cache_free_count cache - 1, cache_used_count := cache_used_count cache + 1\<rparr>],
                 slab_ram := store32 (slab_ram s) (obj + 4) 0\<rparr>))"

text \<open>The two tests by which \<open>kernel_slab_free\<close> looks for the cache of an object.\<close>

definition slab_claims :: "build_flags \<Rightarrow> u32 \<Rightarrow> slab_cache \<Rightarrow> bool" where
  "slab_claims flags addr cache \<longleftrightarrow> \<not> (addr < cache_base cache \<or> cache_end cache \<le> addr) \<and>
     (addr - cache_base cache) mod slab_stride flags (object_size cache) = 0"

definition kernel_slab_free :: "build_flags \<Rightarrow> u32 \<Rightarrow> slab \<Rightarrow> bool \<times> slab" where
  "kernel_slab_free flags ptr s =
     (if \<not> real_time_mode flags \<or> ptr = 0 then (False, s)
      else case find (\<lambda>i. slab_claims flags ptr (slab_caches s ! i)) [0..<SLAB_NUM_CACHES] of
        None \<Rightarrow> (False, s)
      | Some i \<Rightarrow>
          let cache = slab_caches s ! i in
          if debug_poison flags \<and> load32 (slab_ram s) (ptr + object_size cache) \<noteq> 0xC001CAFE then (False, s)
          else if load32 (slab_ram s) (ptr + 4) = SLAB_FREE_COOKIE then (False, s)
          else (True, s\<lparr>slab_caches := (slab_caches s)[i := cache\<lparr>cache_free_head := ptr,
                   cache_free_count := cache_free_count cache + 1,
                   cache_used_count := (if 0 < cache_used_count cache then cache_used_count cache - 1 else cache_used_count cache)\<rparr>],
                 slab_ram := store32 (store32 (slab_ram s) ptr (cache_free_head cache)) (ptr + 4) SLAB_FREE_COOKIE\<rparr>))"

definition kernel_slab_get_free_count :: "build_flags \<Rightarrow> u32 \<Rightarrow> slab \<Rightarrow> u32" where
  "kernel_slab_get_free_count flags bytes s =
     (if \<not> real_time_mode flags then 0
      else case find (\<lambda>i. object_size (slab_caches s ! i) = bytes) [0..<SLAB_NUM_CACHES] of
        None \<Rightarrow> 0 | Some i \<Rightarrow> cache_free_count (slab_caches s ! i))"

definition kernel_slab_get_used_count :: "build_flags \<Rightarrow> u32 \<Rightarrow> slab \<Rightarrow> u32" where
  "kernel_slab_get_used_count flags bytes s =
     (if \<not> real_time_mode flags then 0
      else case find (\<lambda>i. object_size (slab_caches s ! i) = bytes) [0..<SLAB_NUM_CACHES] of
        None \<Rightarrow> 0 | Some i \<Rightarrow> cache_used_count (slab_caches s ! i))"

section \<open>Carving a page\<close>

text \<open>On a page that does not reach the end of the address space the loop ends; it visits the slots of the page in order.\<close>

lemma slab_carve_slots:
  assumes b: "0 < unat stride" and page: "unat page + bytes + unat stride < 2 ^ 32" and page_end: "unat page_end = unat page + bytes"
    and i: "i \<le> bytes div unat stride"
  shows "slab_carve flags stride page_end (slot_at page stride i) cm =
    Some (fold (\<lambda>k. slab_put_slot flags (slot_at page stride k)) [i..<bytes div unat stride] cm)"
  using i
proof (induction "bytes div unat stride - i" arbitrary: i cm)
  case 0
  then have i: "i = bytes div unat stride" by simp
  have le: "i * unat stride \<le> bytes" by (simp add: i)
  have lt: "bytes < i * unat stride + unat stride" using dividend_less_div_times [OF b, of bytes] by (simp add: i)
  have "unat (page + of_nat (i * unat stride + unat stride)) = unat page + (i * unat stride + unat stride)"
    using page le by (intro unat_offset) linarith
  then have "unat (slot_at page stride i + stride) = unat page + (i * unat stride + unat stride)"
    by (simp add: slot_at_def algebra_simps)
  then have "\<not> slot_at page stride i + stride \<le> page_end" using lt page_end by (simp add: word_le_nat_alt)
  then show ?case using i by (subst slab_carve.simps) simp
next
  case (Suc d)
  then have i: "i < bytes div unat stride" by simp
  have "Suc i * unat stride \<le> bytes" using i b by (metis Suc_leI div_times_less_eq_dividend le_trans mult_le_mono1)
  then have le: "i * unat stride + unat stride \<le> bytes" by simp
  have "unat (page + of_nat (i * unat stride + unat stride)) = unat page + (i * unat stride + unat stride)"
    using page le by (intro unat_offset) linarith
  then have "unat (slot_at page stride i + stride) = unat page + (i * unat stride + unat stride)"
    by (simp add: slot_at_def algebra_simps)
  then have c: "slot_at page stride i + stride \<le> page_end" using le page_end by (simp add: word_le_nat_alt)
  have n: "slot_at page stride i + stride = slot_at page stride (Suc i)" by (simp add: slot_at_def algebra_simps)
  have "slab_carve flags stride page_end (slot_at page stride (Suc i)) (slab_put_slot flags (slot_at page stride i) cm) =
    Some (fold (\<lambda>k. slab_put_slot flags (slot_at page stride k)) [Suc i..<bytes div unat stride] (slab_put_slot flags (slot_at page stride i) cm))"
    using Suc.hyps(2) i by (intro Suc.hyps(1)) auto
  then show ?case using c n i by (subst slab_carve.simps) (simp add: upt_conv_Cons)
qed

lemma put_slot_fields:
  "object_size (fst (slab_put_slot flags a cm)) = object_size (fst cm)" "cache_base (fst (slab_put_slot flags a cm)) = cache_base (fst cm)"
  "cache_end (fst (slab_put_slot flags a cm)) = cache_end (fst cm)" "cache_used_count (fst (slab_put_slot flags a cm)) = cache_used_count (fst cm)"
  "cache_free_head (fst (slab_put_slot flags a cm)) = a" "cache_free_count (fst (slab_put_slot flags a cm)) = cache_free_count (fst cm) + 1"
  by (simp_all add: slab_put_slot_def Let_def split: prod.split)

lemma put_slots_fields:
  "object_size (fst (fold (slab_put_slot flags) as cm)) = object_size (fst cm)"
  "cache_base (fst (fold (slab_put_slot flags) as cm)) = cache_base (fst cm)"
  "cache_end (fst (fold (slab_put_slot flags) as cm)) = cache_end (fst cm)"
  "cache_used_count (fst (fold (slab_put_slot flags) as cm)) = cache_used_count (fst cm)"
  "cache_free_head (fst (fold (slab_put_slot flags) as cm)) = (if as = [] then cache_free_head (fst cm) else last as)"
  "cache_free_count (fst (fold (slab_put_slot flags) as cm)) = cache_free_count (fst cm) + of_nat (length as)"
  by (induction "as" arbitrary: cm) (simp_all add: put_slot_fields)

text \<open>The links and cookies a page receives stay inside the page, and its last object ends up marked.\<close>

lemma put_slot_outside:
  assumes "\<not> debug_poison flags" "8 \<le> unat (x - a)"
  shows "snd (slab_put_slot flags a cm) x = snd cm x"
proof -
  have "4 \<le> unat (x - (a + 4))" using unat_sum_le [of "x - (a + 4)" 4] assms(2) by (auto simp: not_less [symmetric])
  then show ?thesis using assms by (simp add: slab_put_slot_def Let_def store32_other split: prod.split)
qed

lemma put_slots_outside:
  assumes "\<not> debug_poison flags" "\<forall>a \<in> set as. 8 \<le> unat (x - a)"
  shows "snd (fold (slab_put_slot flags) as cm) x = snd cm x"
  using assms(2) by (induction "as" arbitrary: cm) (simp_all add: put_slot_outside assms(1))

lemma put_slot_cookie: "\<not> debug_poison flags \<Longrightarrow> load32 (snd (slab_put_slot flags a cm)) (a + 4) = SLAB_FREE_COOKIE"
  by (simp add: slab_put_slot_def Let_def split: prod.split)

lemma populate_page:
  assumes plain: "\<not> debug_poison flags" and size: "object_size c = 16 \<or> object_size c = 64 \<or> object_size c = 256"
    and page: "unat page + 8192 < 2 ^ 32"
  obtains c' m' where "slab_cache_populate flags page 4096 (c, m) = Some (c', m')" "object_size c' = object_size c"
    "cache_base c' = (if cache_base c = 0 \<or> page < cache_base c then page else cache_base c)"
    "cache_end c' = (if cache_end c < page + 4096 then page + 4096 else cache_end c)"
    "cache_free_head c' = page + 4096 - object_size c" "cache_used_count c' = cache_used_count c"
    "\<And>x. 4096 \<le> unat (x - page) \<Longrightarrow> m' x = m x" "load32 m' (cache_free_head c' + 4) = SLAB_FREE_COOKIE"
proof -
  let ?b = "object_size c"
  define n where "n = 4096 div unat ?b"
  define c1 where "c1 = (if cache_base c = 0 \<or> page < cache_base c then c\<lparr>cache_base := page\<rparr> else c)"
  define c2 where "c2 = (if cache_end c1 < page + 4096 then c1\<lparr>cache_end := page + 4096\<rparr> else c1)"
  define slots where "slots = map (slot_at page ?b) [0..<n]"
  have n: "0 < n" "n * unat ?b = 4096" "8 \<le> unat ?b" "unat ?b \<le> 4096" using size by (auto simp: n_def)
  have e: "unat (page + 4096) = unat page + 4096" using page unat_offset [of page 4096] by simp
  have os: "object_size c2 = ?b" "slot_at page ?b 0 = page" "slab_stride flags ?b = ?b"
    using plain by (simp_all add: c1_def c2_def slot_at_def slab_stride_def)
  have "slab_carve flags ?b (page + 4096) (slot_at page ?b 0) (c2, m) = Some (fold (\<lambda>k. slab_put_slot flags (slot_at page ?b k)) [0..<n] (c2, m))"
    unfolding n_def using e n page by (intro slab_carve_slots) auto
  then have p: "slab_cache_populate flags page 4096 (c, m) = Some (fold (slab_put_slot flags) slots (c2, m))"
    unfolding slab_cache_populate_def prod.case Let_def c1_def [symmetric] c2_def [symmetric] os slots_def fold_map comp_def .
  obtain c' m' where cm: "fold (slab_put_slot flags) slots (c2, m) = (c', m')" by (cases "fold (slab_put_slot flags) slots (c2, m)")
  have ne: "slots \<noteq> []" "last slots = slot_at page ?b (n - 1)" using n(1) by (auto simp: slots_def last_map)
  have "slot_at page ?b (n - 1) = page + of_nat (n * unat ?b) - ?b"
    using n(1) by (simp add: slot_at_def of_nat_diff algebra_simps)
  then have last: "last slots = page + 4096 - ?b" using ne(2) n(2) by simp
  have f: "object_size c' = ?b" "cache_base c' = cache_base c2" "cache_end c' = cache_end c2" "cache_used_count c' = cache_used_count c"
    "cache_free_head c' = last slots"
    using put_slots_fields [of flags slots "(c2, m)"] ne(1) cm by (auto simp: c1_def c2_def)
  have out: "m' x = m x" if "4096 \<le> unat (x - page)" for x
  proof -
    have "8 \<le> unat (x - a)" if "a \<in> set slots" for a
    proof (rule ccontr)
      assume "\<not> 8 \<le> unat (x - a)"
      moreover obtain k where "k < n" "a = slot_at page ?b k" using \<open>a \<in> set slots\<close> by (auto simp: slots_def)
      ultimately have "unat (x - page) < n * unat ?b" using n by (intro slot_within [of k]) auto
      then show False using \<open>4096 \<le> unat (x - page)\<close> n(2) by simp
    qed
    then show ?thesis using put_slots_outside [OF plain, of slots x "(c2, m)"] cm by simp
  qed
  obtain k where k: "n = Suc k" using n(1) by (cases n) auto
  have sl: "slots = map (slot_at page ?b) [0..<k] @ [last slots]" using ne(2) by (simp add: slots_def k)
  have "fold (slab_put_slot flags) slots (c2, m) =
    slab_put_slot flags (last slots) (fold (slab_put_slot flags) (map (slot_at page ?b) [0..<k]) (c2, m))"
    by (subst sl) (simp only: fold_append fold_simps comp_apply)
  then have "m' = snd (slab_put_slot flags (last slots) (fold (slab_put_slot flags) (map (slot_at page ?b) [0..<k]) (c2, m)))"
    using cm by (metis snd_conv)
  then have "load32 m' (last slots + 4) = SLAB_FREE_COOKIE" by (simp only: put_slot_cookie [OF plain])
  moreover have "cache_base c2 = (if cache_base c = 0 \<or> page < cache_base c then page else cache_base c)"
    "cache_end c2 = (if cache_end c < page + 4096 then page + 4096 else cache_end c)" by (simp_all add: c1_def c2_def)
  ultimately show thesis using p cm f last out by (intro that [of c' m']) simp_all
qed

section \<open>Release\<close>

lemma load32_bytes:
  "ucast (load32 m a) = m a" "ucast (drop_bit 8 (load32 m a)) = m (a + 1)"
  "ucast (drop_bit 16 (load32 m a)) = m (a + 2)" "ucast (drop_bit 24 (load32 m a)) = m (a + 3)"
  by (rule bit_word_eqI, auto simp: load32_def bit_simps dest: bit_imp_le_length)+

lemma store32_same: "load32 m a = v \<Longrightarrow> store32 m a v = m"
  using load32_bytes [of m a] by (auto simp: store32_def)

lemma store32_inside: "unat (x - a) < 4 \<Longrightarrow> store32 m a v x = store32 m' a v x"
proof -
  assume "unat (x - a) < 4"
  then have "unat (x - a) = 0 \<or> unat (x - a) = 1 \<or> unat (x - a) = 2 \<or> unat (x - a) = 3" by linarith
  then have "x = a \<or> x = a + 1 \<or> x = a + 2 \<or> x = a + 3"
    using offset_eq [of 0 x a] offset_eq [of 1 x a] offset_eq [of 2 x a] offset_eq [of 3 x a] by auto
  then show ?thesis by (elim disjE) (simp_all add: store32_def)
qed

text \<open>Giving an object its link and its cookie back undoes its allocation.\<close>

lemma relink_restores:
  assumes "load32 m p = h" "load32 m (p + 4) = v"
  shows "store32 (store32 (store32 m (p + 4) w) p h) (p + 4) v = m"
proof
  fix x
  let ?n = "store32 (store32 m (p + 4) w) p h"
  show "store32 ?n (p + 4) v x = m x"
  proof (cases "unat (x - (p + 4)) < 4")
    case True
    then show ?thesis using store32_inside [OF True, of ?n v m] store32_same [OF assms(2)] by simp
  next
    case cookie: False
    show ?thesis
    proof (cases "unat (x - p) < 4")
      case True
      then show ?thesis using cookie store32_inside [OF True, of "store32 m (p + 4) w" h m] store32_same [OF assms(1)]
        by (simp add: store32_other)
    qed (use cookie in \<open>simp add: store32_other\<close>)
  qed
qed

lemma find_first: "find P [0..<n] = Some i \<longleftrightarrow> i < n \<and> P i \<and> (\<forall>j < i. \<not> P j)"
  by (auto simp: find_Some_iff)

lemma claims_update: "slab_claims flags a (c\<lparr>cache_free_head := h, cache_free_count := n, cache_used_count := u\<rparr>) = slab_claims flags a c"
  by (simp add: slab_claims_def)

lemma slab_alloc_unfold:
  assumes "real_time_mode flags" "find (\<lambda>i. object_size (slab_caches s ! i) = bytes) [0..<SLAB_NUM_CACHES] = Some i"
    and "kernel_slab_alloc flags bytes s = (p, s')" "p \<noteq> 0"
  defines "c \<equiv> slab_caches s ! i"
  shows "cache_free_head c = p" "s' = s\<lparr>slab_caches := (slab_caches s)[i := c\<lparr>cache_free_head := load32 (slab_ram s) p,
     cache_free_count := cache_free_count c - 1, cache_used_count := cache_used_count c + 1\<rparr>], slab_ram := store32 (slab_ram s) (p + 4) 0\<rparr>"
  using assms(1-4) unfolding c_def kernel_slab_alloc_def by (auto simp: Let_def split: if_splits)

lemma second_word_apart: "bytes = 16 \<or> bytes = 64 \<or> bytes = 256 \<Longrightarrow> apart (p + 4) 4 (p + bytes) 4"
  by (auto simp: apart_def)

lemma slab_free_other_cache:
  assumes "real_time_mode flags" "p \<noteq> 0" "j < i" "i < SLAB_NUM_CACHES" "slab_claims flags p (slab_caches s ! j)"
  shows "slab_caches (snd (kernel_slab_free flags p s)) ! i = slab_caches s ! i"
proof -
  obtain k where k: "find (\<lambda>j. slab_claims flags p (slab_caches s ! j)) [0..<SLAB_NUM_CACHES] = Some k"
    using assms(3-5) by (cases "find (\<lambda>j. slab_claims flags p (slab_caches s ! j)) [0..<SLAB_NUM_CACHES]") (auto simp: find_None_iff)
  then have "k \<noteq> i" using assms(3-5) by (auto simp: find_first)
  then show ?thesis using k assms(1,2) by (simp add: kernel_slab_free_def Let_def)
qed


text \<open>
  The state the client boot builds with four or more adjacent pages has such objects: with the pages donated in turn to the three
  caches, the range of the 16-byte cache runs from the first to the fourth page and encloses the page of the 64-byte
  cache. Here that object is released into the wrong cache.
\<close>

lemma four_pages_donated:
  assumes flags: "real_time_mode flags" "\<not> debug_poison flags"
  obtains s c0 c1 c2 where "kernel_slab_initialize flags [0x1000, 0x2000, 0x3000, 0x4000] \<lparr>slab_caches = slab_caches_static, slab_ram = (\<lambda>_. 0)\<rparr> = Some s"
    "slab_caches s = [c0, c1, c2]" "object_size c0 = 16" "object_size c1 = 64" "object_size c2 = 256"
    "cache_base c0 = 0x1000" "cache_end c0 = 0x5000" "cache_base c1 = 0x2000" "cache_end c1 = 0x3000"
    "cache_free_head c1 = 0x2FC0" "cache_used_count c1 = 0" "load32 (slab_ram s) 0x2FC4 = SLAB_FREE_COOKIE"
proof -
  have sizes: "object_size (empty_cache k) = k" "cache_base (empty_cache k) = 0" "cache_end (empty_cache k) = 0" "cache_used_count (empty_cache k) = 0" for k
    by (simp_all add: empty_cache_def)
  obtain a m1 where a: "slab_cache_populate flags 0x1000 4096 (empty_cache 16, \<lambda>_. 0) = Some (a, m1)" "object_size a = 16"
    "cache_base a = 0x1000" "cache_end a = 0x2000"
    by (rule populate_page [OF flags(2), of "empty_cache 16" "0x1000" "\<lambda>_. 0"]) (simp_all add: sizes)
  obtain c1 m2 where c1: "slab_cache_populate flags 0x2000 4096 (empty_cache 64, m1) = Some (c1, m2)" "object_size c1 = 64"
    "cache_base c1 = 0x2000" "cache_end c1 = 0x3000" "cache_free_head c1 = 0x2FC0" "cache_used_count c1 = 0" "load32 m2 0x2FC4 = SLAB_FREE_COOKIE"
    by (rule populate_page [OF flags(2), of "empty_cache 64" "0x2000" m1]) (simp_all add: sizes)
  obtain c2 m3 where c2: "slab_cache_populate flags 0x3000 4096 (empty_cache 256, m2) = Some (c2, m3)" "object_size c2 = 256"
    "\<And>x. 4096 \<le> unat (x - 0x3000) \<Longrightarrow> m3 x = m2 x"
    by (rule populate_page [OF flags(2), of "empty_cache 256" "0x3000" m2]) (simp_all add: sizes)
  obtain c0 m4 where c0: "slab_cache_populate flags 0x4000 4096 (a, m3) = Some (c0, m4)" "object_size c0 = 16"
    "cache_base c0 = 0x1000" "cache_end c0 = 0x5000" "\<And>x. 4096 \<le> unat (x - 0x4000) \<Longrightarrow> m4 x = m3 x"
    by (rule populate_page [OF flags(2), of a "0x4000" m3]) (simp_all add: a)
  have "load32 m4 0x2FC4 = SLAB_FREE_COOKIE" using c1(7) by (simp add: load32_def c0(5) c2(3))
  then show thesis
    using flags(1) a(1) c1 c2(1,2) c0(1-4)
    by (intro that [of "\<lparr>slab_caches = [c0, c1, c2], slab_ram = m4\<rparr>" c0 c1 c2])
      (simp_all add: kernel_slab_initialize_def slab_caches_static_def Let_def)
qed


end
