(* ===== verification/Heap.thy ===== *)
theory Heap
  imports Vmm Slab Tlsf
begin

text \<open>
  \<open>src/kernel/kernel/memory/heap.c\<close>: \<open>kmalloc\<close> and \<open>kfree\<close>. The client build asks the slab caches and the TLSF pool first; the server build has
  size-class lists per domain, refilled in batches from an address-ordered first-fit list, which grows by frames; large
  requests take pages of the dynamic window in both. Block headers are read and written in the memory that the
  frame allocator, the page tables, the slabs and the TLSF pool share. \<open>None\<close> stands for a walk along a list that does not end.
\<close>

section \<open>State\<close>

text \<open>What a call gets from its surroundings: build, NUMA tables, the local node, two cycle counts and the static pool.\<close>

record heap_env =
  env_flags :: build_flags
  env_numa :: numa_state
  env_node :: u32
  env_t0 :: u32
  env_t1 :: u32
  kernel_heap_client_tlsf_pool :: u32

record heap_server_domain =
  size_class_lists :: "u32 list"
  size_class_free_counts :: "u32 list"
  size_class_hit_counts :: "u32 list"
  size_class_refill_counts :: "u32 list"
  first_fit_fallback_count :: u32
  remote_probe_count :: u32
  remote_hit_count :: u32

record heap =
  kernel_heap_free_list :: u32
  kernel_heap_small_free_blocks :: u32
  kernel_heap_small_free_bytes :: u32
  kernel_heap_large_allocation_count :: u32
  kernel_heap_rejected_free_count :: u32
  kernel_heap_double_free_count :: u32
  kernel_heap_initialized :: bool
  kernel_heap_hot_loop_depth :: u32
  kernel_heap_hot_loop_violation_count :: u32
  kernel_heap_hot_loop_bounded_count :: u32
  kernel_heap_server_domains :: "heap_server_domain list"
  kernel_heap_server_active_domain :: u32
  kernel_heap_server_slot_domain_override :: "nat \<Rightarrow> u32 option"
  heap_topology :: cpu_topology
  heap_vmm :: vmm
  heap_slab_caches :: "slab_cache list"
  heap_tlsf :: tlsf_control

abbreviation (input) KERNEL_HEAP_ALIGNMENT :: u32 where "KERNEL_HEAP_ALIGNMENT \<equiv> 8"
abbreviation (input) KERNEL_HEAP_HEADER_MAGIC :: u16 where "KERNEL_HEAP_HEADER_MAGIC \<equiv> 0x4C50"
abbreviation (input) KERNEL_HEAP_BLOCK_FLAG_FREE :: u8 where "KERNEL_HEAP_BLOCK_FLAG_FREE \<equiv> 1"
abbreviation (input) KERNEL_HEAP_BLOCK_FLAG_BIG :: u8 where "KERNEL_HEAP_BLOCK_FLAG_BIG \<equiv> 2"
abbreviation (input) KERNEL_HEAP_BLOCK_FLAG_SC :: u8 where "KERNEL_HEAP_BLOCK_FLAG_SC \<equiv> 4"
abbreviation (input) KERNEL_HEAP_BLOCK_FLAG_VMM :: u8 where "KERNEL_HEAP_BLOCK_FLAG_VMM \<equiv> 8"
abbreviation (input) KERNEL_HEAP_BLOCK_FLAG_SENS :: u8 where "KERNEL_HEAP_BLOCK_FLAG_SENS \<equiv> 16"
abbreviation (input) KERNEL_HEAP_BLOCK_FLAG_SLAB :: u8 where "KERNEL_HEAP_BLOCK_FLAG_SLAB \<equiv> 32"
abbreviation (input) KERNEL_HEAP_BLOCK_FLAG_TLSF :: u8 where "KERNEL_HEAP_BLOCK_FLAG_TLSF \<equiv> 64"
abbreviation (input) KERNEL_HEAP_MIN_SPLIT :: u32 where "KERNEL_HEAP_MIN_SPLIT \<equiv> 32"
abbreviation (input) KERNEL_HEAP_SIZE_CLASSES :: nat where "KERNEL_HEAP_SIZE_CLASSES \<equiv> 7"
abbreviation (input) KERNEL_HEAP_SERVER_DOMAINS :: nat where "KERNEL_HEAP_SERVER_DOMAINS \<equiv> 2"
abbreviation (input) heap_header_bytes :: u32 where "heap_header_bytes \<equiv> 16"

definition kernel_heap_size_class_sizes :: "u32 list" where
  "kernel_heap_size_class_sizes = [8, 16, 32, 64, 128, 256, 512]"

section \<open>Memory\<close>

text \<open>
  The byte memory is indexed by the addresses of the direct mapping; an address of the dynamic window is looked up in the page
  tables first.
\<close>

definition heap_ram :: "heap \<Rightarrow> mem" where
  "heap_ram h = ram (pmm (space (heap_vmm h)))"

definition with_ram :: "mem \<Rightarrow> heap \<Rightarrow> heap" where
  "with_ram m h = h\<lparr>heap_vmm := with_pmm ((pmm (space (heap_vmm h)))\<lparr>ram := m\<rparr>) (heap_vmm h)\<rparr>"

definition heap_at :: "heap \<Rightarrow> u32 \<Rightarrow> u32" where
  "heap_at h a =
     (if KERNEL_VMM_DYNAMIC_START \<le> a \<and> a < KERNEL_VMM_DYNAMIC_END then
        (case paging_get_physical_address a (space (heap_vmm h)) of Some phys \<Rightarrow> pmm_phys_to_virt phys | None \<Rightarrow> a)
      else a)"

definition get32 :: "heap \<Rightarrow> u32 \<Rightarrow> u32" where "get32 h a = load32 (heap_ram h) (heap_at h a)"
definition get16 :: "heap \<Rightarrow> u32 \<Rightarrow> u16" where "get16 h a = load16 (heap_ram h) (heap_at h a)"
definition get8 :: "heap \<Rightarrow> u32 \<Rightarrow> u8" where "get8 h a = heap_ram h (heap_at h a)"
definition put32 :: "u32 \<Rightarrow> u32 \<Rightarrow> heap \<Rightarrow> heap" where "put32 a v h = with_ram (store32 (heap_ram h) (heap_at h a) v) h"
definition put16 :: "u32 \<Rightarrow> u16 \<Rightarrow> heap \<Rightarrow> heap" where "put16 a v h = with_ram (store16 (heap_ram h) (heap_at h a) v) h"
definition put8 :: "u32 \<Rightarrow> u8 \<Rightarrow> heap \<Rightarrow> heap" where "put8 a v h = with_ram ((heap_ram h)(heap_at h a := v)) h"

definition heap_fill :: "u32 \<Rightarrow> u8 \<Rightarrow> u32 \<Rightarrow> heap \<Rightarrow> heap" where
  "heap_fill a v n h = fold (\<lambda>i. put8 (a + of_nat i) v) [0..<unat n] h"

text \<open>The fields of a block header: size, magic, flags, order, reserved, canary, next.\<close>

definition block_size :: "heap \<Rightarrow> u32 \<Rightarrow> u32" where "block_size h b = get32 h b"
definition block_magic :: "heap \<Rightarrow> u32 \<Rightarrow> u16" where "block_magic h b = get16 h (b + 4)"
definition block_flags :: "heap \<Rightarrow> u32 \<Rightarrow> u8" where "block_flags h b = get8 h (b + 6)"
definition block_order :: "heap \<Rightarrow> u32 \<Rightarrow> u8" where "block_order h b = get8 h (b + 7)"
definition block_reserved :: "heap \<Rightarrow> u32 \<Rightarrow> u16" where "block_reserved h b = get16 h (b + 8)"
definition block_canary :: "heap \<Rightarrow> u32 \<Rightarrow> u16" where "block_canary h b = get16 h (b + 10)"
definition block_next :: "heap \<Rightarrow> u32 \<Rightarrow> u32" where "block_next h b = get32 h (b + 12)"
definition set_size :: "u32 \<Rightarrow> u32 \<Rightarrow> heap \<Rightarrow> heap" where "set_size b = put32 b"
definition set_magic :: "u32 \<Rightarrow> u16 \<Rightarrow> heap \<Rightarrow> heap" where "set_magic b = put16 (b + 4)"
definition set_flags :: "u32 \<Rightarrow> u8 \<Rightarrow> heap \<Rightarrow> heap" where "set_flags b = put8 (b + 6)"
definition set_order :: "u32 \<Rightarrow> u8 \<Rightarrow> heap \<Rightarrow> heap" where "set_order b = put8 (b + 7)"
definition set_reserved :: "u32 \<Rightarrow> u16 \<Rightarrow> heap \<Rightarrow> heap" where "set_reserved b = put16 (b + 8)"
definition set_canary :: "u32 \<Rightarrow> u16 \<Rightarrow> heap \<Rightarrow> heap" where "set_canary b = put16 (b + 10)"
definition set_next :: "u32 \<Rightarrow> u32 \<Rightarrow> heap \<Rightarrow> heap" where "set_next b = put32 (b + 12)"

definition heap_canary :: "u32 \<Rightarrow> u16" where
  "heap_canary block_bytes = ucast ((0xCAFE XOR block_bytes) AND 0xFFFF)"

definition kernel_heap_align_up :: "u32 \<Rightarrow> u32 \<Rightarrow> u32" where
  "kernel_heap_align_up value align = align_up value align"

section \<open>The first-fit list\<close>

partial_function (option) heap_find_place :: "heap \<Rightarrow> u32 \<Rightarrow> u32 \<Rightarrow> u32 option" where
  "heap_find_place h block current =
     (if block_next h current \<noteq> 0 \<and> block_next h current < block then heap_find_place h block (block_next h current)
      else Some current)"

definition heap_link :: "u32 \<Rightarrow> heap \<Rightarrow> heap option" where
  "heap_link block h =
     (if kernel_heap_free_list h = 0 \<or> block < kernel_heap_free_list h then
        Some ((set_next block (kernel_heap_free_list h) h)\<lparr>kernel_heap_free_list := block\<rparr>)
      else do {
        current \<leftarrow> heap_find_place h block (kernel_heap_free_list h);
        Some (set_next current block (set_next block (block_next h current) h))
      })"

definition kernel_heap_add_free_block :: "u32 \<Rightarrow> heap \<Rightarrow> heap option" where
  "kernel_heap_add_free_block block h = do {
     let h = set_order block 0 (set_flags block KERNEL_HEAP_BLOCK_FLAG_FREE (set_magic block KERNEL_HEAP_HEADER_MAGIC h));
     h \<leftarrow> heap_link block h;
     Some (h\<lparr>kernel_heap_small_free_blocks := kernel_heap_small_free_blocks h + 1,
             kernel_heap_small_free_bytes := kernel_heap_small_free_bytes h + block_size h block\<rparr>)
   }"

definition kernel_heap_merge_adjacent_blocks :: "u32 \<Rightarrow> heap \<Rightarrow> bool \<times> heap" where
  "kernel_heap_merge_adjacent_blocks left h =
     (if left = 0 \<or> block_next h left = 0 then (False, h)
      else if left + block_size h left \<noteq> block_next h left then (False, h)
      else
        let h = set_size left (block_size h left + block_size h (block_next h left)) h;
            h = set_next left (block_next h (block_next h left)) h
        in (True, h\<lparr>kernel_heap_small_free_blocks := kernel_heap_small_free_blocks h - 1\<rparr>))"

partial_function (option) heap_merge_loop :: "u32 \<Rightarrow> heap \<Rightarrow> heap option" where
  "heap_merge_loop block h =
     (let (merged, h) = kernel_heap_merge_adjacent_blocks block h in if merged then heap_merge_loop block h else Some h)"

partial_function (option) heap_find_before :: "heap \<Rightarrow> u32 \<Rightarrow> u32 \<Rightarrow> u32 \<Rightarrow> u32 option" where
  "heap_find_before h block prev current =
     (if current \<noteq> 0 \<and> current \<noteq> block then heap_find_before h block current (block_next h current) else Some prev)"

definition kernel_heap_coalesce_around :: "u32 \<Rightarrow> heap \<Rightarrow> heap option" where
  "kernel_heap_coalesce_around block h =
     (if block = 0 then Some h
      else do {
        h \<leftarrow> heap_merge_loop block h;
        prev \<leftarrow> heap_find_before h block 0 (kernel_heap_free_list h);
        if prev = 0 then Some h else heap_merge_loop prev h
      })"

definition heap_take_frame :: "heap_env \<Rightarrow> heap \<Rightarrow> (u32 \<times> heap) option" where
  "heap_take_frame env h = do {
     (phys, m) \<leftarrow> physical_memory_manager_page_frame_allocate (env_flags env) (env_numa env) (env_node env) (pmm (space (heap_vmm h)));
     Some (phys, h\<lparr>heap_vmm := with_pmm m (heap_vmm h)\<rparr>)
   }"

definition heap_add_page :: "u32 \<Rightarrow> heap \<Rightarrow> heap option" where
  "heap_add_page block h =
     kernel_heap_add_free_block block
       (set_reserved block 0 (set_next block 0 (set_magic block KERNEL_HEAP_HEADER_MAGIC (set_size block 4096 h))))"

definition kernel_heap_grow_small_pool :: "heap_env \<Rightarrow> heap \<Rightarrow> (bool \<times> heap) option" where
  "kernel_heap_grow_small_pool env h =
     (if real_time_mode (env_flags env) then Some (False, h)
      else do {
        (page_phys, h) \<leftarrow> heap_take_frame env h;
        if page_phys = 0 then Some (False, h)
        else do { h \<leftarrow> heap_add_page (pmm_phys_to_virt page_phys) h; Some (True, h) }
      })"

section \<open>Initialisation\<close>

fun heap_boot_pages :: "heap_env \<Rightarrow> nat \<Rightarrow> u32 list \<Rightarrow> heap \<Rightarrow> (u32 list \<times> heap) option" where
  "heap_boot_pages env 0 backing h = Some (backing, h)"
| "heap_boot_pages env (Suc n) backing h = do {
     (page_phys, h) \<leftarrow> heap_take_frame env h;
     if page_phys = 0 then Some (backing, h)
     else if length backing < 6 then heap_boot_pages env n (backing @ [pmm_phys_to_virt page_phys]) h
     else do { h \<leftarrow> heap_add_page (pmm_phys_to_virt page_phys) h; heap_boot_pages env n backing h }
   }"

text \<open>The slab and TLSF operations run on the shared memory.\<close>

definition heap_slabs :: "heap \<Rightarrow> slab" where
  "heap_slabs h = \<lparr>slab_caches = heap_slab_caches h, slab_ram = heap_ram h\<rparr>"

definition with_slabs :: "slab \<Rightarrow> heap \<Rightarrow> heap" where
  "with_slabs s h = with_ram (slab_ram s) (h\<lparr>heap_slab_caches := slab_caches s\<rparr>)"

definition heap_tlsf_pool :: "heap \<Rightarrow> tlsf_control" where
  "heap_tlsf_pool h = (heap_tlsf h)\<lparr>tlsf_ram := heap_ram h\<rparr>"

definition with_tlsf :: "tlsf_control \<Rightarrow> heap \<Rightarrow> heap" where
  "with_tlsf t h = with_ram (tlsf_ram t) (h\<lparr>heap_tlsf := t\<rparr>)"

definition kernel_heap_build_client_boot_pool :: "heap_env \<Rightarrow> heap \<Rightarrow> heap option" where
  "kernel_heap_build_client_boot_pool env h = do {
     (backing, h) \<leftarrow> heap_boot_pages env 8 [] h;
     h \<leftarrow> (if backing \<noteq> [] then do { s \<leftarrow> kernel_slab_initialize (env_flags env) backing (heap_slabs h); Some (with_slabs s h) } else Some h);
     let (_, t) = kernel_tlsf_initialize (kernel_heap_client_tlsf_pool env) 0x400000 (heap_tlsf_pool h);
     Some (with_tlsf t h)
   }"

definition heap_server_domain_reset :: heap_server_domain where
  "heap_server_domain_reset = \<lparr>size_class_lists = replicate KERNEL_HEAP_SIZE_CLASSES 0, size_class_free_counts = replicate KERNEL_HEAP_SIZE_CLASSES 0,
     size_class_hit_counts = replicate KERNEL_HEAP_SIZE_CLASSES 0, size_class_refill_counts = replicate KERNEL_HEAP_SIZE_CLASSES 0,
     first_fit_fallback_count = 0, remote_probe_count = 0, remote_hit_count = 0\<rparr>"

definition kernel_heap_server_size_class_initialize :: "heap \<Rightarrow> heap" where
  "kernel_heap_server_size_class_initialize h =
     h\<lparr>kernel_heap_server_active_domain := 0, kernel_heap_server_slot_domain_override := (\<lambda>_. None),
       kernel_heap_server_domains := replicate KERNEL_HEAP_SERVER_DOMAINS heap_server_domain_reset\<rparr>"

definition kernel_heap_initialize :: "heap_env \<Rightarrow> heap \<Rightarrow> heap option" where
  "kernel_heap_initialize env h =
     (let h = h\<lparr>kernel_heap_free_list := 0, kernel_heap_small_free_blocks := 0, kernel_heap_small_free_bytes := 0,
            kernel_heap_large_allocation_count := 0, kernel_heap_rejected_free_count := 0, kernel_heap_double_free_count := 0,
            kernel_heap_initialized := True\<rparr>
      in if real_time_mode (env_flags env) then
           kernel_heap_build_client_boot_pool env (h\<lparr>kernel_heap_hot_loop_depth := 0, kernel_heap_hot_loop_violation_count := 0,
             kernel_heap_hot_loop_bounded_count := 0\<rparr>)
         else Some (kernel_heap_server_size_class_initialize h))"

definition kernel_heap_hot_loop_enter :: "heap_env \<Rightarrow> heap \<Rightarrow> heap" where
  "kernel_heap_hot_loop_enter env h =
     (if real_time_mode (env_flags env) then h\<lparr>kernel_heap_hot_loop_depth := kernel_heap_hot_loop_depth h + 1\<rparr> else h)"

definition kernel_heap_hot_loop_leave :: "heap_env \<Rightarrow> heap \<Rightarrow> heap" where
  "kernel_heap_hot_loop_leave env h =
     (if real_time_mode (env_flags env) \<and> 0 < kernel_heap_hot_loop_depth h
      then h\<lparr>kernel_heap_hot_loop_depth := kernel_heap_hot_loop_depth h - 1\<rparr> else h)"

section \<open>Allocation\<close>

text \<open>The header of a block that a client allocator granted.\<close>

definition heap_stamp :: "heap_env \<Rightarrow> u32 \<Rightarrow> u32 \<Rightarrow> u8 \<Rightarrow> u32 \<Rightarrow> heap \<Rightarrow> heap" where
  "heap_stamp env payload_size total_size flag header h =
     (let h = set_flags header flag (set_magic header KERNEL_HEAP_HEADER_MAGIC (set_size header total_size h));
          h = set_canary header (heap_canary (block_size h header)) h;
          h = (if debug_poison (env_flags env) then heap_fill (header + heap_header_bytes) 0xCC payload_size h else h)
      in if 0 < kernel_heap_hot_loop_depth h
         then h\<lparr>kernel_heap_hot_loop_bounded_count := kernel_heap_hot_loop_bounded_count h + 1\<rparr> else h)"

definition kmalloc_client :: "heap_env \<Rightarrow> u32 \<Rightarrow> u32 \<Rightarrow> heap \<Rightarrow> u32 \<times> heap" where
  "kmalloc_client env payload_size total_size h =
     (let (obj, s) = kernel_slab_alloc (env_flags env) total_size (heap_slabs h); h = with_slabs s h in
      if obj \<noteq> 0 then (obj + heap_header_bytes, heap_stamp env payload_size total_size KERNEL_HEAP_BLOCK_FLAG_SLAB obj h)
      else
        let (tlsf_raw, t) = kernel_tlsf_alloc (env_t0 env) (env_t1 env) total_size (heap_tlsf_pool h); h = with_tlsf t h in
        if tlsf_raw \<noteq> 0 then (tlsf_raw + heap_header_bytes, heap_stamp env payload_size total_size KERNEL_HEAP_BLOCK_FLAG_TLSF tlsf_raw h)
        else (0, h))"

definition heap_large :: "heap_env \<Rightarrow> u32 \<Rightarrow> u8 \<Rightarrow> heap \<Rightarrow> (u32 \<times> heap) option" where
  "heap_large env total_size flag h = do {
     let page_count = (total_size + 4096 - 1) div 4096;
     (header, v) \<leftarrow> kernel_vmm_alloc_pages (env_flags env) (env_numa env) (env_node env) page_count (heap_vmm h);
     let h = h\<lparr>heap_vmm := v\<rparr>;
     if header = 0 then Some (0, h)
     else do {
       let h = set_flags header flag (set_magic header KERNEL_HEAP_HEADER_MAGIC (set_size header (page_count * 4096) h));
       let h = set_next header 0 (set_reserved header (ucast page_count) (set_order header 0 h));
       let h = (if debug_poison (env_flags env) then
                  heap_fill (header + heap_header_bytes) 0xCC (block_size h header - heap_header_bytes)
                    (set_canary header (heap_canary (block_size h header)) h) else h);
       Some (header + heap_header_bytes, h\<lparr>kernel_heap_large_allocation_count := kernel_heap_large_allocation_count h + 1\<rparr>)
     }
   }"

definition kernel_heap_server_get_local_domain_index :: "heap \<Rightarrow> nat \<times> heap" where
  "kernel_heap_server_get_local_domain_index h =
     (let (logical_slot, topo) = cpu_topology_get_logical_slot (heap_topology h);
          slot = (if KERNEL_HEAP_SERVER_DOMAINS \<le> unat logical_slot then 0 else logical_slot)
      in (unat slot, h\<lparr>heap_topology := topo, kernel_heap_server_active_domain := slot\<rparr>))"

definition upd_domain :: "nat \<Rightarrow> (heap_server_domain \<Rightarrow> heap_server_domain) \<Rightarrow> heap \<Rightarrow> heap" where
  "upd_domain d f h = h\<lparr>kernel_heap_server_domains := (kernel_heap_server_domains h)[d := f (kernel_heap_server_domains h ! d)]\<rparr>"

definition class_head :: "nat \<Rightarrow> nat \<Rightarrow> heap \<Rightarrow> u32" where
  "class_head d sc h = size_class_lists (kernel_heap_server_domains h ! d) ! sc"

definition class_pop :: "nat \<Rightarrow> nat \<Rightarrow> heap \<Rightarrow> u32 \<times> heap" where
  "class_pop d sc h =
     (let block = class_head d sc h in
      (block, upd_domain d (\<lambda>x. x\<lparr>size_class_lists := (size_class_lists x)[sc := block_next h block],
         size_class_free_counts := (size_class_free_counts x)[sc := size_class_free_counts x ! sc - 1]\<rparr>) h))"

definition kernel_heap_server_try_pop_remote_bucket :: "heap_env \<Rightarrow> nat \<Rightarrow> nat \<Rightarrow> heap \<Rightarrow> (u32 \<times> nat) \<times> heap" where
  "kernel_heap_server_try_pop_remote_bucket env local sc h =
     (let node = (\<lambda>d. numa_policy_get_node_for_slot (of_nat d) (env_numa env));
          others = filter (\<lambda>d. d \<noteq> local) [0..<KERNEL_HEAP_SERVER_DOMAINS];
          candidates = filter (\<lambda>d. node d = node local) others @ filter (\<lambda>d. node d \<noteq> node local) others
      in if KERNEL_HEAP_SIZE_CLASSES \<le> sc then ((0, local), h)
         else case find (\<lambda>d. class_head d sc h \<noteq> 0) candidates of
           None \<Rightarrow> ((0, local), h)
         | Some d \<Rightarrow> (let (block, h) = class_pop d sc h in ((block, d), h)))"

text \<open>The request is served from a size-class list, or its class is to be refilled, or it has no class.\<close>

datatype class_result = Class_Hit u32 | Class_Refill nat | Class_None

definition class_grant :: "heap_env \<Rightarrow> nat \<Rightarrow> nat \<Rightarrow> nat \<Rightarrow> u32 \<Rightarrow> heap \<Rightarrow> heap" where
  "class_grant env local sc owner block h =
     (let size_class = kernel_heap_size_class_sizes ! sc;
          h = upd_domain local (\<lambda>x. x\<lparr>size_class_hit_counts := (size_class_hit_counts x)[sc := size_class_hit_counts x ! sc + 1]\<rparr>) h;
          h = set_size block (size_class + heap_header_bytes) (set_order block (of_nat sc) (set_flags block KERNEL_HEAP_BLOCK_FLAG_SC h));
          h = set_next block 0 (set_reserved block (of_nat owner) h)
      in if debug_poison (env_flags env)
         then heap_fill (block + heap_header_bytes) 0xCC size_class (set_canary block (heap_canary (block_size h block)) h) else h)"

definition kmalloc_size_class :: "heap_env \<Rightarrow> nat \<Rightarrow> u32 \<Rightarrow> heap \<Rightarrow> class_result \<times> heap" where
  "kmalloc_size_class env local payload_size h =
     (if kernel_heap_size_class_sizes ! (KERNEL_HEAP_SIZE_CLASSES - 1) < payload_size then (Class_None, h)
      else case find (\<lambda>sc. \<not> kernel_heap_size_class_sizes ! sc < payload_size) [0..<KERNEL_HEAP_SIZE_CLASSES] of
        None \<Rightarrow> (Class_None, h)
      | Some sc \<Rightarrow>
          let ((block, owner), h) =
                (if class_head local sc h \<noteq> 0 then (let (block, h) = class_pop local sc h in ((block, local), h))
                 else
                   let h = upd_domain local (\<lambda>x. x\<lparr>remote_probe_count := remote_probe_count x + 1\<rparr>) h;
                       ((block, owner), h) = kernel_heap_server_try_pop_remote_bucket env local sc h;
                       h = (if block \<noteq> 0 then upd_domain local (\<lambda>x. x\<lparr>remote_hit_count := remote_hit_count x + 1\<rparr>) h else h)
                   in ((block, owner), h))
          in if block \<noteq> 0 then (Class_Hit (block + heap_header_bytes), class_grant env local sc owner block h)
             else (Class_Refill sc, upd_domain local (\<lambda>x. x\<lparr>first_fit_fallback_count := first_fit_fallback_count x + 1,
                     size_class_refill_counts := (size_class_refill_counts x)[sc := size_class_refill_counts x ! sc + 1]\<rparr>) h))"

partial_function (option) heap_scan :: "heap \<Rightarrow> u32 \<Rightarrow> u32 \<Rightarrow> u32 \<Rightarrow> (u32 \<times> u32) option" where
  "heap_scan h total_size prev current =
     (if current = 0 then Some (prev, current)
      else if total_size \<le> block_size h current then Some (prev, current)
      else heap_scan h total_size current (block_next h current))"

partial_function (option) heap_first_fit :: "heap_env \<Rightarrow> u32 \<Rightarrow> heap \<Rightarrow> (u32 \<times> u32 \<times> heap) option" where
  "heap_first_fit env total_size h = do {
     (prev, current) \<leftarrow> heap_scan h total_size 0 (kernel_heap_free_list h);
     if current \<noteq> 0 then Some (prev, current, h)
     else do {
       (grown, h) \<leftarrow> kernel_heap_grow_small_pool env h;
       if grown then heap_first_fit env total_size h else Some (0, 0, h)
     }
   }"

text \<open>Unlinking the block found, and giving the rest of it back when that is large enough.\<close>

definition heap_unlink :: "u32 \<Rightarrow> u32 \<Rightarrow> heap \<Rightarrow> heap" where
  "heap_unlink prev current h =
     (let h = (if prev \<noteq> 0 then set_next prev (block_next h current) h else h\<lparr>kernel_heap_free_list := block_next h current\<rparr>)
      in h\<lparr>kernel_heap_small_free_blocks := kernel_heap_small_free_blocks h - 1,
           kernel_heap_small_free_bytes := kernel_heap_small_free_bytes h - block_size h current\<rparr>)"

definition heap_split :: "u32 \<Rightarrow> u32 \<Rightarrow> heap \<Rightarrow> heap option" where
  "heap_split total_size current h =
     (let remaining_size = block_size h current - total_size in
      if KERNEL_HEAP_MIN_SPLIT \<le> remaining_size then do {
        let tail = current + total_size;
        let h = set_reserved tail 0 (set_next tail 0 (set_magic tail KERNEL_HEAP_HEADER_MAGIC (set_size tail remaining_size h)));
        h \<leftarrow> kernel_heap_add_free_block tail h;
        Some (set_size current total_size h)
      } else Some h)"

definition heap_take_block :: "u32 \<Rightarrow> u32 \<Rightarrow> u32 \<Rightarrow> heap \<Rightarrow> heap option" where
  "heap_take_block total_size prev current h = do {
     h \<leftarrow> heap_split total_size current (heap_unlink prev current h);
     Some (set_next current 0 (set_order current 0 (set_flags current 0 (set_magic current KERNEL_HEAP_HEADER_MAGIC h))))
   }"

definition sc_full_size :: "nat \<Rightarrow> u32" where
  "sc_full_size sc = kernel_heap_align_up (kernel_heap_size_class_sizes ! sc + heap_header_bytes) KERNEL_HEAP_ALIGNMENT"

definition heap_batch_piece :: "nat \<Rightarrow> nat \<Rightarrow> u32 \<Rightarrow> nat \<Rightarrow> heap \<Rightarrow> heap" where
  "heap_batch_piece local sc current i h =
     (let piece = current + of_nat i * sc_full_size sc;
          h = set_order piece (of_nat sc) (set_flags piece (KERNEL_HEAP_BLOCK_FLAG_SC OR KERNEL_HEAP_BLOCK_FLAG_FREE)
                (set_size piece (sc_full_size sc) h));
          h = set_magic piece KERNEL_HEAP_HEADER_MAGIC (set_reserved piece (of_nat local) h);
          h = set_next piece (class_head local sc h) h
      in upd_domain local (\<lambda>x. x\<lparr>size_class_lists := (size_class_lists x)[sc := piece],
           size_class_free_counts := (size_class_free_counts x)[sc := size_class_free_counts x ! sc + 1]\<rparr>) h)"

definition heap_classify :: "nat \<Rightarrow> class_result \<Rightarrow> u32 \<Rightarrow> u32 \<Rightarrow> heap \<Rightarrow> heap" where
  "heap_classify local class payload_size current h =
     (case class of
        Class_Refill sc \<Rightarrow>
          let pieces = takeWhile (\<lambda>i. \<not> block_size h current < sc_full_size sc * (of_nat i + 1)) [1..<4];
              h = fold (heap_batch_piece local sc current) pieces h
          in set_reserved current (of_nat local) (set_order current (of_nat sc)
               (set_flags current KERNEL_HEAP_BLOCK_FLAG_SC (set_size current (sc_full_size sc) h)))
      | _ \<Rightarrow>
          case find (\<lambda>sc. payload_size = kernel_heap_size_class_sizes ! sc) [0..<KERNEL_HEAP_SIZE_CLASSES] of
            None \<Rightarrow> h
          | Some sc \<Rightarrow> set_reserved current (of_nat local) (set_order current (of_nat sc) (set_flags current KERNEL_HEAP_BLOCK_FLAG_SC h)))"

definition heap_poison_granted :: "heap_env \<Rightarrow> u32 \<Rightarrow> heap \<Rightarrow> heap" where
  "heap_poison_granted env current h =
     (if debug_poison (env_flags env) then
        let h = set_canary current (heap_canary (block_size h current)) h;
            poison_size = (if \<not> real_time_mode (env_flags env) \<and> block_flags h current AND KERNEL_HEAP_BLOCK_FLAG_SC \<noteq> 0
              then kernel_heap_size_class_sizes ! unat (block_order h current) else block_size h current - heap_header_bytes)
        in heap_fill (current + heap_header_bytes) 0xCC poison_size h
      else h)"

definition kmalloc_small :: "heap_env \<Rightarrow> nat \<Rightarrow> class_result \<Rightarrow> u32 \<Rightarrow> u32 \<Rightarrow> heap \<Rightarrow> (u32 \<times> heap) option" where
  "kmalloc_small env local class payload_size total_size h = do {
     let total_size = (case class of Class_Refill sc \<Rightarrow> sc_full_size sc * 4 | _ \<Rightarrow> total_size);
     (prev, current, h) \<leftarrow> heap_first_fit env total_size h;
     if current = 0 then Some (0, h)
     else do {
       h \<leftarrow> heap_take_block total_size prev current h;
       let h = (if real_time_mode (env_flags env) then h else heap_classify local class payload_size current h);
       Some (current + heap_header_bytes, heap_poison_granted env current h)
     }
   }"

definition kmalloc :: "heap_env \<Rightarrow> u32 \<Rightarrow> heap \<Rightarrow> (u32 \<times> heap) option" where
  "kmalloc env bytes h =
     (if \<not> kernel_heap_initialized h \<or> bytes = 0 then Some (0, h)
      else do {
        let payload_size = kernel_heap_align_up bytes KERNEL_HEAP_ALIGNMENT;
        let total_size = kernel_heap_align_up (payload_size + heap_header_bytes) KERNEL_HEAP_ALIGNMENT;
        let client = real_time_mode (env_flags env);
        let (ptr, h) = (if client then kmalloc_client env payload_size total_size h else (0, h));
        if ptr \<noteq> 0 then Some (ptr, h)
        else if client \<and> 0 < kernel_heap_hot_loop_depth h then
          Some (0, h\<lparr>kernel_heap_hot_loop_violation_count := kernel_heap_hot_loop_violation_count h + 1\<rparr>)
        else do {
          (ptr, h) \<leftarrow> (if 4096 < total_size \<or> 1024 < payload_size
                        then heap_large env total_size KERNEL_HEAP_BLOCK_FLAG_VMM h else Some (0, h));
          if ptr \<noteq> 0 then Some (ptr, h)
          else if client then kmalloc_small env 0 Class_None payload_size total_size h
          else
            let (local, h) = kernel_heap_server_get_local_domain_index h;
                (class, h) = kmalloc_size_class env local payload_size h
            in case class of
                 Class_Hit ptr \<Rightarrow> Some (ptr, h)
               | _ \<Rightarrow> kmalloc_small env local class payload_size total_size h
        }
      })"

definition kmalloc_sensitive :: "heap_env \<Rightarrow> u32 \<Rightarrow> heap \<Rightarrow> (u32 \<times> heap) option" where
  "kmalloc_sensitive env bytes h =
     (if \<not> kernel_heap_initialized h \<or> bytes = 0 then Some (0, h)
      else
        let payload_size = kernel_heap_align_up bytes KERNEL_HEAP_ALIGNMENT;
            total_size = kernel_heap_align_up (payload_size + heap_header_bytes) KERNEL_HEAP_ALIGNMENT
        in heap_large env total_size (KERNEL_HEAP_BLOCK_FLAG_VMM OR KERNEL_HEAP_BLOCK_FLAG_SENS) h)"

section \<open>Release\<close>

definition heap_reject :: "heap \<Rightarrow> heap" where
  "heap_reject h = h\<lparr>kernel_heap_rejected_free_count := kernel_heap_rejected_free_count h + 1\<rparr>"

definition heap_reject_double :: "heap \<Rightarrow> heap" where
  "heap_reject_double h = (heap_reject h)\<lparr>kernel_heap_double_free_count := kernel_heap_double_free_count h + 1\<rparr>"

text \<open>The release of a block of the slab caches or the TLSF pool: poison, mark, hand over, count.\<close>

definition kfree_client :: "heap_env \<Rightarrow> u32 \<Rightarrow> heap \<Rightarrow> heap" where
  "kfree_client env header h =
     (let slab = block_flags h header AND KERNEL_HEAP_BLOCK_FLAG_SLAB \<noteq> 0;
          h = (if debug_poison (env_flags env)
               then heap_fill (header + heap_header_bytes) 0xDD (block_size h header - heap_header_bytes) h else h);
          h = set_flags header (block_flags h header OR KERNEL_HEAP_BLOCK_FLAG_FREE) h;
          h = (if slab then with_slabs (snd (kernel_slab_free (env_flags env) header (heap_slabs h))) h
               else with_tlsf (kernel_tlsf_free (env_t0 env) (env_t1 env) header (heap_tlsf_pool h)) h)
      in if 0 < kernel_heap_hot_loop_depth h
         then h\<lparr>kernel_heap_hot_loop_bounded_count := kernel_heap_hot_loop_bounded_count h + 1\<rparr> else h)"

definition heap_poison_released :: "heap_env \<Rightarrow> u32 \<Rightarrow> heap \<Rightarrow> heap" where
  "heap_poison_released env header h =
     (if debug_poison (env_flags env) then
        let poison_size = (if \<not> real_time_mode (env_flags env) \<and> block_flags h header AND KERNEL_HEAP_BLOCK_FLAG_SC \<noteq> 0
              then kernel_heap_size_class_sizes ! unat (block_order h header) else block_size h header - heap_header_bytes)
        in heap_fill (header + heap_header_bytes) 0xDD poison_size h
      else h)"

definition heap_large_released :: "heap \<Rightarrow> heap" where
  "heap_large_released h =
     (if 0 < kernel_heap_large_allocation_count h
      then h\<lparr>kernel_heap_large_allocation_count := kernel_heap_large_allocation_count h - 1\<rparr> else h)"

definition class_push :: "nat \<Rightarrow> nat \<Rightarrow> u32 \<Rightarrow> heap \<Rightarrow> heap" where
  "class_push d sc header h =
     (let h = set_flags header (block_flags h header OR KERNEL_HEAP_BLOCK_FLAG_FREE) h;
          h = set_next header (class_head d sc h) h
      in upd_domain d (\<lambda>x. x\<lparr>size_class_lists := (size_class_lists x)[sc := header],
           size_class_free_counts := (size_class_free_counts x)[sc := size_class_free_counts x ! sc + 1]\<rparr>) h)"

definition kfree :: "heap_env \<Rightarrow> u32 \<Rightarrow> heap \<Rightarrow> heap option" where
  "kfree env ptr h =
     (if ptr = 0 then Some h
      else
        let header = ptr - heap_header_bytes; client = real_time_mode (env_flags env) in
        if block_magic h header \<noteq> KERNEL_HEAP_HEADER_MAGIC \<or> block_canary h header \<noteq> heap_canary (block_size h header) then Some (heap_reject h)
        else if block_flags h header AND KERNEL_HEAP_BLOCK_FLAG_FREE \<noteq> 0 then Some (heap_reject_double h)
        else if client \<and> (block_flags h header AND KERNEL_HEAP_BLOCK_FLAG_SLAB \<noteq> 0 \<or> block_flags h header AND KERNEL_HEAP_BLOCK_FLAG_TLSF \<noteq> 0)
        then Some (kfree_client env header h)
        else
          let h = (if client \<and> 0 < kernel_heap_hot_loop_depth h
                   then h\<lparr>kernel_heap_hot_loop_violation_count := kernel_heap_hot_loop_violation_count h + 1\<rparr> else h) in
          if block_magic h header \<noteq> KERNEL_HEAP_HEADER_MAGIC then Some (heap_reject h)
          else if debug_poison (env_flags env) \<and> block_canary h header \<noteq> heap_canary (block_size h header) then Some (heap_reject h)
          else
            let h = heap_poison_released env header h in
            if block_flags h header AND KERNEL_HEAP_BLOCK_FLAG_FREE \<noteq> 0 then Some (heap_reject_double h)
            else if block_flags h header AND KERNEL_HEAP_BLOCK_FLAG_BIG \<noteq> 0 then do {
              let block_phys = header - KERNEL_VIRTUAL_BASE;
              let h = heap_large_released h;
              m \<leftarrow> (if client then physical_memory_manager_page_frame_free (env_flags env) (env_numa env) block_phys (pmm (space (heap_vmm h)))
                     else physical_memory_manager_page_frame_free_order (env_flags env) (env_numa env) block_phys
                       (unat (block_order h header)) (pmm (space (heap_vmm h))));
              Some (h\<lparr>heap_vmm := with_pmm m (heap_vmm h)\<rparr>)
            }
            else if block_flags h header AND KERNEL_HEAP_BLOCK_FLAG_VMM \<noteq> 0 then do {
              let page_count = ucast (block_reserved h header);
              let h = heap_large_released h;
              v \<leftarrow> kernel_vmm_free_pages (env_flags env) (env_numa env) header page_count (heap_vmm h);
              Some (h\<lparr>heap_vmm := v\<rparr>)
            }
            else
              let sc = unat (block_order h header); owner_domain = unat (block_reserved h header) in
              if \<not> client \<and> block_flags h header AND KERNEL_HEAP_BLOCK_FLAG_SC \<noteq> 0 \<and>
                 sc < KERNEL_HEAP_SIZE_CLASSES \<and> owner_domain < KERNEL_HEAP_SERVER_DOMAINS
              then Some (class_push owner_domain sc header h)
              else do {
                h \<leftarrow> kernel_heap_add_free_block header (set_next header 0 h);
                kernel_heap_coalesce_around header h
              })"

section \<open>Domains and counters\<close>

fun heap_kmallocs :: "heap_env \<Rightarrow> nat \<Rightarrow> u32 \<Rightarrow> heap \<Rightarrow> (u32 list \<times> heap) option" where
  "heap_kmallocs env 0 bytes h = Some ([], h)"
| "heap_kmallocs env (Suc n) bytes h = do {
     (ptr, h) \<leftarrow> kmalloc env bytes h;
     (ptrs, h) \<leftarrow> heap_kmallocs env n bytes h;
     Some (ptr # ptrs, h)
   }"

fun heap_kfrees :: "heap_env \<Rightarrow> u32 list \<Rightarrow> heap \<Rightarrow> heap option" where
  "heap_kfrees env [] h = Some h"
| "heap_kfrees env (ptr # ptrs) h = do { h \<leftarrow> (if ptr \<noteq> 0 then kfree env ptr h else Some h); heap_kfrees env ptrs h }"

fun heap_prefill :: "heap_env \<Rightarrow> u32 list \<Rightarrow> heap \<Rightarrow> heap option" where
  "heap_prefill env [] h = Some h"
| "heap_prefill env (payload_size # sizes) h = do {
     (ptrs, h) \<leftarrow> heap_kmallocs env 4 payload_size h;
     h \<leftarrow> heap_kfrees env ptrs h;
     heap_prefill env sizes h
   }"

definition kernel_heap_initialize_ap_domain :: "heap_env \<Rightarrow> u32 \<Rightarrow> heap \<Rightarrow> heap option" where
  "kernel_heap_initialize_ap_domain env logical_slot h =
     (if real_time_mode (env_flags env) then Some h else heap_prefill env kernel_heap_size_class_sizes h)"

text \<open>The counters of a class in the local domain; looking the domain up records it as the active one.\<close>

definition kernel_heap_get_size_class_free_count :: "heap_env \<Rightarrow> u32 \<Rightarrow> heap \<Rightarrow> u32 \<times> heap" where
  "kernel_heap_get_size_class_free_count env sc h =
     (if real_time_mode (env_flags env) then (0, h)
      else let (local, h) = kernel_heap_server_get_local_domain_index h in
        (if unat sc < KERNEL_HEAP_SIZE_CLASSES then size_class_free_counts (kernel_heap_server_domains h ! local) ! unat sc else 0, h))"

definition kernel_heap_get_size_class_hit_count :: "heap_env \<Rightarrow> u32 \<Rightarrow> heap \<Rightarrow> u32 \<times> heap" where
  "kernel_heap_get_size_class_hit_count env sc h =
     (if real_time_mode (env_flags env) then (0, h)
      else let (local, h) = kernel_heap_server_get_local_domain_index h in
        (if unat sc < KERNEL_HEAP_SIZE_CLASSES then size_class_hit_counts (kernel_heap_server_domains h ! local) ! unat sc else 0, h))"

definition kernel_heap_set_server_active_domain :: "heap_env \<Rightarrow> u32 \<Rightarrow> heap \<Rightarrow> bool \<times> heap" where
  "kernel_heap_set_server_active_domain env domain_index h =
     (if real_time_mode (env_flags env) then (False, h)
      else if KERNEL_HEAP_SERVER_DOMAINS \<le> unat domain_index then (False, h)
      else
        let (logical_slot, topo) = cpu_topology_get_logical_slot (heap_topology h);
            h = h\<lparr>heap_topology := topo\<rparr>;
            h = (if logical_slot < 32 then h\<lparr>kernel_heap_server_slot_domain_override :=
                   (kernel_heap_server_slot_domain_override h)(unat logical_slot \<mapsto> domain_index)\<rparr> else h)
        in (True, h\<lparr>kernel_heap_server_active_domain := domain_index\<rparr>))"

definition kernel_heap_get_server_active_domain :: "heap_env \<Rightarrow> heap \<Rightarrow> u32 \<times> heap" where
  "kernel_heap_get_server_active_domain env h =
     (if real_time_mode (env_flags env) then (0, h)
      else let (local, h) = kernel_heap_server_get_local_domain_index h in (of_nat local, h))"

definition kernel_heap_get_server_per_cpu_hit_count :: "heap_env \<Rightarrow> u32 \<Rightarrow> heap \<Rightarrow> u32" where
  "kernel_heap_get_server_per_cpu_hit_count env slot h =
     (if real_time_mode (env_flags env) \<or> KERNEL_HEAP_SERVER_DOMAINS \<le> unat slot then 0
      else fold (\<lambda>n sum. sum + n) (size_class_hit_counts (kernel_heap_server_domains h ! unat slot)) 0)"

section \<open>Headers in the direct mapping\<close>

text \<open>A block whose header and payload of at most \<open>n\<close> bytes lie below the dynamic window.\<close>

definition direct_block :: "u32 \<Rightarrow> nat \<Rightarrow> bool" where
  "direct_block b n \<longleftrightarrow> b \<noteq> 0 \<and> unat b + 16 + n \<le> 0xD0000000"

lemma heap_ram_with [simp]: "heap_ram (with_ram m h) = m"
  by (simp add: heap_ram_def with_ram_def with_pmm_def)

lemma with_ram_fields [simp]:
  "kernel_heap_server_domains (with_ram m h) = kernel_heap_server_domains h" "kernel_heap_free_list (with_ram m h) = kernel_heap_free_list h"
  "kernel_heap_rejected_free_count (with_ram m h) = kernel_heap_rejected_free_count h" "kernel_heap_hot_loop_depth (with_ram m h) = kernel_heap_hot_loop_depth h"
  by (simp_all add: with_ram_def)

lemma heap_at_direct: "unat a < 0xD0000000 \<Longrightarrow> heap_at h a = a"
  by (simp add: heap_at_def word_le_nat_alt)

lemma heap_ram_upd_domain [simp]: "heap_ram (upd_domain d f h) = heap_ram h"
  by (simp add: upd_domain_def heap_ram_def)

lemma header_direct:
  assumes "direct_block b n" "k < 16"
  shows "unat (b + of_nat k) < 0xD0000000"
  using assms unat_offset [of b k] by (simp add: direct_block_def)

lemma header_at:
  assumes "direct_block b n"
  shows "heap_at h b = b" "heap_at h (b + 4) = b + 4" "heap_at h (b + 6) = b + 6" "heap_at h (b + 7) = b + 7"
    "heap_at h (b + 8) = b + 8" "heap_at h (b + 10) = b + 10" "heap_at h (b + 12) = b + 12"
  using header_direct [OF assms, of 0] header_direct [OF assms, of 4] header_direct [OF assms, of 6] header_direct [OF assms, of 7]
    header_direct [OF assms, of 8] header_direct [OF assms, of 10] header_direct [OF assms, of 12]
  by (simp_all add: heap_at_direct)

lemmas header_access = block_size_def block_magic_def block_flags_def block_order_def block_reserved_def block_canary_def block_next_def
  set_size_def set_magic_def set_flags_def set_order_def set_reserved_def set_canary_def set_next_def
  get32_def get16_def get8_def put32_def put16_def put8_def

lemma header_same:
  assumes "direct_block b n"
  shows "block_size (set_size b v0 h) b = v0" "block_magic (set_magic b v1 h) b = v1" "block_flags (set_flags b v2 h) b = v2" "block_order (set_order b v3 h) b = v3" "block_reserved (set_reserved b v4 h) b = v4" "block_canary (set_canary b v5 h) b = v5" "block_next (set_next b v6 h) b = v6"
  by (simp_all add: header_access header_at [OF assms])

lemma header_other:
  assumes "direct_block b n"
  shows "block_magic (set_size b v0 h) b = block_magic h b" "block_flags (set_size b v0 h) b = block_flags h b" "block_order (set_size b v0 h) b = block_order h b" "block_reserved (set_size b v0 h) b = block_reserved h b" "block_canary (set_size b v0 h) b = block_canary h b" "block_next (set_size b v0 h) b = block_next h b"
    "block_size (set_magic b v1 h) b = block_size h b" "block_flags (set_magic b v1 h) b = block_flags h b" "block_order (set_magic b v1 h) b = block_order h b" "block_reserved (set_magic b v1 h) b = block_reserved h b" "block_canary (set_magic b v1 h) b = block_canary h b" "block_next (set_magic b v1 h) b = block_next h b"
    "block_size (set_flags b v2 h) b = block_size h b" "block_magic (set_flags b v2 h) b = block_magic h b" "block_order (set_flags b v2 h) b = block_order h b" "block_reserved (set_flags b v2 h) b = block_reserved h b" "block_canary (set_flags b v2 h) b = block_canary h b" "block_next (set_flags b v2 h) b = block_next h b"
    "block_size (set_order b v3 h) b = block_size h b" "block_magic (set_order b v3 h) b = block_magic h b" "block_flags (set_order b v3 h) b = block_flags h b" "block_reserved (set_order b v3 h) b = block_reserved h b" "block_canary (set_order b v3 h) b = block_canary h b" "block_next (set_order b v3 h) b = block_next h b"
    "block_size (set_reserved b v4 h) b = block_size h b" "block_magic (set_reserved b v4 h) b = block_magic h b" "block_flags (set_reserved b v4 h) b = block_flags h b" "block_order (set_reserved b v4 h) b = block_order h b" "block_canary (set_reserved b v4 h) b = block_canary h b" "block_next (set_reserved b v4 h) b = block_next h b"
    "block_size (set_canary b v5 h) b = block_size h b" "block_magic (set_canary b v5 h) b = block_magic h b" "block_flags (set_canary b v5 h) b = block_flags h b" "block_order (set_canary b v5 h) b = block_order h b" "block_reserved (set_canary b v5 h) b = block_reserved h b" "block_next (set_canary b v5 h) b = block_next h b"
    "block_size (set_next b v6 h) b = block_size h b" "block_magic (set_next b v6 h) b = block_magic h b" "block_flags (set_next b v6 h) b = block_flags h b" "block_order (set_next b v6 h) b = block_order h b" "block_reserved (set_next b v6 h) b = block_reserved h b" "block_canary (set_next b v6 h) b = block_canary h b"
  by (simp_all add: header_access header_at [OF assms] load32_def load16_def store32_def store16_def)

lemma heap_fill_ram:
  assumes "unat a + unat n \<le> 0xD0000000"
  shows "heap_ram (heap_fill a v n h) x = (if unat (x - a) < unat n then v else heap_ram h x)"
proof -
  have "heap_ram (fold (\<lambda>i. put8 (a + of_nat i) v) [0..<k] h) = memset (heap_ram h) a v k" if "k \<le> unat n" for k
    using that
  proof (induction k)
    case (Suc k)
    have "unat (a + of_nat k) = unat a + k" using Suc.prems assms by (intro unat_offset) simp
    then have "heap_at h' (a + of_nat k) = a + of_nat k" for h' using Suc.prems assms by (intro heap_at_direct) simp
    then show ?case using Suc by (simp add: put8_def memset_def)
  qed (simp add: memset_def)
  then have "heap_ram (heap_fill a v n h) = memset (heap_ram h) a v (unat n)" by (simp add: heap_fill_def)
  then show ?thesis using unsigned_less [where 'a = nat, of n] by (simp add: memset_at)
qed

lemma heap_fill_fields [simp]:
  "kernel_heap_server_domains (heap_fill a v n h) = kernel_heap_server_domains h"
  "kernel_heap_rejected_free_count (heap_fill a v n h) = kernel_heap_rejected_free_count h"
proof -
  have "kernel_heap_server_domains (fold (\<lambda>i. put8 (a + of_nat i) v) is h) = kernel_heap_server_domains h \<and>
    kernel_heap_rejected_free_count (fold (\<lambda>i. put8 (a + of_nat i) v) is h) = kernel_heap_rejected_free_count h" for "is"
    by (induction "is" arbitrary: h) (simp_all add: put8_def)
  then show "kernel_heap_server_domains (heap_fill a v n h) = kernel_heap_server_domains h"
    "kernel_heap_rejected_free_count (heap_fill a v n h) = kernel_heap_rejected_free_count h" by (simp_all add: heap_fill_def)
qed

lemma header_fill:
  assumes "direct_block b (unat n)"
  shows "block_size (heap_fill (b + 16) v n h) b = block_size h b"
    "block_magic (heap_fill (b + 16) v n h) b = block_magic h b"
    "block_flags (heap_fill (b + 16) v n h) b = block_flags h b"
    "block_order (heap_fill (b + 16) v n h) b = block_order h b"
    "block_reserved (heap_fill (b + 16) v n h) b = block_reserved h b"
    "block_canary (heap_fill (b + 16) v n h) b = block_canary h b"
    "block_next (heap_fill (b + 16) v n h) b = block_next h b"
proof -
  have n: "unat (b + 16) + unat n \<le> 0xD0000000" "unat n \<le> 0xD0000000"
    using assms unat_offset [of b 16] by (simp_all add: direct_block_def)
  have "heap_ram (heap_fill (b + 16) v n h) (b + of_nat k) = heap_ram h (b + of_nat k)" if "k < 16" for k
  proof -
    have "unat (b + of_nat k - (b + 16)) = unat (of_nat k - 16 :: u32)" by simp
    moreover have "\<dots> = k + 2 ^ 32 - 16" using that by (simp add: unat_sub_if' unat_of_nat_small)
    ultimately have "\<not> unat (b + of_nat k - (b + 16)) < unat n" using that n(2) by simp
    then show ?thesis using heap_fill_ram [OF n(1)] by simp
  qed
  from this [of 0] this [of 1] this [of 2] this [of 3] this [of 4] this [of 5] this [of 6] this [of 7] this [of 8] this [of 9]
    this [of 10] this [of 11] this [of 12] this [of 13] this [of 14] this [of 15]
  show "block_size (heap_fill (b + 16) v n h) b = block_size h b"
    "block_magic (heap_fill (b + 16) v n h) b = block_magic h b"
    "block_flags (heap_fill (b + 16) v n h) b = block_flags h b"
    "block_order (heap_fill (b + 16) v n h) b = block_order h b"
    "block_reserved (heap_fill (b + 16) v n h) b = block_reserved h b"
    "block_canary (heap_fill (b + 16) v n h) b = block_canary h b"
    "block_next (heap_fill (b + 16) v n h) b = block_next h b"
    by (simp_all add: header_access header_at [OF assms] load32_def load16_def add_ac)
qed

lemma header_upd_domain:
  assumes "direct_block b n"
  shows "block_size (upd_domain d f h) b = block_size h b" "block_magic (upd_domain d f h) b = block_magic h b" "block_flags (upd_domain d f h) b = block_flags h b" "block_order (upd_domain d f h) b = block_order h b" "block_reserved (upd_domain d f h) b = block_reserved h b" "block_canary (upd_domain d f h) b = block_canary h b" "block_next (upd_domain d f h) b = block_next h b"
  by (simp_all add: header_access header_at [OF assms])

lemma set_fields [simp]:
  shows "kernel_heap_server_domains (set_size b v0 h) = kernel_heap_server_domains h" "kernel_heap_rejected_free_count (set_size b v0 h) = kernel_heap_rejected_free_count h"
    "kernel_heap_server_domains (set_magic b v1 h) = kernel_heap_server_domains h" "kernel_heap_rejected_free_count (set_magic b v1 h) = kernel_heap_rejected_free_count h"
    "kernel_heap_server_domains (set_flags b v2 h) = kernel_heap_server_domains h" "kernel_heap_rejected_free_count (set_flags b v2 h) = kernel_heap_rejected_free_count h"
    "kernel_heap_server_domains (set_order b v3 h) = kernel_heap_server_domains h" "kernel_heap_rejected_free_count (set_order b v3 h) = kernel_heap_rejected_free_count h"
    "kernel_heap_server_domains (set_reserved b v4 h) = kernel_heap_server_domains h" "kernel_heap_rejected_free_count (set_reserved b v4 h) = kernel_heap_rejected_free_count h"
    "kernel_heap_server_domains (set_canary b v5 h) = kernel_heap_server_domains h" "kernel_heap_rejected_free_count (set_canary b v5 h) = kernel_heap_rejected_free_count h"
    "kernel_heap_server_domains (set_next b v6 h) = kernel_heap_server_domains h" "kernel_heap_rejected_free_count (set_next b v6 h) = kernel_heap_rejected_free_count h"
  by (simp_all add: header_access)

definition class_sane :: "heap \<Rightarrow> bool" where
  "class_sane h \<longleftrightarrow> length (kernel_heap_server_domains h) = KERNEL_HEAP_SERVER_DOMAINS \<and>
     (\<forall>x \<in> set (kernel_heap_server_domains h). length (size_class_lists x) = KERNEL_HEAP_SIZE_CLASSES \<and>
       length (size_class_free_counts x) = KERNEL_HEAP_SIZE_CLASSES)"

lemma class_grant_header:
  fixes h :: heap and env :: heap_env and local owner :: nat
  assumes d: "direct_block b (unat (kernel_heap_size_class_sizes ! sc))"
  defines "h' \<equiv> class_grant env local sc owner b h"
  shows "block_size h' b = kernel_heap_size_class_sizes ! sc + 16" "block_magic h' b = block_magic h b" "block_flags h' b = 4"
    "block_order h' b = of_nat sc" "block_reserved h' b = of_nat owner"
    "block_canary h' b = (if debug_poison (env_flags env) then heap_canary (kernel_heap_size_class_sizes ! sc + 16) else block_canary h b)"
    "kernel_heap_rejected_free_count h' = kernel_heap_rejected_free_count h"
    "kernel_heap_server_domains h' = kernel_heap_server_domains (upd_domain local
       (\<lambda>x. x\<lparr>size_class_hit_counts := (size_class_hit_counts x)[sc := size_class_hit_counts x ! sc + 1]\<rparr>) h)"
  unfolding h'_def class_grant_def Let_def
  by (simp_all add: header_fill [OF d] header_same [OF d] header_other [OF d] header_upd_domain [OF d]) (simp add: upd_domain_def)

section \<open>Size-class blocks\<close>

definition request_class :: "u32 \<Rightarrow> nat option" where
  "request_class bytes = (let payload = kernel_heap_align_up bytes 8 in
     if 512 < payload then None else find (\<lambda>sc. \<not> kernel_heap_size_class_sizes ! sc < payload) [0..<7])"

lemma request_class_small:
  assumes "request_class bytes = Some sc"
  shows "\<not> 512 < kernel_heap_align_up bytes 8" "\<not> (4096 < kernel_heap_align_up (kernel_heap_align_up bytes 8 + 16) 8 \<or> 1024 < kernel_heap_align_up bytes 8)"
    "find (\<lambda>sc. \<not> kernel_heap_size_class_sizes ! sc < kernel_heap_align_up bytes 8) [0..<7] = Some sc" "sc < 7"
proof -
  let ?p = "kernel_heap_align_up bytes 8"
  show p: "\<not> 512 < ?p" and f: "find (\<lambda>sc. \<not> kernel_heap_size_class_sizes ! sc < ?p) [0..<7] = Some sc"
    using assms by (auto simp: request_class_def Let_def split: if_splits)
  show "sc < 7" using f by (auto simp: find_Some_iff)
  have u: "unat ?p \<le> 512" using p by (simp add: not_less word_le_nat_alt)
  then have "unat (?p + 16) = unat ?p + 16" using unat_offset [of ?p 16] by simp
  then have "unat (kernel_heap_align_up (?p + 16) 8) = (unat ?p + 23) div 8 * 8"
    using unat_align_up [of 3 "?p + 16"] u by (simp add: kernel_heap_align_up_def)
  also have "\<dots> \<le> unat ?p + 23" by simp
  finally have "unat (kernel_heap_align_up (?p + 16) 8) \<le> 535" using u by simp
  then show "\<not> (4096 < kernel_heap_align_up (?p + 16) 8 \<or> 1024 < ?p)" using u by (simp add: word_less_nat_alt)
qed

lemma local_domain:
  "fst (kernel_heap_server_get_local_domain_index h) < 2"
  "kernel_heap_server_domains (snd (kernel_heap_server_get_local_domain_index h)) = kernel_heap_server_domains h"
  "heap_vmm (snd (kernel_heap_server_get_local_domain_index h)) = heap_vmm h"
  "kernel_heap_rejected_free_count (snd (kernel_heap_server_get_local_domain_index h)) = kernel_heap_rejected_free_count h"
  by (simp_all add: kernel_heap_server_get_local_domain_index_def Let_def split: prod.split)

lemma header_same_vmm:
  assumes "heap_vmm h' = heap_vmm h"
  shows "block_magic h' b = block_magic h b" "block_canary h' b = block_canary h b" "block_next h' b = block_next h b"
  using assms by (simp_all add: header_access heap_ram_def heap_at_def)

lemma kmalloc_class_hit:
  assumes "\<not> real_time_mode (env_flags env)" "kernel_heap_initialized h" "bytes \<noteq> 0" "request_class bytes = Some sc"
    and "kernel_heap_server_get_local_domain_index h = (local, h0)" "class_head local sc h = b" "b \<noteq> 0"
  shows "kmalloc env bytes h = Some (b + 16, class_grant env local sc local b (snd (class_pop local sc h0)))"
proof -
  note c = request_class_small [OF assms(4)]
  have "class_head local sc h0 = b" using local_domain(2) [of h] assms(5,6) by (simp add: class_head_def)
  then have "kmalloc_size_class env local (kernel_heap_align_up bytes 8) h0 =
    (Class_Hit (b + 16), class_grant env local sc local b (snd (class_pop local sc h0)))"
    using c(1,3) assms(7) by (simp add: kmalloc_size_class_def class_pop_def Let_def kernel_heap_size_class_sizes_def)
  then show ?thesis using assms(1-3,5) c(2) by (simp add: kmalloc_def Let_def)
qed

text \<open>The header and the domains after a hit.\<close>

lemma kmalloc_class_effect:
  assumes a: "\<not> real_time_mode (env_flags env)" "kernel_heap_initialized h" "bytes \<noteq> 0" "request_class bytes = Some sc"
    "kernel_heap_server_get_local_domain_index h = (local, h0)" "class_head local sc h = b" "b \<noteq> 0"
    and d: "direct_block b (unat (kernel_heap_size_class_sizes ! sc))"
  obtains h1 where "kmalloc env bytes h = Some (b + 16, h1)" "block_size h1 b = kernel_heap_size_class_sizes ! sc + 16"
    "block_magic h1 b = block_magic h b" "block_flags h1 b = 4" "block_order h1 b = of_nat sc" "block_reserved h1 b = of_nat local"
    "block_canary h1 b = (if debug_poison (env_flags env) then heap_canary (kernel_heap_size_class_sizes ! sc + 16) else block_canary h b)"
    "kernel_heap_rejected_free_count h1 = kernel_heap_rejected_free_count h"
    "kernel_heap_server_domains h1 = (kernel_heap_server_domains h)[local := (kernel_heap_server_domains h ! local)
       \<lparr>size_class_lists := (size_class_lists (kernel_heap_server_domains h ! local))[sc := block_next h b],
        size_class_free_counts := (size_class_free_counts (kernel_heap_server_domains h ! local))[sc := size_class_free_counts (kernel_heap_server_domains h ! local) ! sc - 1],
        size_class_hit_counts := (size_class_hit_counts (kernel_heap_server_domains h ! local))[sc := size_class_hit_counts (kernel_heap_server_domains h ! local) ! sc + 1]\<rparr>]"
proof -
  let ?p = "snd (class_pop local sc h0)"
  have h0: "kernel_heap_server_domains h0 = kernel_heap_server_domains h" "heap_vmm h0 = heap_vmm h"
    "kernel_heap_rejected_free_count h0 = kernel_heap_rejected_free_count h" using local_domain [of h] a(5) by simp_all
  have p: "block_magic ?p b = block_magic h b" "block_canary ?p b = block_canary h b" "block_next h0 b = block_next h b"
    "kernel_heap_rejected_free_count ?p = kernel_heap_rejected_free_count h"
    using header_same_vmm [OF h0(2)] header_same_vmm [of ?p h0 b] h0(3) by (simp_all add: class_pop_def upd_domain_def Let_def)
  have head: "class_head local sc h0 = b" using a(6) h0(1) by (simp add: class_head_def)
  note g = class_grant_header [OF d, of env local local ?p]
  show thesis
  proof (rule that [OF kmalloc_class_hit [OF a]])
    show "kernel_heap_server_domains (class_grant env local sc local b ?p) = (kernel_heap_server_domains h)[local := (kernel_heap_server_domains h ! local)
       \<lparr>size_class_lists := (size_class_lists (kernel_heap_server_domains h ! local))[sc := block_next h b],
        size_class_free_counts := (size_class_free_counts (kernel_heap_server_domains h ! local))[sc := size_class_free_counts (kernel_heap_server_domains h ! local) ! sc - 1],
        size_class_hit_counts := (size_class_hit_counts (kernel_heap_server_domains h ! local))[sc := size_class_hit_counts (kernel_heap_server_domains h ! local) ! sc + 1]\<rparr>]"
      unfolding g(8) using h0(1) p(3) head by (cases "local < length (kernel_heap_server_domains h)") (simp_all add: upd_domain_def class_pop_def Let_def list_update_beyond)
  qed (use g p in simp_all)
qed

text \<open>Releasing a size-class block whose canary is right puts it back on the list of the domain its header names.\<close>

lemma kfree_class_block:
  assumes env: "\<not> real_time_mode (env_flags env)" and d: "direct_block b (unat (kernel_heap_size_class_sizes ! sc))"
    and hd: "block_size h b = kernel_heap_size_class_sizes ! sc + 16" "block_magic h b = 0x4C50" "block_flags h b = 4"
      "block_order h b = of_nat sc" "block_reserved h b = of_nat local" "block_canary h b = heap_canary (block_size h b)"
    and i: "sc < 7" "local < 2"
  obtains h2 where "kfree env (b + 16) h = Some h2" "block_next h2 b = class_head local sc h"
    "kernel_heap_rejected_free_count h2 = kernel_heap_rejected_free_count h"
    "kernel_heap_server_domains h2 = (kernel_heap_server_domains h)[local := (kernel_heap_server_domains h ! local)
       \<lparr>size_class_lists := (size_class_lists (kernel_heap_server_domains h ! local))[sc := b],
        size_class_free_counts := (size_class_free_counts (kernel_heap_server_domains h ! local))[sc := size_class_free_counts (kernel_heap_server_domains h ! local) ! sc + 1]\<rparr>]"
proof -
  define h' where "h' = heap_poison_released env b h"
  have sc: "unat (of_nat sc :: u8) = sc" "unat (of_nat local :: u16) = local"
    using i by (simp_all add: unsigned_of_nat take_bit_nat_eq_self)
  have h': "h' = (if debug_poison (env_flags env) then heap_fill (b + 16) 0xDD (kernel_heap_size_class_sizes ! sc) h else h)"
    using env hd(3,4) sc by (simp add: h'_def heap_poison_released_def)
  have f: "block_flags h' b = 4" "block_order h' b = of_nat sc" "block_reserved h' b = of_nat local"
    "kernel_heap_server_domains h' = kernel_heap_server_domains h" "kernel_heap_rejected_free_count h' = kernel_heap_rejected_free_count h"
    using hd(3-5) by (simp_all add: h' header_fill [OF d])
  have nz: "b + 16 \<noteq> 0" using d unat_offset [of b 16] by (auto simp: direct_block_def)
  have k: "kfree env (b + 16) h = Some (class_push local sc b h')"
    using env nz hd f sc i by (simp add: kfree_def Let_def h'_def [symmetric])
  show thesis
  proof (rule that [OF k])
    show "block_next (class_push local sc b h') b = class_head local sc h"
      using f(4) by (simp add: class_push_def Let_def header_upd_domain [OF d] header_same [OF d] class_head_def)
  qed (use f in \<open>simp_all add: class_push_def Let_def upd_domain_def\<close>)
qed

lemma map_restored: "i < length xs \<Longrightarrow> f x = f (xs ! i) \<Longrightarrow> map f (xs[i := x]) = map f xs"
  using list_update_id [of "map f xs" i] by (simp add: map_update)

text \<open>A size-class block: a release refused for its canary, and a release that undoes the request.\<close>

lemma kfree_canary_mismatch:
  assumes "direct_block b n" "block_canary h b \<noteq> heap_canary (block_size h b)"
  shows "kfree env (b + 16) h = Some (heap_reject h)"
proof -
  have "b + 16 \<noteq> 0" using assms(1) unat_offset [of b 16] by (auto simp: direct_block_def)
  then show ?thesis using assms(2) by (simp add: kfree_def Let_def)
qed

lemma class_lists_restored:
  fixes D :: "heap_server_domain list" and local sc :: nat and c :: u32 and hits :: "u32 list"
  defines "x1 \<equiv> (D ! local)\<lparr>size_class_lists := (size_class_lists (D ! local))[sc := c],
      size_class_free_counts := (size_class_free_counts (D ! local))[sc := size_class_free_counts (D ! local) ! sc - 1],
      size_class_hit_counts := hits\<rparr>"
  defines "D1 \<equiv> D[local := x1]"
  assumes l: "local < length D" "sc < length (size_class_lists (D ! local))" "sc < length (size_class_free_counts (D ! local))"
    and head: "size_class_lists (D ! local) ! sc = b"
    and D2: "D2 = D1[local := (D1 ! local)\<lparr>size_class_lists := (size_class_lists (D1 ! local))[sc := b],
      size_class_free_counts := (size_class_free_counts (D1 ! local))[sc := size_class_free_counts (D1 ! local) ! sc + 1]\<rparr>]"
  shows "map size_class_lists D2 = map size_class_lists D" "map size_class_free_counts D2 = map size_class_free_counts D"
    "size_class_lists (D1 ! local) ! sc = c"
proof -
  have "(size_class_lists (D ! local))[sc := b] = size_class_lists (D ! local)" using head by auto
  then show "map size_class_lists D2 = map size_class_lists D" "map size_class_free_counts D2 = map size_class_free_counts D"
    "size_class_lists (D1 ! local) ! sc = c"
    unfolding D2 D1_def x1_def using l by (simp_all add: map_restored)
qed

text \<open>A request just below the top of the address space is rounded up to nothing and gets a block of the smallest class.\<close>

lemma huge_request_wraps: "request_class 0xFFFFFFF9 = Some 0"
  by code_simp

text \<open>
  C37 (roundtrip): a request of the server build that a size-class list of the local domain can serve gets the head of that list. In the
  poisoning build releasing it puts every list, every count of free blocks and the link of the block back as they were. In the
  plain build the header's canary is never written: the release has that effect if the memory happens to hold
  the right value there, and is refused otherwise.
\<close>

theorem size_class_roundtrip:
  assumes a: "\<not> real_time_mode (env_flags env)" "kernel_heap_initialized h" "bytes \<noteq> 0" "request_class bytes = Some sc"
    "kernel_heap_server_get_local_domain_index h = (local, h0)" "class_head local sc h = b"
    and d: "direct_block b (unat (kernel_heap_size_class_sizes ! sc))" and magic: "block_magic h b = 0x4C50" and sane: "class_sane h"
  shows "\<exists>h1 h2. kmalloc env bytes h = Some (b + 16, h1) \<and> kfree env (b + 16) h1 = Some h2 \<and>
    (if debug_poison (env_flags env) \<or> block_canary h b = heap_canary (kernel_heap_size_class_sizes ! sc + 16) then
       map size_class_lists (kernel_heap_server_domains h2) = map size_class_lists (kernel_heap_server_domains h) \<and>
       map size_class_free_counts (kernel_heap_server_domains h2) = map size_class_free_counts (kernel_heap_server_domains h) \<and>
       block_next h2 b = block_next h b \<and> kernel_heap_rejected_free_count h2 = kernel_heap_rejected_free_count h
     else h2 = heap_reject h1)"
proof -
  have b: "b \<noteq> 0" using d by (simp add: direct_block_def)
  let ?D = "kernel_heap_server_domains h"
  obtain h1 where h1: "kmalloc env bytes h = Some (b + 16, h1)" "block_size h1 b = kernel_heap_size_class_sizes ! sc + 16"
    "block_magic h1 b = block_magic h b" "block_flags h1 b = 4" "block_order h1 b = of_nat sc" "block_reserved h1 b = of_nat local"
    "block_canary h1 b = (if debug_poison (env_flags env) then heap_canary (kernel_heap_size_class_sizes ! sc + 16) else block_canary h b)"
    "kernel_heap_rejected_free_count h1 = kernel_heap_rejected_free_count h"
    "kernel_heap_server_domains h1 = ?D[local := (?D ! local)
       \<lparr>size_class_lists := (size_class_lists (?D ! local))[sc := block_next h b],
        size_class_free_counts := (size_class_free_counts (?D ! local))[sc := size_class_free_counts (?D ! local) ! sc - 1],
        size_class_hit_counts := (size_class_hit_counts (?D ! local))[sc := size_class_hit_counts (?D ! local) ! sc + 1]\<rparr>]"
    by (rule kmalloc_class_effect [OF a b d]) (rule that)
  show ?thesis
  proof (cases "block_canary h1 b = heap_canary (block_size h1 b)")
    case True
    have i: "sc < 7" "local < 2" using request_class_small(4) [OF a(4)] local_domain(1) [of h] a(5) by auto
    obtain h2 where h2: "kfree env (b + 16) h1 = Some h2" "block_next h2 b = class_head local sc h1"
      "kernel_heap_rejected_free_count h2 = kernel_heap_rejected_free_count h1"
      "kernel_heap_server_domains h2 = (kernel_heap_server_domains h1)[local := (kernel_heap_server_domains h1 ! local)
         \<lparr>size_class_lists := (size_class_lists (kernel_heap_server_domains h1 ! local))[sc := b],
          size_class_free_counts := (size_class_free_counts (kernel_heap_server_domains h1 ! local))[sc := size_class_free_counts (kernel_heap_server_domains h1 ! local) ! sc + 1]\<rparr>]"
      by (rule kfree_class_block [OF a(1) d h1(2) trans [OF h1(3) magic] h1(4-6) True i]) (rule that)
    have l: "local < length ?D" "sc < length (size_class_lists (?D ! local))" "sc < length (size_class_free_counts (?D ! local))"
      "size_class_lists (?D ! local) ! sc = b"
      using sane i nth_mem [of local ?D] a(6) by (auto simp: class_sane_def class_head_def)
    note restored = class_lists_restored [OF l h2(4) [unfolded h1(9)]]
    then show ?thesis using h1(1,2,7,8) h2(1-3) True by (auto simp: class_head_def h1(9))
  next
    case False
    then have "\<not> (debug_poison (env_flags env) \<or> block_canary h b = heap_canary (kernel_heap_size_class_sizes ! sc + 16))"
      using h1(2,7) by (auto split: if_splits)
    then show ?thesis using kfree_canary_mismatch [OF d False] h1(1) by auto
  qed
qed

definition example_heap :: heap where
  "example_heap = set_canary 0xC0500000 0 (set_magic 0xC0500000 0x4C50
     \<lparr>kernel_heap_free_list = 0, kernel_heap_small_free_blocks = 0, kernel_heap_small_free_bytes = 0, kernel_heap_large_allocation_count = 0,
      kernel_heap_rejected_free_count = 0, kernel_heap_double_free_count = 0, kernel_heap_initialized = True, kernel_heap_hot_loop_depth = 0,
      kernel_heap_hot_loop_violation_count = 0, kernel_heap_hot_loop_bounded_count = 0,
      kernel_heap_server_domains = [heap_server_domain_reset\<lparr>size_class_lists := [0, 0xC0500000, 0, 0, 0, 0, 0],
        size_class_free_counts := [0, 1, 0, 0, 0, 0, 0]\<rparr>, heap_server_domain_reset],
      kernel_heap_server_active_domain = 0, kernel_heap_server_slot_domain_override = (\<lambda>_. None), heap_topology = cpu_topology_static,
      heap_vmm = \<lparr>vmm_bitmap = replicate 16384 0, vmm_last_search_index = 0, vmm_initialized = True, space = booted\<rparr>,
      heap_slab_caches = [],
      heap_tlsf = \<lparr>fl_bitmap = 0, sl_bitmap = (\<lambda>_. 0), free_lists = (\<lambda>_ _. 0), pool_start = 0, pool_end = 0, pool_size = 0,
        free_bytes = 0, alloc_count = 0, free_op_count = 0, failed_alloc_count = 0, wcet_alloc_cycles = 0, wcet_free_cycles = 0,
        initialized = False, tlsf_ram = (\<lambda>_. 0)\<rparr>\<rparr>)"

definition example_env :: "bool \<Rightarrow> heap_env" where
  "example_env poison = \<lparr>env_flags = \<lparr>real_time_mode = False, debug_poison = poison\<rparr>, env_numa = numa_state_static, env_node = 0,
     env_t0 = 0, env_t1 = 0, kernel_heap_client_tlsf_pool = 0xC0600000\<rparr>"

lemma example_block:
  "direct_block 0xC0500000 16" "block_magic example_heap 0xC0500000 = 0x4C50" "block_canary example_heap 0xC0500000 = 0"
proof -
  show d: "direct_block 0xC0500000 16" by (simp add: direct_block_def)
  show "block_magic example_heap 0xC0500000 = 0x4C50" "block_canary example_heap 0xC0500000 = 0"
    unfolding example_heap_def header_same [OF d] header_other [OF d] by (rule refl)+
qed

theorem size_class_roundtrip_witness:
  "(\<exists>h1 h2. kmalloc (example_env True) 12 example_heap = Some (0xC0500010, h1) \<and> kfree (example_env True) 0xC0500010 h1 = Some h2 \<and>
     map size_class_lists (kernel_heap_server_domains h2) = map size_class_lists (kernel_heap_server_domains example_heap)) \<and>
   (\<exists>h1. kmalloc (example_env False) 12 example_heap = Some (0xC0500010, h1) \<and> kfree (example_env False) 0xC0500010 h1 = Some (heap_reject h1))"
proof -
  have l: "kernel_heap_server_get_local_domain_index example_heap = (0, snd (kernel_heap_server_get_local_domain_index example_heap))"
    by (simp add: kernel_heap_server_get_local_domain_index_def example_heap_def header_access with_ram_def cpu_topology_get_logical_slot_def
      cpu_topology_static_def)
  have r: "request_class 12 = Some 1" by code_simp
  have c: "kernel_heap_initialized example_heap" "class_head 0 1 example_heap = 0xC0500000" "class_sane example_heap"
    by (simp_all add: example_heap_def header_access with_ram_def class_head_def class_sane_def heap_server_domain_reset_def)
  have s: "unat (kernel_heap_size_class_sizes ! 1) = 16" "heap_canary (kernel_heap_size_class_sizes ! 1 + 16) \<noteq> 0" by code_simp+
  show ?thesis
    using size_class_roundtrip [of "example_env True" example_heap 12, OF _ c(1) _ r l c(2) _ _ c(3)]
      size_class_roundtrip [of "example_env False" example_heap 12, OF _ c(1) _ r l c(2) _ _ c(3)] example_block s
    by (auto simp: example_env_def)
qed

end
