(* ===== verification/Heap_First_Fit.thy ===== *)
theory Heap_First_Fit
  imports Heap
begin

text \<open>
  The address-ordered first-fit list of \<open>heap.c\<close>: its invariant (a finite sorted chain of disjoint blocks with exact counters) and the
  effect of inserting, merging and taking blocks on the bytes the list covers.
\<close>

section \<open>Headers far from each other\<close>

definition same_header :: "heap \<Rightarrow> heap \<Rightarrow> u32 \<Rightarrow> bool" where
  "same_header h h' x \<longleftrightarrow> (\<forall>y. unat (y - x) < 16 \<longrightarrow> heap_ram h' y = heap_ram h y)"

lemma same_headerD:
  assumes "same_header h h' x" "direct_block x n"
  shows "block_size h' x = block_size h x" "block_magic h' x = block_magic h x" "block_flags h' x = block_flags h x"
    "block_canary h' x = block_canary h x" "block_next h' x = block_next h x"
proof -
  have m: "heap_ram h' (x + of_nat k) = heap_ram h (x + of_nat k)" if "k < 16" for k
    using assms(1) that by (simp add: same_header_def unat_of_nat_small)
  show "block_size h' x = block_size h x" "block_magic h' x = block_magic h x" "block_flags h' x = block_flags h x"
    "block_canary h' x = block_canary h x" "block_next h' x = block_next h x"
    using m [of 0] m [of 1] m [of 2] m [of 3] m [of 4] m [of 5] m [of 6] m [of 10] m [of 11] m [of 12] m [of 13] m [of 14] m [of 15]
    by (simp_all add: header_access header_at [OF assms(2)] load32_def load16_def add_ac)
qed

lemma same_header_refl [simp]: "same_header h h x"
  by (simp add: same_header_def)

lemma same_header_trans: "same_header h h' x \<Longrightarrow> same_header h' h'' x \<Longrightarrow> same_header h h'' x"
  by (simp add: same_header_def)

lemma far_sub:
  fixes b x y :: u32
  assumes "unat b + 16 \<le> unat x \<or> unat x + 16 \<le> unat b" "unat b + 16 \<le> 0xD0000000" "unat x + 16 \<le> 0xD0000000" "unat (y - x) < 16"
  shows "16 \<le> unat (y - b)"
proof -
  have "16 \<le> unat (x - b)" "16 \<le> unat (b - x)" using assms(1-3) by (auto simp: unat_sub_if')
  then have "apart b 16 x 16" by (simp add: apart_def)
  then show ?thesis using assms(4) by (rule apart_ge)
qed

lemma sub_offset: "16 \<le> unat (y - b :: u32) \<Longrightarrow> k \<le> 12 \<Longrightarrow> 4 \<le> unat (y - (b + of_nat k))"
  using unat_sub_if' [of "y - b" "of_nat k :: u32"] by (auto simp: unat_of_nat_small diff_diff_eq split: if_splits)

lemma set_far:
  assumes d: "direct_block b n" "direct_block x k" and far: "unat b + 16 \<le> unat x \<or> unat x + 16 \<le> unat b"
  shows "same_header h (set_size b v0 h) x" "same_header h (set_magic b v1 h) x" "same_header h (set_flags b v2 h) x"
    "same_header h (set_order b v3 h) x" "same_header h (set_reserved b v4 h) x" "same_header h (set_canary b v5 h) x" "same_header h (set_next b v6 h) x"
proof -
  have f: "16 \<le> unat (y - b)" if "unat (y - x) < 16" for y
    using that far d by (intro far_sub [of b x]) (auto simp: direct_block_def)
  have off: "4 \<le> unat (y - b)" "4 \<le> unat (y - (b + 4))" "4 \<le> unat (y - (b + 6))" "4 \<le> unat (y - (b + 7))" "4 \<le> unat (y - (b + 8))"
    "4 \<le> unat (y - (b + 10))" "4 \<le> unat (y - (b + 12))" if "unat (y - x) < 16" for y
    using sub_offset [OF f [OF that], of 4] sub_offset [OF f [OF that], of 6] sub_offset [OF f [OF that], of 7] sub_offset [OF f [OF that], of 8]
      sub_offset [OF f [OF that], of 10] sub_offset [OF f [OF that], of 12] f [OF that] by simp_all
  have z: "m y = (m(z := v)) y" if "4 \<le> unat (y - z)" for y z :: u32 and m :: mem and v using that by auto
  show "same_header h (set_size b v0 h) x" "same_header h (set_next b v6 h) x"
    by (simp_all add: same_header_def header_access header_at [OF d(1)] store32_other off)
  show "same_header h (set_magic b v1 h) x" "same_header h (set_reserved b v4 h) x" "same_header h (set_canary b v5 h) x"
    by (simp_all add: same_header_def header_access header_at [OF d(1)] store16_other order_trans [OF _ off(2)] order_trans [OF _ off(5)] order_trans [OF _ off(6)])
  show "same_header h (set_flags b v2 h) x" "same_header h (set_order b v3 h) x"
    unfolding same_header_def header_access header_at [OF d(1)] heap_ram_with using off(3,4) z by (metis (no_types))+
qed

section \<open>The invariant of the list\<close>

definition block_bytes :: "heap \<Rightarrow> u32 \<Rightarrow> nat set" where
  "block_bytes h x = {unat x..<unat x + unat (block_size h x)}"

definition covered :: "heap \<Rightarrow> u32 list \<Rightarrow> nat set" where
  "covered h bs = (\<Union>x \<in> set bs. block_bytes h x)"

text \<open>A block with room for its header, below the dynamic window.\<close>

definition free_block_ok :: "(u32 \<Rightarrow> u32) \<Rightarrow> u32 \<Rightarrow> bool" where
  "free_block_ok sz x \<longleftrightarrow> x \<noteq> 0 \<and> 16 \<le> unat (sz x) \<and> unat x + unat (sz x) \<le> 0xD0000000"

definition free_blocks_ok :: "(u32 \<Rightarrow> u32) \<Rightarrow> u32 list \<Rightarrow> bool" where
  "free_blocks_ok sz bs \<longleftrightarrow> sorted_wrt (\<lambda>x y. unat x + unat (sz x) \<le> unat y) bs \<and> (\<forall>x \<in> set bs. free_block_ok sz x)"

definition first_fit_inv :: "heap \<Rightarrow> u32 list \<Rightarrow> bool" where
  "first_fit_inv h bs \<longleftrightarrow> chain (block_next h) (kernel_heap_free_list h) bs \<and> free_blocks_ok (block_size h) bs \<and>
     kernel_heap_small_free_blocks h = of_nat (length bs) \<and> kernel_heap_small_free_bytes h = sum_list (map (block_size h) bs)"

lemma free_block_ok_direct: "free_block_ok sz x \<Longrightarrow> direct_block x 0"
  by (auto simp: free_block_ok_def direct_block_def)

lemma free_blocks_ok_cong: "(\<And>x. x \<in> set bs \<Longrightarrow> sz x = sz' x) \<Longrightarrow> free_blocks_ok sz bs \<longleftrightarrow> free_blocks_ok sz' bs"
  unfolding free_blocks_ok_def free_block_ok_def sorted_wrt_iff_nth_less by simp

lemma free_blocks_ok_sorted: "free_blocks_ok sz bs \<Longrightarrow> sorted_wrt (<) bs"
  unfolding free_blocks_ok_def free_block_ok_def by (auto elim!: sorted_wrt_mono_rel [rotated] simp: word_less_nat_alt)

lemma free_blocks_ok_distinct: "free_blocks_ok sz bs \<Longrightarrow> distinct bs"
  using free_blocks_ok_sorted [of sz bs] by (simp add: strict_sorted_iff)

lemma free_blocks_ok_insert:
  assumes "free_blocks_ok sz (as @ cs)" "\<forall>a \<in> set as. a < b" "\<forall>c \<in> set cs. b < c" "free_block_ok sz b"
    and "\<And>x. x \<in> set (as @ cs) \<Longrightarrow> {unat b..<unat b + unat (sz b)} \<inter> {unat x..<unat x + unat (sz x)} = {}"
  shows "free_blocks_ok sz (as @ b # cs)"
proof -
  have sep: "x < y \<Longrightarrow> unat x + unat (sz x) \<le> unat y"
    if "{unat x..<unat x + unat (sz x)} \<inter> {unat y..<unat y + unat (sz y)} = {}" "free_block_ok sz y" for x y
    using that by (auto simp: free_block_ok_def word_less_nat_alt)
  have "unat a + unat (sz a) \<le> unat b" if "a \<in> set as" for a
    using assms(2,4) assms(5) [of a] that by (intro sep) auto
  moreover have "unat b + unat (sz b) \<le> unat c" if "c \<in> set cs" for c
    using assms(1,3) assms(5) [of c] that by (intro sep) (auto simp: free_blocks_ok_def)
  ultimately show ?thesis using assms(1,4) by (auto simp: free_blocks_ok_def sorted_wrt_append)
qed

lemma intervals_far: "{a..<a + n} \<inter> {b..<b + m} = {} \<Longrightarrow> 16 \<le> n \<Longrightarrow> 16 \<le> m \<Longrightarrow> a + 16 \<le> b \<or> b + 16 \<le> (a :: nat)"
  by auto

lemma free_blocks_ok_far:
  assumes "free_blocks_ok sz bs" "x \<in> set bs" "y \<in> set bs" "x \<noteq> y"
  shows "unat x + 16 \<le> unat y \<or> unat y + 16 \<le> unat x"
proof -
  have "unat x + unat (sz x) \<le> unat y \<or> unat y + unat (sz y) \<le> unat x"
    using assms by (auto simp: free_blocks_ok_def sorted_wrt_iff_nth_less in_set_conv_nth) (metis nat_neq_iff)
  then show ?thesis using assms by (auto simp: free_blocks_ok_def free_block_ok_def)
qed

lemma heap_field_updates [simp]:
  "block_size (h\<lparr>kernel_heap_free_list := f\<rparr>) = block_size h" "block_next (h\<lparr>kernel_heap_free_list := f\<rparr>) = block_next h"
  "block_size (h\<lparr>kernel_heap_small_free_blocks := n\<rparr>) = block_size h" "block_next (h\<lparr>kernel_heap_small_free_blocks := n\<rparr>) = block_next h"
  "block_size (h\<lparr>kernel_heap_small_free_bytes := n\<rparr>) = block_size h" "block_next (h\<lparr>kernel_heap_small_free_bytes := n\<rparr>) = block_next h"
  by (simp_all add: fun_eq_iff header_access heap_ram_def heap_at_def)

lemma heap_ram_updates [simp]:
  "heap_ram (h\<lparr>kernel_heap_free_list := f\<rparr>) = heap_ram h" "heap_ram (h\<lparr>kernel_heap_small_free_blocks := n\<rparr>) = heap_ram h"
  "heap_ram (h\<lparr>kernel_heap_small_free_bytes := n\<rparr>) = heap_ram h"
  by (simp_all add: heap_ram_def)

lemma set_keeps_list [simp]:
  "kernel_heap_free_list (set_size b v0 h) = kernel_heap_free_list h" "kernel_heap_free_list (set_magic b v1 h) = kernel_heap_free_list h"
  "kernel_heap_free_list (set_flags b v2 h) = kernel_heap_free_list h" "kernel_heap_free_list (set_order b v3 h) = kernel_heap_free_list h"
  "kernel_heap_free_list (set_reserved b v4 h) = kernel_heap_free_list h" "kernel_heap_free_list (set_next b v6 h) = kernel_heap_free_list h"
  "kernel_heap_small_free_blocks (set_size b v0 h) = kernel_heap_small_free_blocks h" "kernel_heap_small_free_blocks (set_magic b v1 h) = kernel_heap_small_free_blocks h"
  "kernel_heap_small_free_blocks (set_flags b v2 h) = kernel_heap_small_free_blocks h" "kernel_heap_small_free_blocks (set_order b v3 h) = kernel_heap_small_free_blocks h"
  "kernel_heap_small_free_blocks (set_reserved b v4 h) = kernel_heap_small_free_blocks h" "kernel_heap_small_free_blocks (set_next b v6 h) = kernel_heap_small_free_blocks h"
  "kernel_heap_small_free_bytes (set_size b v0 h) = kernel_heap_small_free_bytes h" "kernel_heap_small_free_bytes (set_magic b v1 h) = kernel_heap_small_free_bytes h"
  "kernel_heap_small_free_bytes (set_flags b v2 h) = kernel_heap_small_free_bytes h" "kernel_heap_small_free_bytes (set_order b v3 h) = kernel_heap_small_free_bytes h"
  "kernel_heap_small_free_bytes (set_reserved b v4 h) = kernel_heap_small_free_bytes h" "kernel_heap_small_free_bytes (set_next b v6 h) = kernel_heap_small_free_bytes h"
  by (simp_all add: header_access with_ram_def)

section \<open>Inserting a block\<close>

lemma find_place_sorted:
  assumes "chain (block_next h) p (p # xs)" "sorted_wrt (<) (p # xs)" "p < b" "b \<notin> set xs"
  shows "\<exists>as q cs. p # xs = as @ q # cs \<and> heap_find_place h b p = Some q \<and> q < b \<and> (\<forall>y \<in> set cs. b < y)"
  using assms
proof (induction xs arbitrary: p)
  case Nil
  then show ?case by (intro exI [of _ "[]"] exI [of _ p]) (simp add: heap_find_place.simps)
next
  case (Cons y ys)
  then have n: "block_next h p = y" "y \<noteq> 0" by auto
  show ?case
  proof (cases "y < b")
    case True
    obtain as q cs where "y # ys = as @ q # cs" "heap_find_place h b y = Some q" "q < b" "\<forall>y \<in> set cs. b < y"
      using Cons.IH [of y] Cons.prems n True by auto
    then show ?thesis using n True by (intro exI [of _ "p # as"] exI [of _ q] exI [of _ cs]) (simp add: heap_find_place.simps [of h b p])
  next
    case False
    then have "b < y" using Cons.prems(4) by auto
    then show ?thesis using n Cons.prems by (intro exI [of _ "[]"] exI [of _ p] exI [of _ "y # ys"]) (auto simp: heap_find_place.simps [of h b p])
  qed
qed

definition far_from :: "u32 \<Rightarrow> u32 set \<Rightarrow> bool" where
  "far_from x S \<longleftrightarrow> (\<forall>y \<in> S. unat x + 16 \<le> unat y \<or> unat y + 16 \<le> unat x)"

lemma far_fromD:
  assumes "far_from x S" "b \<in> S" "direct_block x k" "direct_block b n"
  shows "same_header h (set_size b v0 h) x" "same_header h (set_magic b v1 h) x" "same_header h (set_flags b v2 h) x"
    "same_header h (set_order b v3 h) x" "same_header h (set_reserved b v4 h) x" "same_header h (set_next b v6 h) x"
  using assms by (auto simp: far_from_def intro!: set_far)

lemma listed_direct: "free_blocks_ok sz bs \<Longrightarrow> x \<in> set bs \<Longrightarrow> direct_block x 0"
  using free_block_ok_direct by (auto simp: free_blocks_ok_def)

lemma listed_kept:
  assumes "free_blocks_ok sz bs" "x \<in> set bs" "direct_block b n" "far_from b (set bs)"
  shows "same_header h (set_size b v0 h) x" "same_header h (set_magic b v1 h) x" "same_header h (set_flags b v2 h) x"
    "same_header h (set_order b v3 h) x" "same_header h (set_reserved b v4 h) x" "same_header h (set_next b v6 h) x"
  using assms listed_direct [OF assms(1,2)] by (auto simp: far_from_def intro!: set_far)

lemma linked_after:
  assumes ok: "free_blocks_ok (block_size h) bs" and q: "q \<in> set bs" and b: "direct_block b 0" and far: "far_from b (set bs)"
  defines "h' \<equiv> set_next q b (set_next b (block_next h q) h)"
  shows "x \<in> insert b (set bs) \<Longrightarrow> block_next h' x = ((block_next h)(b := block_next h q, q := b)) x \<and> block_size h' x = block_size h x"
    "direct_block x 0 \<Longrightarrow> far_from x (insert b (set bs)) \<Longrightarrow> same_header h h' x"
proof -
  let ?h1 = "set_next b (block_next h q) h"
  note d = listed_direct [OF ok]
  have qb: "q \<noteq> b" and dq: "direct_block q 0" using far q d by (auto simp: far_from_def)
  have f: "same_header h ?h1 x" if "x \<in> set bs" for x by (rule listed_kept(6) [OF ok that b far])
  have fq: "same_header ?h1 h' x" if "x \<in> insert b (set bs)" "x \<noteq> q" for x
    unfolding h'_def using that free_blocks_ok_far [OF ok, of q x] far q d b dq by (intro set_far [OF dq, of x]) (auto simp: far_from_def)
  show "block_next h' x = ((block_next h)(b := block_next h q, q := b)) x \<and> block_size h' x = block_size h x" if x: "x \<in> insert b (set bs)"
  proof -
    consider (q) "x = q" | (b) "x = b" | (other) "x \<in> set bs" "x \<noteq> q" "x \<noteq> b" using x by blast
    then show ?thesis
    proof cases
      case q
      then show ?thesis using same_headerD(1) [OF f dq] assms(2) by (simp add: h'_def header_same [OF dq] header_other [OF dq])
    next
      case b
      then show ?thesis using same_headerD(1,5) [OF fq assms(3)] qb by (simp add: header_same [OF assms(3)] header_other [OF assms(3)])
    next
      case other
      then show ?thesis using same_headerD(1,5) [OF same_header_trans [OF f fq] d, of x] by simp
    qed
  qed
  show "same_header h h' x" if x: "direct_block x 0" "far_from x (insert b (set bs))"
  proof -
    have "same_header h ?h1 x" "same_header ?h1 h' x"
      unfolding h'_def using far_fromD(6) [OF x(2) _ x(1) b] far_fromD(6) [OF x(2) _ x(1) dq] q by simp_all
    then show ?thesis by (rule same_header_trans)
  qed
qed

lemma heap_link_effect:
  assumes ch: "chain (block_next h) (kernel_heap_free_list h) bs" and ok: "free_blocks_ok (block_size h) bs"
    and b: "direct_block b 0" and far: "far_from b (set bs)"
  obtains h' as cs where "bs = as @ cs" "\<forall>a \<in> set as. a < b" "\<forall>c \<in> set cs. b < c" "heap_link b h = Some h'"
    "chain (block_next h') (kernel_heap_free_list h') (as @ b # cs)" "\<And>x. x \<in> insert b (set bs) \<Longrightarrow> block_size h' x = block_size h x"
    "kernel_heap_small_free_blocks h' = kernel_heap_small_free_blocks h" "kernel_heap_small_free_bytes h' = kernel_heap_small_free_bytes h"
    "\<And>x. direct_block x 0 \<Longrightarrow> far_from x (insert b (set bs)) \<Longrightarrow> same_header h h' x"
proof -
  have s: "sorted_wrt (<) bs" and nb: "b \<notin> set bs" using free_blocks_ok_sorted [OF ok] far by (auto simp: far_from_def)
  show thesis
  proof (cases "kernel_heap_free_list h = 0 \<or> b < kernel_heap_free_list h")
    case True
    let ?h = "(set_next b (kernel_heap_free_list h) h)\<lparr>kernel_heap_free_list := b\<rparr>"
    have f: "block_next ?h x = block_next h x" "block_size ?h x = block_size h x" if "x \<in> set bs" for x
      using same_headerD(1,5) [OF listed_kept(6) [OF ok that b far] listed_direct [OF ok that]] by simp_all
    show thesis
    proof (rule that [of "[]" bs ?h])
      show "\<forall>c \<in> set bs. b < c" using True ch s by (cases bs) auto
      show "chain (block_next ?h) (kernel_heap_free_list ?h) ([] @ b # bs)"
        using ch f chain_cong [of bs "block_next ?h" "block_next h"] b by (simp add: header_same [OF b] direct_block_def)
      show "block_size ?h x = block_size h x" if "x \<in> insert b (set bs)" for x using that f by (auto simp: header_other [OF b])
    qed (use True far_fromD(6) b in \<open>auto simp: heap_link_def same_header_def\<close>)
  next
    case False
    then obtain xs where bs: "bs = kernel_heap_free_list h # xs" using ch chain_nonnull by blast
    obtain as q cs where q: "bs = as @ q # cs" "heap_find_place h b (kernel_heap_free_list h) = Some q" "q < b" "\<forall>y \<in> set cs. b < y"
      using find_place_sorted [of h "kernel_heap_free_list h" xs b] ch s nb False bs by force
    let ?h = "set_next q b (set_next b (block_next h q) h)"
    have "q \<in> set bs" using q(1) by simp
    note linked = linked_after [OF ok this b far]
    show thesis
    proof (rule that [of "as @ [q]" cs ?h])
      show "\<forall>a \<in> set (as @ [q]). a < b" using s q(1,3) by (auto simp: sorted_wrt_append)
      have "chain ((block_next h)(b := block_next h q, q := b)) (kernel_heap_free_list h) (as @ q # b # cs)"
        using ch free_blocks_ok_distinct [OF ok] nb b by (intro chain_insert_after) (simp_all add: q(1) direct_block_def)
      moreover have "chain (block_next ?h) p (as @ q # b # cs) \<longleftrightarrow>
          chain ((block_next h)(b := block_next h q, q := b)) p (as @ q # b # cs)" for p
        by (rule chain_cong) (rule conjunct1 [OF linked(1)], use q(1) in auto)
      ultimately show "chain (block_next ?h) (kernel_heap_free_list ?h) ((as @ [q]) @ b # cs)" by simp
      show "heap_link b h = Some ?h" using q(2) False by (simp add: heap_link_def)
    qed (use q(1,4) linked in simp_all)
  qed
qed

lemma sum_sizes_cong: "(\<And>x. x \<in> set xs \<Longrightarrow> f x = g x) \<Longrightarrow> sum_list (map f xs) = sum_list (map g xs)"
  by (metis map_cong)

lemma first_fit_invD:
  assumes "first_fit_inv h bs"
  shows "chain (block_next h) (kernel_heap_free_list h) bs" "free_blocks_ok (block_size h) bs"
    "kernel_heap_small_free_blocks h = of_nat (length bs)" "kernel_heap_small_free_bytes h = sum_list (map (block_size h) bs)"
  using assms by (simp_all add: first_fit_inv_def)

lemma first_fit_inv_cong:
  assumes "first_fit_inv h bs" "\<And>x. x \<in> set bs \<Longrightarrow> same_header h h' x" "kernel_heap_free_list h' = kernel_heap_free_list h"
    "kernel_heap_small_free_blocks h' = kernel_heap_small_free_blocks h" "kernel_heap_small_free_bytes h' = kernel_heap_small_free_bytes h"
  shows "first_fit_inv h' bs"
proof -
  have e: "block_size h' x = block_size h x" "block_next h' x = block_next h x" if "x \<in> set bs" for x
    using same_headerD(1,5) [OF assms(2) listed_direct [OF first_fit_invD(2) [OF assms(1)]]] that by auto
  have "sum_list (map (block_size h') bs) = sum_list (map (block_size h) bs)" using e by (intro sum_sizes_cong)
  then show ?thesis
    using assms chain_cong [of bs "block_next h'" "block_next h"] free_blocks_ok_cong [of bs "block_size h'" "block_size h"] e
    by (simp add: first_fit_inv_def)
qed

lemma interval_far:
  assumes "free_blocks_ok (block_size h) bs" "{unat b..<unat b + n} \<inter> covered h bs = {}" "16 \<le> n"
  shows "far_from b (set bs)"
  unfolding far_from_def
proof
  fix x assume x: "x \<in> set bs"
  then have "{unat b..<unat b + n} \<inter> {unat x..<unat x + unat (block_size h x)} = {}" using assms(2) unfolding covered_def block_bytes_def by blast
  then show "unat b + 16 \<le> unat x \<or> unat x + 16 \<le> unat b"
    using assms(1,3) x by (intro intervals_far [of _ n _ "unat (block_size h x)"]) (auto simp: free_blocks_ok_def free_block_ok_def)
qed

lemma disjoint_far:
  assumes "free_blocks_ok (block_size h) bs" "free_block_ok (block_size h) b" "block_bytes h b \<inter> covered h bs = {}"
  shows "far_from b (set bs)"
  using assms by (intro interval_far [of h bs b "unat (block_size h b)"]) (auto simp: block_bytes_def free_block_ok_def)

lemma add_free_block_effect:
  assumes inv: "first_fit_inv h bs" and b: "free_block_ok (block_size h) b" and disj: "block_bytes h b \<inter> covered h bs = {}"
  obtains h' as cs where "bs = as @ cs" "kernel_heap_add_free_block b h = Some h'" "first_fit_inv h' (as @ b # cs)"
    "\<And>x. x \<in> insert b (set bs) \<Longrightarrow> block_size h' x = block_size h x"
    "\<And>x. direct_block x 0 \<Longrightarrow> far_from x (insert b (set bs)) \<Longrightarrow> same_header h h' x"
proof -
  let ?h1 = "set_order b 0 (set_flags b 1 (set_magic b 0x4C50 h))"
  note ok = first_fit_invD(2) [OF inv]
  note d = free_block_ok_direct [OF b] and far = disjoint_far [OF ok b disj]
  have s: "same_header h ?h1 x" if "x \<in> set bs" for x
    using listed_kept [OF ok that d far] by (blast intro: same_header_trans)
  have inv1: "first_fit_inv ?h1 bs" by (rule first_fit_inv_cong [OF inv s]) simp_all
  have z: "block_size ?h1 x = block_size h x" if "x \<in> insert b (set bs)" for x
    using that same_headerD(1) [OF s listed_direct [OF ok]] by (auto simp: header_other [OF d])
  obtain h' as cs where l: "bs = as @ cs" "\<forall>a \<in> set as. a < b" "\<forall>c \<in> set cs. b < c" "heap_link b ?h1 = Some h'"
    "chain (block_next h') (kernel_heap_free_list h') (as @ b # cs)" "\<And>x. x \<in> insert b (set bs) \<Longrightarrow> block_size h' x = block_size ?h1 x"
    "kernel_heap_small_free_blocks h' = kernel_heap_small_free_blocks ?h1" "kernel_heap_small_free_bytes h' = kernel_heap_small_free_bytes ?h1"
    "\<And>x. direct_block x 0 \<Longrightarrow> far_from x (insert b (set bs)) \<Longrightarrow> same_header ?h1 h' x"
    by (rule heap_link_effect [OF first_fit_invD(1,2) [OF inv1] d far]) (rule that)
  let ?h = "h'\<lparr>kernel_heap_small_free_blocks := kernel_heap_small_free_blocks h' + 1,
    kernel_heap_small_free_bytes := kernel_heap_small_free_bytes h' + block_size h' b\<rparr>"
  have sz: "block_size ?h x = block_size h x" if "x \<in> insert b (set bs)" for x using l(6) z that by simp
  have "{unat b..<unat b + unat (block_size h b)} \<inter> {unat x..<unat x + unat (block_size h x)} = {}" if "x \<in> set (as @ cs)" for x
    using disj that unfolding block_bytes_def covered_def l(1) by blast
  then have "free_blocks_ok (block_size h) (as @ b # cs)"
    using ok by (intro free_blocks_ok_insert l(2,3) b) (simp_all only: l(1))
  then have "free_blocks_ok (block_size ?h) (as @ b # cs)"
    using free_blocks_ok_cong [of "as @ b # cs" "block_size ?h" "block_size h"] sz l(1) by simp
  moreover have "sum_list (map (block_size h') (as @ cs)) = sum_list (map (block_size h) (as @ cs))"
    using sz l(1) by (intro sum_sizes_cong) simp
  ultimately have inv': "first_fit_inv ?h (as @ b # cs)"
    using first_fit_invD(3,4) [OF inv] l(1,5,7,8) sz by (simp add: first_fit_inv_def)
  have frame: "same_header h ?h x" if x: "direct_block x 0" "far_from x (insert b (set bs))" for x
  proof -
    note f = far_fromD [OF x(2) insertI1 x(1) d]
    have "same_header h h' x" by (rule same_header_trans [OF same_header_trans [OF same_header_trans [OF f(2) f(3)] f(4)] l(9) [OF x]])
    then show ?thesis by (simp add: same_header_def)
  qed
  show thesis by (rule that [OF l(1) _ inv' sz frame]) (use l(4) in \<open>simp_all add: kernel_heap_add_free_block_def\<close>)
qed

section \<open>Merging\<close>

lemma free_block_end:
  assumes "free_block_ok sz x"
  shows "unat (x + sz x) = unat x + unat (sz x)"
  using assms unat_offset [of x "unat (sz x)"] by (simp add: free_block_ok_def)

lemma end_not_listed:
  assumes ok: "free_blocks_ok sz (as @ x # cs)" and "cs = [] \<or> x + sz x \<noteq> hd cs" and y: "y \<in> set (as @ x # cs)"
  shows "x + sz x \<noteq> y"
proof
  assume e: "x + sz x = y"
  have x: "unat y = unat x + unat (sz x)" "0 < unat (sz x)"
    using ok free_block_end [of sz x] e by (auto simp: free_blocks_ok_def free_block_ok_def)
  have "y \<notin> set (as @ [x])" using ok x by (auto simp: free_blocks_ok_def free_block_ok_def sorted_wrt_append)
  then obtain c cs' where cs: "cs = c # cs'" "y \<in> set cs" using y by (cases cs) auto
  then have "y \<in> set cs'" using assms(2) e by auto
  then have "unat x + unat (sz x) + unat (sz c) \<le> unat y" "0 < unat (sz c)"
    using ok cs by (auto simp: free_blocks_ok_def free_block_ok_def sorted_wrt_append)
  then show False using x by simp
qed

lemma merge_none:
  assumes inv: "first_fit_inv h (as @ x # cs)" and "cs = [] \<or> x + block_size h x \<noteq> hd cs"
  shows "kernel_heap_merge_adjacent_blocks x h = (False, h)"
proof -
  have "chain (block_next h) (block_next h x) cs" using chain_suffix [OF first_fit_invD(1) [OF inv]] by simp
  then show ?thesis using assms(2) by (cases cs) (auto simp: kernel_heap_merge_adjacent_blocks_def)
qed

lemma free_blocks_ok_merge:
  assumes "free_blocks_ok sz (as @ x # y # cs)" "x + sz x = y" "\<And>z. z \<in> set (as @ cs) \<Longrightarrow> sz' z = sz z" "sz' x = sz x + sz y"
  shows "free_blocks_ok sz' (as @ x # cs)" "unat (sz' x) = unat (sz x) + unat (sz y)" "unat y = unat x + unat (sz x)"
proof -
  have ok: "free_block_ok sz x" "free_block_ok sz y" using assms(1) by (auto simp: free_blocks_ok_def)
  show y: "unat y = unat x + unat (sz x)" using free_block_end [OF ok(1)] assms(2) by simp
  show z: "unat (sz' x) = unat (sz x) + unat (sz y)"
    using ok(2) y by (simp add: assms(4) unat_word_ariths free_block_ok_def)
  have "sorted_wrt (\<lambda>a b. unat a + unat (sz' a) \<le> unat b) as" "sorted_wrt (\<lambda>a b. unat a + unat (sz' a) \<le> unat b) cs"
    using assms(1,3) by (auto simp: free_blocks_ok_def sorted_wrt_append intro: sorted_wrt_mono_rel [rotated])
  then show "free_blocks_ok sz' (as @ x # cs)"
    using assms(1,3) ok y z by (auto simp: free_blocks_ok_def free_block_ok_def sorted_wrt_append)
qed

lemma merge_effect:
  assumes inv: "first_fit_inv h (as @ x # y # cs)" and adj: "x + block_size h x = y"
  obtains h' where "kernel_heap_merge_adjacent_blocks x h = (True, h')" "first_fit_inv h' (as @ x # cs)"
    "covered h' (as @ x # cs) = covered h (as @ x # y # cs)" "\<And>z. z \<in> set (as @ cs) \<Longrightarrow> block_size h' z = block_size h z"
proof -
  let ?h1 = "set_size x (block_size h x + block_size h y) h"
  let ?h2 = "set_next x (block_next ?h1 y) ?h1"
  let ?h = "?h2\<lparr>kernel_heap_small_free_blocks := kernel_heap_small_free_blocks ?h2 - 1\<rparr>"
  note ok = first_fit_invD(2) [OF inv] and ch = first_fit_invD(1) [OF inv]
  have d: "direct_block z 0" if "z \<in> set (as @ x # y # cs)" for z by (rule listed_direct [OF ok that])
  have dx: "direct_block x 0" and n: "block_next h x = y" "x \<noteq> 0" "y \<noteq> 0" using d chain_suffix [OF ch] by auto
  have dist: "distinct (as @ x # y # cs)" by (rule free_blocks_ok_distinct [OF ok])
  have f: "same_header h ?h1 z" "same_header ?h1 ?h2 z" if "z \<in> set (as @ y # cs)" for z
    using free_blocks_ok_far [OF ok, of x z] that d dx dist by (auto intro!: set_far)
  have k: "block_size ?h z = block_size h z" "block_next ?h z = block_next h z" if "z \<in> set (as @ y # cs)" for z
    using same_headerD(1,5) [OF same_header_trans [OF f] d] that by auto
  have x: "block_size ?h x = block_size h x + block_size h y" "block_next ?h x = block_next h y"
    using same_headerD(5) [OF f(1) d, of y] by (simp_all add: header_same [OF dx] header_other [OF dx])
  have "block_next ?h z = ((block_next h)(x := block_next h y)) z" if "z \<in> set (as @ x # cs)" for z
    using that k(2) [of z] x(2) dist by (cases "z = x") auto
  then have "chain (block_next ?h) p (as @ x # cs) \<longleftrightarrow> chain ((block_next h)(x := block_next h y)) p (as @ x # cs)" for p
    by (rule chain_cong)
  then have c: "chain (block_next ?h) (kernel_heap_free_list ?h) (as @ x # cs)" using chain_remove_middle [OF ch dist] by simp
  have m: "free_blocks_ok (block_size ?h) (as @ x # cs)" "unat (block_size ?h x) = unat (block_size h x) + unat (block_size h y)"
    "unat y = unat x + unat (block_size h x)"
    by (rule free_blocks_ok_merge [OF ok adj, of "block_size ?h", OF k(1) x(1)]; simp)+
  have "map (block_size ?h) as = map (block_size h) as" "map (block_size ?h) cs = map (block_size h) cs" using k(1) by auto
  then have "sum_list (map (block_size ?h) (as @ x # cs)) = sum_list (map (block_size h) (as @ x # y # cs))"
    unfolding map_append list.map sum_list_append sum_list.Cons x(1) by (simp only: add.assoc)
  then have "first_fit_inv ?h (as @ x # cs)" using c m(1) first_fit_invD(3,4) [OF inv] unfolding first_fit_inv_def by simp
  moreover have "block_bytes ?h x = block_bytes h x \<union> block_bytes h y" using m(2,3) by (auto simp: block_bytes_def)
  then have "covered ?h (as @ x # cs) = covered h (as @ x # y # cs)" using k(1) by (auto simp: covered_def block_bytes_def)
  moreover have "kernel_heap_merge_adjacent_blocks x h = (True, ?h)"
    using n adj by (simp add: kernel_heap_merge_adjacent_blocks_def Let_def header_other [OF dx])
  ultimately show thesis using that k(1) by auto
qed

lemma merge_loop_effect:
  assumes "first_fit_inv h (as @ x # cs)"
  shows "\<exists>h' ds cs'. cs = ds @ cs' \<and> heap_merge_loop x h = Some h' \<and> first_fit_inv h' (as @ x # cs') \<and>
    covered h' (as @ x # cs') = covered h (as @ x # cs) \<and> (\<forall>z \<in> set (as @ cs'). block_size h' z = block_size h z) \<and>
    (\<forall>y \<in> set (as @ x # cs'). x + block_size h' x \<noteq> y)"
  using assms
proof (induction cs arbitrary: h)
  case Nil
  then show ?case
    using merge_none [OF Nil] end_not_listed [OF first_fit_invD(2) [OF Nil]]
    by (intro exI [of _ h] exI [of _ "[]"] exI [of _ "[]"]) (simp add: heap_merge_loop.simps [of x h] del: add_cancel_right_right)
next
  case (Cons y cs)
  show ?case
  proof (cases "x + block_size h x = y")
    case True
    obtain h1 where h1: "kernel_heap_merge_adjacent_blocks x h = (True, h1)" "first_fit_inv h1 (as @ x # cs)"
      "covered h1 (as @ x # cs) = covered h (as @ x # y # cs)" "\<And>z. z \<in> set (as @ cs) \<Longrightarrow> block_size h1 z = block_size h z"
      by (rule merge_effect [OF Cons.prems True]) (rule that)
    obtain h' ds cs' where h': "cs = ds @ cs'" "heap_merge_loop x h1 = Some h'" "first_fit_inv h' (as @ x # cs')"
      "covered h' (as @ x # cs') = covered h1 (as @ x # cs)" "\<forall>z \<in> set (as @ cs'). block_size h' z = block_size h1 z"
      "\<forall>y \<in> set (as @ x # cs'). x + block_size h' x \<noteq> y"
      using Cons.IH [OF h1(2)] by blast
    have "\<forall>z \<in> set (as @ cs'). block_size h' z = block_size h z" using h'(1,5) h1(4) by auto
    then show ?thesis
      using h' h1 by - (rule exI [of _ h'], rule exI [of _ "y # ds"], rule exI [of _ cs'], simp add: heap_merge_loop.simps [of x h])
  next
    case False
    then show ?thesis
      using merge_none [OF Cons.prems] end_not_listed [OF first_fit_invD(2) [OF Cons.prems]] Cons.prems
      by - (rule exI [of _ h], rule exI [of _ "[]"], rule exI [of _ "y # cs"], simp add: heap_merge_loop.simps [of x h] del: add_cancel_right_right)
  qed
qed

lemma find_before_effect:
  assumes "chain (block_next h) p (as @ x # cs)" "distinct (as @ x # cs)"
  shows "heap_find_before h x prev p = Some (if as = [] then prev else last as)"
  using assms
proof (induction as arbitrary: p prev)
  case Nil
  then show ?case by (simp add: heap_find_before.simps)
next
  case (Cons a as)
  then show ?case by (simp add: heap_find_before.simps [of h x prev])
qed

text \<open>No listed block ends where another one starts.\<close>

definition coalesced :: "heap \<Rightarrow> u32 set \<Rightarrow> bool" where
  "coalesced h S \<longleftrightarrow> (\<forall>x \<in> S. \<forall>y \<in> S. x + block_size h x \<noteq> y)"

lemma before_not_adjacent:
  assumes ok: "free_blocks_ok sz (as @ p # x # cs)" and a: "a \<in> set as"
  shows "a + sz a \<noteq> x"
proof -
  have "unat a + unat (sz a) \<le> unat p" "unat p + unat (sz p) \<le> unat x" "0 < unat (sz p)" "free_block_ok sz a"
    using assms by (auto simp: free_blocks_ok_def free_block_ok_def sorted_wrt_append)
  then show ?thesis using free_block_end [of sz a] by auto
qed

lemma after_not_adjacent:
  assumes ok: "free_blocks_ok sz (as @ x # cs)" and c: "c \<in> set cs"
  shows "c + sz c \<noteq> x"
proof -
  have "unat x + unat (sz x) \<le> unat c" "0 < unat (sz x)" "free_block_ok sz c"
    using assms by (auto simp: free_blocks_ok_def free_block_ok_def sorted_wrt_append)
  then show ?thesis using free_block_end [of sz c] by auto
qed

lemma merged_right:
  assumes ok: "free_blocks_ok (block_size h1) (as @ x # cs)" and co: "coalesced h (set (as @ cs))"
    and kept: "\<forall>z \<in> set (as @ cs). block_size h1 z = block_size h z" and x: "\<forall>y \<in> set (as @ x # cs). x + block_size h1 x \<noteq> y"
    and u: "u \<in> set (as @ x # cs)" "v \<in> set (as @ x # cs)" and as: "as = [] \<or> u \<noteq> last as"
  shows "u + block_size h1 u \<noteq> v"
proof -
  consider "u = x" | "u \<in> set (as @ cs)" "v \<in> set (as @ cs)" | "u \<in> set cs" "v = x" | "u \<in> set as" "v = x" using u by auto
  then show ?thesis
  proof cases
    case 4
    then obtain as0 p where "as = as0 @ [p]" "u \<in> set as0" using as by (cases as rule: rev_cases) auto
    then show ?thesis using before_not_adjacent [of "block_size h1" as0 p x cs u] ok 4 by simp
  qed (use x u co kept after_not_adjacent [OF ok] in \<open>auto simp: coalesced_def\<close>)
qed

lemma coalesce_effect:
  assumes inv: "first_fit_inv h (as @ x # cs)" and co: "coalesced h (set (as @ cs))"
  shows "\<exists>h' bs'. kernel_heap_coalesce_around x h = Some h' \<and> first_fit_inv h' bs' \<and> covered h' bs' = covered h (as @ x # cs) \<and>
    coalesced h' (set bs')"
proof -
  obtain h1 ds cs1 where h1: "cs = ds @ cs1" "heap_merge_loop x h = Some h1" "first_fit_inv h1 (as @ x # cs1)"
    "covered h1 (as @ x # cs1) = covered h (as @ x # cs)" "\<forall>z \<in> set (as @ cs1). block_size h1 z = block_size h z"
    "\<forall>y \<in> set (as @ x # cs1). x + block_size h1 x \<noteq> y"
    using merge_loop_effect [OF inv] by blast
  have nz: "x \<noteq> 0" "0 \<notin> set as" using chain_not_null [OF first_fit_invD(1) [OF inv]] by auto
  note fb = find_before_effect [OF first_fit_invD(1) [OF h1(3)] free_blocks_ok_distinct [OF first_fit_invD(2) [OF h1(3)]], of 0]
  have co1: "coalesced h (set (as @ cs1))" using co h1(1) by (auto simp: coalesced_def)
  note mr = merged_right [OF first_fit_invD(2) [OF h1(3)] co1 h1(5,6)]
  show ?thesis
  proof (cases as rule: rev_cases)
    case Nil
    have "coalesced h1 (set (x # cs1))" using mr Nil by (simp add: coalesced_def)
    then show ?thesis using h1(2-4) fb nz Nil by (auto simp: kernel_heap_coalesce_around_def)
  next
    case (snoc as0 p)
    have inv1: "first_fit_inv h1 (as0 @ p # x # cs1)" using h1(3) snoc by simp
    obtain h2 ds2 cs2 where h2: "x # cs1 = ds2 @ cs2" "heap_merge_loop p h1 = Some h2" "first_fit_inv h2 (as0 @ p # cs2)"
      "covered h2 (as0 @ p # cs2) = covered h1 (as0 @ p # x # cs1)" "\<forall>z \<in> set (as0 @ cs2). block_size h2 z = block_size h1 z"
      "\<forall>y \<in> set (as0 @ p # cs2). p + block_size h2 p \<noteq> y"
      using merge_loop_effect [OF inv1] by blast
    have sub: "set cs2 \<subseteq> insert x (set cs1)" using h2(1) by (metis list.simps(15) set_append sup_ge2)
    have "u + block_size h2 u \<noteq> v" if "u \<in> set (as0 @ p # cs2)" "v \<in> set (as0 @ p # cs2)" for u v
      using that h2(5,6) mr [of u v] sub snoc by (cases "u = p") auto
    then have "coalesced h2 (set (as0 @ p # cs2))" by (simp add: coalesced_def)
    then show ?thesis using h1(2,4) h2(2-4) fb nz snoc by (auto simp: kernel_heap_coalesce_around_def)
  qed
qed

section \<open>Taking a block\<close>

lemma heap_scan_effect:
  assumes "chain (block_next h) p (as @ x # cs)" "\<forall>a \<in> set as. \<not> want \<le> block_size h a" "want \<le> block_size h x"
  shows "heap_scan h want prev p = Some (if as = [] then prev else last as, x)"
  using assms
proof (induction as arbitrary: p prev)
  case Nil
  then show ?case by (simp add: heap_scan.simps)
next
  case (Cons a as)
  then show ?case by (simp add: heap_scan.simps [of h want prev])
qed

lemma unlinked_fields:
  assumes ok: "free_blocks_ok (block_size h) bs" and x: "x \<in> set bs" and p: "p = 0 \<or> p \<in> set bs" "p \<noteq> x"
  shows "same_header h (heap_unlink p x h) x" "\<And>y. y \<in> set bs \<Longrightarrow> block_size (heap_unlink p x h) y = block_size h y"
    "\<And>y. y \<in> set bs \<Longrightarrow> block_next (heap_unlink p x h) y = (if p \<noteq> 0 then (block_next h)(p := block_next h x) else block_next h) y"
proof -
  have s: "same_header h (set_next p (block_next h x) h) y" if "y \<in> set bs" "p \<noteq> 0" "y \<noteq> p" for y
    using free_blocks_ok_far [OF ok, of p y] p that listed_direct [OF ok] by (auto intro!: set_far)
  then show "same_header h (heap_unlink p x h) x" using x p by (simp add: heap_unlink_def Let_def same_header_def)
  fix y assume y: "y \<in> set bs"
  have "block_size (set_next p (block_next h x) h) y = block_size h y \<and>
      block_next (set_next p (block_next h x) h) y = ((block_next h)(p := block_next h x)) y" if "p \<noteq> 0"
  proof (cases "y = p")
    case True
    then show ?thesis using listed_direct [OF ok y] by (simp add: header_same header_other)
  next
    case False
    then show ?thesis using same_headerD(1,5) [OF s listed_direct [OF ok y]] y that by simp
  qed
  then show "block_size (heap_unlink p x h) y = block_size h y"
    "block_next (heap_unlink p x h) y = (if p \<noteq> 0 then (block_next h)(p := block_next h x) else block_next h) y"
    by (simp_all add: heap_unlink_def Let_def)
qed

lemma free_blocks_ok_remove: "free_blocks_ok sz (as @ x # cs) \<Longrightarrow> free_blocks_ok sz (as @ cs)"
  by (auto simp: free_blocks_ok_def sorted_wrt_append)

lemma unlink_effect:
  assumes inv: "first_fit_inv h (as @ x # cs)" and p: "p = (if as = [] then 0 else last as)"
  shows "first_fit_inv (heap_unlink p x h) (as @ cs)"
proof -
  let ?h = "heap_unlink p x h"
  note ok = first_fit_invD(2) [OF inv] and ch = first_fit_invD(1) [OF inv]
  have dist: "distinct (as @ x # cs)" by (rule free_blocks_ok_distinct [OF ok])
  have "p = 0 \<or> p \<in> set (as @ x # cs)" "p \<noteq> x" using p dist chain_not_null [OF ch] by auto
  note u = unlinked_fields [OF ok _ this, simplified]
  have "chain (block_next ?h) (kernel_heap_free_list ?h) (as @ cs)"
  proof (cases as rule: rev_cases)
    case Nil
    then show ?thesis using ch p chain_cong [of cs "block_next ?h" "block_next h"] u(3) by (simp add: heap_unlink_def Let_def)
  next
    case (snoc as0 q)
    then have q: "p = q" "q \<noteq> 0" using p chain_not_null [OF ch] by auto
    have "chain (block_next ?h) r (as0 @ q # cs) \<longleftrightarrow> chain ((block_next h)(q := block_next h x)) r (as0 @ q # cs)" for r
      using u(3) q snoc by (intro chain_cong) auto
    then show ?thesis using chain_remove_middle [of "block_next h" _ as0 q x cs] ch dist snoc q by (simp add: heap_unlink_def Let_def)
  qed
  moreover have "free_blocks_ok (block_size ?h) (as @ cs)"
    using free_blocks_ok_remove [OF ok] free_blocks_ok_cong [of "as @ cs" "block_size ?h" "block_size h"] u(2) by simp
  moreover have "sum_list (map (block_size ?h) (as @ cs)) = sum_list (map (block_size h) (as @ cs))"
    using u(2) by (intro sum_sizes_cong) auto
  moreover have "block_size ?h x = block_size h x" using u(2) by simp
  moreover have "kernel_heap_small_free_blocks ?h = kernel_heap_small_free_blocks h - 1"
    "kernel_heap_small_free_bytes ?h = kernel_heap_small_free_bytes h - block_size ?h x"
    by (simp_all add: heap_unlink_def Let_def)
  ultimately show ?thesis using first_fit_invD(3,4) [OF inv] by (simp add: first_fit_inv_def)
qed

lemma first_fit_inv_far:
  assumes "first_fit_inv h bs" "direct_block b 0" "far_from b (set bs)"
  shows "first_fit_inv (set_size b v0 h) bs" "first_fit_inv (set_magic b v1 h) bs" "first_fit_inv (set_flags b v2 h) bs"
    "first_fit_inv (set_order b v3 h) bs" "first_fit_inv (set_reserved b v4 h) bs" "first_fit_inv (set_next b v6 h) bs"
  using listed_kept [OF first_fit_invD(2) [OF assms(1)] _ assms(2,3)] by (auto intro!: first_fit_inv_cong [OF assms(1)])

lemma covered_cong: "(\<And>x. x \<in> set bs \<Longrightarrow> block_size h' x = block_size h x) \<Longrightarrow> covered h' bs = covered h bs"
  by (auto simp: covered_def block_bytes_def)

lemma covered_far:
  assumes "free_blocks_ok sz bs" "direct_block b 0" "far_from b (set bs)"
  shows "covered (set_size b v0 h) bs = covered h bs" "covered (set_magic b v1 h) bs = covered h bs" "covered (set_flags b v2 h) bs = covered h bs"
    "covered (set_order b v3 h) bs = covered h bs" "covered (set_reserved b v4 h) bs = covered h bs" "covered (set_next b v6 h) bs = covered h bs"
  using same_headerD(1) [OF listed_kept(1) [OF assms(1) _ assms(2,3)] listed_direct [OF assms(1)]]
    same_headerD(1) [OF listed_kept(2) [OF assms(1) _ assms(2,3)] listed_direct [OF assms(1)]]
    same_headerD(1) [OF listed_kept(3) [OF assms(1) _ assms(2,3)] listed_direct [OF assms(1)]]
    same_headerD(1) [OF listed_kept(4) [OF assms(1) _ assms(2,3)] listed_direct [OF assms(1)]]
    same_headerD(1) [OF listed_kept(5) [OF assms(1) _ assms(2,3)] listed_direct [OF assms(1)]]
    same_headerD(1) [OF listed_kept(6) [OF assms(1) _ assms(2,3)] listed_direct [OF assms(1)]]
  by (auto intro!: covered_cong)

text \<open>The header written for the part of a block that is split off, and what becomes of the rest.\<close>

definition tail_header :: "u32 \<Rightarrow> u32 \<Rightarrow> heap \<Rightarrow> heap" where
  "tail_header tail remaining h = set_reserved tail 0 (set_next tail 0 (set_magic tail 0x4C50 (set_size tail remaining h)))"

lemma tail_header_effect:
  assumes inv: "first_fit_inv h bs" and d: "direct_block t 0" and far: "far_from t (set bs)"
  shows "first_fit_inv (tail_header t r h) bs" "covered (tail_header t r h) bs = covered h bs" "block_size (tail_header t r h) t = r"
    "direct_block x 0 \<Longrightarrow> far_from t {x} \<Longrightarrow> same_header h (tail_header t r h) x"
proof -
  note ok = first_fit_invD(2) [OF inv]
  show "first_fit_inv (tail_header t r h) bs" unfolding tail_header_def by (intro first_fit_inv_far inv d far)
  show "covered (tail_header t r h) bs = covered h bs" unfolding tail_header_def covered_far [OF ok d far] by (rule refl)
  show "block_size (tail_header t r h) t = r" by (simp add: tail_header_def header_same [OF d] header_other [OF d])
  show "same_header h (tail_header t r h) x" if "direct_block x 0" "far_from t {x}"
  proof -
    have "unat t + 16 \<le> unat x \<or> unat x + 16 \<le> unat t" using that(2) by (simp add: far_from_def)
    note f = set_far [OF d that(1) this]
    show ?thesis unfolding tail_header_def by (rule same_header_trans [OF same_header_trans [OF same_header_trans [OF f(1) f(2)] f(7)] f(5)])
  qed
qed

lemma split_effect:
  assumes inv: "first_fit_inv h bs" and x: "free_block_ok (block_size h) x" and disj: "block_bytes h x \<inter> covered h bs = {}"
    and want: "want \<le> block_size h x" "16 \<le> unat want" and rest: "32 \<le> block_size h x - want"
  obtains h' bs' where "heap_split want x h = Some h'" "first_fit_inv h' bs'" "block_size h' x = want" "far_from x (set bs')"
    "covered h' bs' = covered h bs \<union> {unat x + unat want..<unat x + unat (block_size h x)}"
proof -
  let ?t = "x + want" let ?r = "block_size h x - want"
  let ?h1 = "tail_header ?t ?r h"
  have r: "unat ?r = unat (block_size h x) - unat want" "32 \<le> unat ?r" using want(1) rest by (simp_all add: unat_sub word_le_nat_alt)
  have "unat x + unat want < 2 ^ 32" using x r by (auto simp: free_block_ok_def)
  then have t: "unat ?t = unat x + unat want" using unat_offset [of x "unat want"] by simp
  have dt: "direct_block ?t 0" and dx: "direct_block x 0"
    using x t r want(2) unat_eq_0 [of ?t] by (auto simp: direct_block_def free_block_ok_def simp del: unat_eq_zero)
  have sub: "{unat ?t..<unat ?t + unat ?r} \<subseteq> block_bytes h x" "{unat ?t..<unat ?t + unat ?r} = {unat x + unat want..<unat x + unat (block_size h x)}"
    using t r by (auto simp: block_bytes_def)
  note ok = first_fit_invD(2) [OF inv]
  have fx: "far_from x (set bs)" by (rule disjoint_far [OF ok x disj])
  have dis: "{unat ?t..<unat ?t + unat ?r} \<inter> covered h bs = {}" using disj sub(1) by blast
  have ft: "far_from ?t (set bs)" by (rule interval_far [OF ok dis]) (use r(2) in simp)
  have tx: "far_from ?t {x}" using t want(2) by (simp add: far_from_def)
  note h1 = tail_header_effect [OF inv dt ft, of ?r]
  have bt: "block_bytes ?h1 ?t = {unat ?t..<unat ?t + unat ?r}" by (simp add: block_bytes_def h1(3))
  obtain h2 as cs where h2: "bs = as @ cs" "kernel_heap_add_free_block ?t ?h1 = Some h2" "first_fit_inv h2 (as @ ?t # cs)"
    "\<And>y. y \<in> insert ?t (set bs) \<Longrightarrow> block_size h2 y = block_size ?h1 y"
    "\<And>y. direct_block y 0 \<Longrightarrow> far_from y (insert ?t (set bs)) \<Longrightarrow> same_header ?h1 h2 y"
  proof (rule add_free_block_effect [OF h1(1), of ?t])
    show "free_block_ok (block_size ?h1) ?t" using h1(3) t r x dt by (auto simp: free_block_ok_def direct_block_def)
    show "block_bytes ?h1 ?t \<inter> covered ?h1 bs = {}" unfolding bt h1(2) by (rule dis)
  qed (rule that)
  let ?bs = "as @ ?t # cs"
  have far: "far_from x (set ?bs)" using fx tx h2(1) by (auto simp: far_from_def)
  show thesis
  proof (rule that [of "set_size x want h2" ?bs])
    show "heap_split want x h = Some (set_size x want h2)" using rest h2(2) by (simp add: heap_split_def tail_header_def Let_def)
    show "first_fit_inv (set_size x want h2) ?bs" by (rule first_fit_inv_far(1) [OF h2(3) dx far])
    have "covered h2 ?bs = covered ?h1 bs \<union> block_bytes ?h1 ?t" using h2(1,4) by (auto simp: covered_def block_bytes_def)
    then show "covered (set_size x want h2) ?bs = covered h bs \<union> {unat x + unat want..<unat x + unat (block_size h x)}"
      unfolding covered_far(1) [OF first_fit_invD(2) [OF h2(3)] dx far] by (simp only: h1(2) bt sub(2))
    show "far_from x (set ?bs)" by (rule far)
  qed (simp add: header_same [OF dx])
qed

lemma split_or_keep:
  fixes want :: u32 and h :: heap and x :: u32
  defines "n \<equiv> if 32 \<le> block_size h x - want then want else block_size h x"
  assumes inv: "first_fit_inv h bs" and x: "free_block_ok (block_size h) x" and disj: "block_bytes h x \<inter> covered h bs = {}"
    and want: "want \<le> block_size h x" "16 \<le> unat want"
  obtains h' bs' where "heap_split want x h = Some h'" "first_fit_inv h' bs'" "block_size h' x = n" "far_from x (set bs')"
    "covered h' bs' = covered h bs \<union> block_bytes h x - {unat x..<unat x + unat n}"
proof (cases "32 \<le> block_size h x - want")
  case True
  obtain h' bs' where h': "heap_split want x h = Some h'" "first_fit_inv h' bs'" "block_size h' x = want" "far_from x (set bs')"
    "covered h' bs' = covered h bs \<union> {unat x + unat want..<unat x + unat (block_size h x)}"
    by (rule split_effect [OF inv x disj want True]) (rule that)
  have "{unat x..<unat x + unat want} \<subseteq> block_bytes h x"
    "{unat x + unat want..<unat x + unat (block_size h x)} = block_bytes h x - {unat x..<unat x + unat want}"
    using want(1) by (auto simp: block_bytes_def word_le_nat_alt)
  then have "covered h' bs' = covered h bs \<union> block_bytes h x - {unat x..<unat x + unat want}" using h'(5) disj by blast
  moreover have "n = want" using True by (simp add: n_def)
  ultimately show thesis using that [OF h'(1,2) _ h'(4)] h'(3) by simp
next
  case False
  have "covered h bs = covered h bs \<union> block_bytes h x - block_bytes h x" using disj by blast
  moreover have "n = block_size h x" "heap_split want x h = Some h" using False by (simp_all add: n_def heap_split_def Let_def)
  ultimately show thesis using that [OF _ inv _ disjoint_far [OF first_fit_invD(2) [OF inv] x disj]] by (simp add: block_bytes_def)
qed

lemma covered_remove:
  assumes "free_blocks_ok (block_size h) (as @ x # cs)"
  shows "covered h (as @ x # cs) = covered h (as @ cs) \<union> block_bytes h x" "block_bytes h x \<inter> covered h (as @ cs) = {}"
  using assms by (fastforce simp: covered_def block_bytes_def free_blocks_ok_def sorted_wrt_append)+

lemma take_block_effect:
  assumes inv: "first_fit_inv h (as @ x # cs)" and p: "p = (if as = [] then 0 else last as)" and want: "want \<le> block_size h x" "16 \<le> unat want"
  obtains h' bs' where "heap_take_block want p x h = Some h'" "first_fit_inv h' bs'" "block_flags h' x = 0" "block_magic h' x = 0x4C50"
    "block_size h' x = (if 32 \<le> block_size h x - want then want else block_size h x)" "covered h' bs' = covered h (as @ x # cs) - block_bytes h' x"
proof -
  let ?h1 = "heap_unlink p x h" and ?n = "if 32 \<le> block_size h x - want then want else block_size h x"
  let ?stamped = "\<lambda>h. set_next x 0 (set_order x 0 (set_flags x 0 (set_magic x 0x4C50 h)))"
  note ok = first_fit_invD(2) [OF inv]
  have x: "free_block_ok (block_size h) x" using ok by (simp add: free_blocks_ok_def)
  note dx = free_block_ok_direct [OF x]
  have "p = 0 \<or> p \<in> set (as @ x # cs)" "p \<noteq> x" using p free_blocks_ok_distinct [OF ok] x by (auto simp: free_block_ok_def)
  then have u: "block_size ?h1 y = block_size h y" if "y \<in> set (as @ x # cs)" for y
    using unlinked_fields(2) [OF ok, of x p y] that by simp
  have sz: "block_size ?h1 x = block_size h x" "covered ?h1 (as @ cs) = covered h (as @ cs)" using u by (auto intro!: covered_cong)
  then have bx: "free_block_ok (block_size ?h1) x" "block_bytes ?h1 x = block_bytes h x" using x by (simp_all add: free_block_ok_def block_bytes_def)
  note inv1 = unlink_effect [OF inv p] and cov = covered_remove [OF ok]
  have disj: "block_bytes ?h1 x \<inter> covered ?h1 (as @ cs) = {}" using cov(2) sz bx by simp
  obtain h2 bs' where h2: "heap_split want x ?h1 = Some h2" "first_fit_inv h2 bs'" "block_size h2 x = ?n" "far_from x (set bs')"
    "covered h2 bs' = covered h (as @ x # cs) - {unat x..<unat x + unat ?n}"
    by (rule split_or_keep [OF inv1 bx(1) disj, of want, unfolded sz bx(2), folded cov(1), OF want]) (rule that)
  show thesis
  proof (rule that [of "?stamped h2" bs'])
    show "heap_take_block want p x h = Some (?stamped h2)" by (simp add: heap_take_block_def h2(1))
    show "first_fit_inv (?stamped h2) bs'" by (intro first_fit_inv_far h2(2) dx h2(4))
    show "covered (?stamped h2) bs' = covered h (as @ x # cs) - block_bytes (?stamped h2) x"
      unfolding covered_far [OF first_fit_invD(2) [OF h2(2)] dx h2(4)] h2(5) by (simp add: block_bytes_def header_other [OF dx] h2(3))
  qed (simp_all add: header_same [OF dx] header_other [OF dx] h2(3))
qed

lemma find_split: "find P xs = Some x \<Longrightarrow> \<exists>as cs. xs = as @ x # cs \<and> (\<forall>a \<in> set as. \<not> P a) \<and> P x"
proof (induction xs)
  case (Cons y ys)
  show ?case
  proof (cases "P y")
    case True
    then show ?thesis using Cons.prems by - (rule exI [of _ "[]"], rule exI [of _ ys], simp)
  next
    case False
    then obtain as cs where "ys = as @ x # cs" "\<forall>a \<in> set as. \<not> P a" "P x" using Cons by auto
    then show ?thesis using False by - (rule exI [of _ "y # as"], rule exI [of _ cs], simp)
  qed
qed simp

lemma taken_size:
  fixes size want :: u32
  assumes "want \<le> size"
  defines "n \<equiv> if 32 \<le> size - want then want else size"
  shows "unat want \<le> unat n" "unat n < unat want + 32" "unat n \<le> unat size"
  using assms by (auto simp: word_le_nat_alt unat_sub)

text \<open>
  C39 (safety): when some block of the list is large enough, the first such block is taken without growing the pool, whatever
  the list holds. It loses at most 31 bytes to the size asked for, its bytes come out of the free area and nothing else
  does, and the list keeps its invariant.
\<close>

theorem first_fit_take:
  assumes inv: "first_fit_inv h bs" and found: "find (\<lambda>x. want \<le> block_size h x) bs = Some x" and want: "16 \<le> unat want"
  shows "\<exists>prev h' bs'. heap_first_fit env want h = Some (prev, x, h) \<and> heap_take_block want prev x h = Some h' \<and> first_fit_inv h' bs' \<and>
    unat want \<le> unat (block_size h' x) \<and> unat (block_size h' x) < unat want + 32 \<and> block_flags h' x = 0 \<and> block_magic h' x = 0x4C50 \<and>
    block_bytes h' x \<subseteq> covered h bs \<and> covered h' bs' = covered h bs - block_bytes h' x"
proof -
  obtain as cs where bs: "bs = as @ x # cs" "\<forall>a \<in> set as. \<not> want \<le> block_size h a" "want \<le> block_size h x"
    using find_split [OF found] by blast
  let ?p = "if as = [] then 0 else last as"
  note inv' = inv [unfolded bs(1)]
  have scan: "heap_scan h want 0 (kernel_heap_free_list h) = Some (?p, x)" by (rule heap_scan_effect [OF first_fit_invD(1) [OF inv'] bs(2,3)])
  have "x \<noteq> 0" using first_fit_invD(2) [OF inv'] by (simp add: free_blocks_ok_def free_block_ok_def)
  then have ff: "heap_first_fit env want h = Some (?p, x, h)" using scan by (simp add: heap_first_fit.simps)
  obtain h' bs' where h': "heap_take_block want ?p x h = Some h'" "first_fit_inv h' bs'" "block_flags h' x = 0" "block_magic h' x = 0x4C50"
    "block_size h' x = (if 32 \<le> block_size h x - want then want else block_size h x)" "covered h' bs' = covered h (as @ x # cs) - block_bytes h' x"
    by (rule take_block_effect [OF inv' refl bs(3) want]) (rule that)
  note n = taken_size [OF bs(3), folded h'(5)]
  have "block_bytes h' x \<subseteq> block_bytes h x" using n(3) by (auto simp: block_bytes_def)
  moreover have "block_bytes h x \<subseteq> covered h bs" by (auto simp: covered_def bs(1))
  ultimately have "block_bytes h' x \<subseteq> covered h bs" by (rule subset_trans)
  then show ?thesis using ff h' [folded bs(1)] n(1,2) by blast
qed

section \<open>Releasing a block\<close>

lemma heap_fill_list [simp]:
  "kernel_heap_free_list (heap_fill a v n h) = kernel_heap_free_list h"
  "kernel_heap_small_free_blocks (heap_fill a v n h) = kernel_heap_small_free_blocks h"
  "kernel_heap_small_free_bytes (heap_fill a v n h) = kernel_heap_small_free_bytes h"
proof -
  have "kernel_heap_free_list (fold (\<lambda>i. put8 (a + of_nat i) v) ns h) = kernel_heap_free_list h \<and>
    kernel_heap_small_free_blocks (fold (\<lambda>i. put8 (a + of_nat i) v) ns h) = kernel_heap_small_free_blocks h \<and>
    kernel_heap_small_free_bytes (fold (\<lambda>i. put8 (a + of_nat i) v) ns h) = kernel_heap_small_free_bytes h" for ns
    by (induction ns arbitrary: h) (simp_all add: put8_def with_ram_def)
  then show "kernel_heap_free_list (heap_fill a v n h) = kernel_heap_free_list h"
    "kernel_heap_small_free_blocks (heap_fill a v n h) = kernel_heap_small_free_blocks h"
    "kernel_heap_small_free_bytes (heap_fill a v n h) = kernel_heap_small_free_bytes h" by (simp_all add: heap_fill_def)
qed

lemma heap_fill_other:
  assumes b: "free_block_ok (block_size h) b" and x: "free_block_ok (block_size h) x" and disj: "block_bytes h b \<inter> block_bytes h x = {}"
  shows "same_header h' (heap_fill (b + 16) v (block_size h b - 16) h') x"
proof -
  let ?n = "block_size h b - 16"
  have n: "unat ?n = unat (block_size h b) - 16" using b by (simp add: free_block_ok_def unat_sub word_le_nat_alt)
  have b16: "unat (b + 16) = unat b + 16" using b unat_offset [of b 16] by (simp add: free_block_ok_def)
  then have room: "unat (b + 16) + unat ?n \<le> 0xD0000000" using b n by (simp add: free_block_ok_def)
  have "\<not> unat (y - (b + 16)) < unat ?n" if "unat (y - x) < 16" for y
  proof
    assume l: "unat (y - (b + 16)) < unat ?n"
    have "unat y = unat (b + 16) + unat (y - (b + 16))" using unat_offset [of "b + 16" "unat (y - (b + 16))"] l room by simp
    moreover have "unat y = unat x + unat (y - x)" using unat_offset [of x "unat (y - x)"] that x by (simp add: free_block_ok_def)
    ultimately have "unat y \<in> block_bytes h b" "unat y \<in> block_bytes h x"
      using l that b16 n x by (auto simp: block_bytes_def free_block_ok_def)
    then show False using disj by blast
  qed
  then show ?thesis using heap_fill_ram [OF room] by (simp add: same_header_def)
qed

text \<open>The heap at the point where \<open>kfree\<close> puts a block of the first-fit pool back.\<close>

definition released :: "heap_env \<Rightarrow> u32 \<Rightarrow> heap \<Rightarrow> heap" where
  "released env b h = set_next b 0 (heap_poison_released env b
     (if real_time_mode (env_flags env) \<and> 0 < kernel_heap_hot_loop_depth h
      then h\<lparr>kernel_heap_hot_loop_violation_count := kernel_heap_hot_loop_violation_count h + 1\<rparr> else h))"

lemma violation_keeps [simp]:
  "heap_ram (h\<lparr>kernel_heap_hot_loop_violation_count := n\<rparr>) = heap_ram h"
  "block_size (h\<lparr>kernel_heap_hot_loop_violation_count := n\<rparr>) = block_size h" "block_magic (h\<lparr>kernel_heap_hot_loop_violation_count := n\<rparr>) = block_magic h"
  "block_flags (h\<lparr>kernel_heap_hot_loop_violation_count := n\<rparr>) = block_flags h" "block_canary (h\<lparr>kernel_heap_hot_loop_violation_count := n\<rparr>) = block_canary h"
  by (simp_all add: fun_eq_iff header_access heap_ram_def heap_at_def)

lemma kfree_pool_block:
  assumes b: "free_block_ok (block_size h) b"
    and hd: "block_magic h b = 0x4C50" "block_canary h b = heap_canary (block_size h b)" "block_flags h b = 0"
  shows "kfree env (b + 16) h = kernel_heap_add_free_block b (released env b h) \<bind> kernel_heap_coalesce_around b"
proof -
  have d: "direct_block b (unat (block_size h b - 16))" "b + 16 \<noteq> 0"
    using b unat_offset [of b 16] by (auto simp: free_block_ok_def direct_block_def unat_sub word_le_nat_alt)
  have "block_flags (heap_poison_released env b h') b = 0" if "block_flags h' b = 0" "block_size h' b = block_size h b" for h'
    using that d(1) by (simp add: heap_poison_released_def Let_def header_fill)
  then show ?thesis using hd d(2) by (simp add: kfree_def Let_def released_def)
qed

lemma released_inv:
  assumes inv: "first_fit_inv h bs" and b: "free_block_ok (block_size h) b" "block_bytes h b \<inter> covered h bs = {}" and hd: "block_flags h b = 0"
  shows "first_fit_inv (released env b h) bs" "x \<in> insert b (set bs) \<Longrightarrow> block_size (released env b h) x = block_size h x"
proof -
  note ok = first_fit_invD(2) [OF inv]
  note d = free_block_ok_direct [OF b(1)] and far = disjoint_far [OF ok b]
  have d': "direct_block b (unat (block_size h b - 16))"
    using b(1) by (simp add: free_block_ok_def direct_block_def unat_sub word_le_nat_alt)
  have s: "same_header h (released env b h) x" if x: "x \<in> set bs" for x
  proof -
    have "free_block_ok (block_size h) x" "block_bytes h b \<inter> block_bytes h x = {}" using ok b(2) x by (auto simp: free_blocks_ok_def covered_def)
    then have "same_header h' (heap_fill (b + 16) v (block_size h b - 16) h') x" for h' v by (rule heap_fill_other [OF b(1)])
    then show ?thesis
      using listed_kept(6) [OF ok x d far] hd by (simp add: released_def heap_poison_released_def Let_def same_header_def)
  qed
  show "first_fit_inv (released env b h) bs"
    by (rule first_fit_inv_cong [OF inv s]) (simp_all add: released_def heap_poison_released_def Let_def)
  show "block_size (released env b h) x = block_size h x" if "x \<in> insert b (set bs)"
    using that same_headerD(1) [OF s listed_direct [OF ok]] hd
    by (auto simp: released_def heap_poison_released_def Let_def header_other [OF d] header_fill [OF d'])
qed

text \<open>
  C38 (functional): releasing a block of the first-fit pool returns, whatever the build. Afterwards the free list is again
  a finite sorted chain of disjoint blocks with exact counters, covers exactly the bytes it covered before and those of the
  block, and, if no two of its blocks touched before, no two touch now.
\<close>

theorem first_fit_release:
  assumes inv: "first_fit_inv h bs" and co: "coalesced h (set bs)"
    and b: "free_block_ok (block_size h) b" "block_bytes h b \<inter> covered h bs = {}"
    and hd: "block_magic h b = 0x4C50" "block_canary h b = heap_canary (block_size h b)" "block_flags h b = 0"
  shows "\<exists>h' bs'. kfree env (b + 16) h = Some h' \<and> first_fit_inv h' bs' \<and> coalesced h' (set bs') \<and>
    covered h' bs' = covered h bs \<union> block_bytes h b"
proof -
  let ?h = "released env b h"
  note r = released_inv [OF inv b hd(3), where env = env]
  have bb: "block_bytes ?h b = block_bytes h b" "covered ?h bs = covered h bs" using r(2) by (auto simp: block_bytes_def covered_def)
  have b': "free_block_ok (block_size ?h) b" "block_bytes ?h b \<inter> covered ?h bs = {}" using b r(2) bb by (auto simp: free_block_ok_def)
  obtain h1 as cs where h1: "bs = as @ cs" "kernel_heap_add_free_block b ?h = Some h1" "first_fit_inv h1 (as @ b # cs)"
    "\<And>x. x \<in> insert b (set bs) \<Longrightarrow> block_size h1 x = block_size ?h x"
    by (rule add_free_block_effect [OF r(1) b']) (rule that)
  have sz: "block_size h1 x = block_size h x" if "x \<in> insert b (set bs)" for x using h1(4) r(2) that by simp
  then have "coalesced h1 (set (as @ cs))" using co h1(1) by (auto simp: coalesced_def)
  moreover have "covered h1 (as @ b # cs) = covered h bs \<union> block_bytes h b"
    using sz by (auto simp: covered_def block_bytes_def h1(1))
  ultimately show ?thesis using coalesce_effect [OF h1(3)] kfree_pool_block [OF b(1) hd] h1(2) by auto
qed

definition example_listed :: heap where
  "example_listed = (set_size 0xC0501000 4096 (set_next 0xC0501000 0 example_heap))
     \<lparr>kernel_heap_free_list := 0xC0501000, kernel_heap_small_free_blocks := 1, kernel_heap_small_free_bytes := 4096\<rparr>"

definition example_pool :: heap where
  "example_pool = set_size 0xC0500000 4096 (set_canary 0xC0500000 (heap_canary 4096)
     (set_flags 0xC0500000 0 (set_magic 0xC0500000 0x4C50 example_listed)))"

lemma example_pool_headers:
  "block_size example_pool 0xC0500000 = 4096" "block_magic example_pool 0xC0500000 = 0x4C50" "block_flags example_pool 0xC0500000 = 0"
  "block_canary example_pool 0xC0500000 = heap_canary 4096"
  "block_size example_pool 0xC0501000 = 4096" "block_next example_pool 0xC0501000 = 0"
proof -
  have d: "direct_block 0xC0500000 0" "direct_block 0xC0501000 0" by (simp_all add: direct_block_def)
  show "block_size example_pool 0xC0500000 = 4096" "block_magic example_pool 0xC0500000 = 0x4C50" "block_flags example_pool 0xC0500000 = 0"
    "block_canary example_pool 0xC0500000 = heap_canary 4096"
    unfolding example_pool_def header_same [OF d(1)] header_other [OF d(1)] by (rule refl)+
  have "unat (0xC0500000 :: u32) + 16 \<le> unat (0xC0501000 :: u32) \<or> unat (0xC0501000 :: u32) + 16 \<le> unat (0xC0500000 :: u32)" by simp
  note f = set_far [OF d this]
  have "same_header example_listed example_pool 0xC0501000"
    unfolding example_pool_def by (rule same_header_trans [OF same_header_trans [OF same_header_trans [OF f(2) f(3)] f(6)] f(1)])
  moreover have "block_size example_listed 0xC0501000 = 4096" "block_next example_listed 0xC0501000 = 0"
    by (simp_all add: example_listed_def header_same [OF d(2)] header_other [OF d(2)])
  ultimately show "block_size example_pool 0xC0501000 = 4096" "block_next example_pool 0xC0501000 = 0"
    using same_headerD(1,5) [OF _ d(2)] by simp_all
qed

lemma example_pool_inv: "first_fit_inv example_pool [0xC0501000]"
proof -
  have "kernel_heap_free_list example_pool = 0xC0501000" "kernel_heap_small_free_blocks example_pool = 1"
    "kernel_heap_small_free_bytes example_pool = 4096"
    by (simp_all add: example_pool_def example_listed_def header_access with_ram_def)
  then show ?thesis using example_pool_headers by (simp add: first_fit_inv_def free_blocks_ok_def free_block_ok_def)
qed

lemma example_pool_bytes:
  "block_bytes example_pool 0xC0500000 = {0xC0500000..<0xC0501000}" "block_bytes example_pool 0xC0501000 = {0xC0501000..<0xC0502000}"
proof -
  have "unat (0xC0500000 :: u32) + unat (4096 :: u32) = 0xC0501000" "unat (0xC0501000 :: u32) + unat (4096 :: u32) = 0xC0502000"
    "unat (0xC0500000 :: u32) = 0xC0500000" "unat (0xC0501000 :: u32) = 0xC0501000" by simp_all
  then show "block_bytes example_pool 0xC0500000 = {0xC0500000..<0xC0501000}" "block_bytes example_pool 0xC0501000 = {0xC0501000..<0xC0502000}"
    by (simp_all only: block_bytes_def example_pool_headers)
qed

lemma example_pool_area:
  "covered example_pool [0xC0501000] = {0xC0501000..<0xC0502000}" "block_bytes example_pool 0xC0500000 \<inter> covered example_pool [0xC0501000] = {}"
  "covered example_pool [0xC0501000] \<union> block_bytes example_pool 0xC0500000 = {0xC0500000..<0xC0502000}"
proof -
  show c: "covered example_pool [0xC0501000] = {0xC0501000..<0xC0502000}"
    by (simp only: covered_def list.set UN_insert UN_empty Un_empty_right example_pool_bytes)
  show "block_bytes example_pool 0xC0500000 \<inter> covered example_pool [0xC0501000] = {}"
    unfolding example_pool_bytes c by (rule ivl_disj_int_two(3))
  show "covered example_pool [0xC0501000] \<union> block_bytes example_pool 0xC0500000 = {0xC0500000..<0xC0502000}"
    unfolding example_pool_bytes c Un_commute [of "{0xC0501000..<0xC0502000}"] by (rule ivl_disj_un_two(3)) simp_all
qed

theorem first_fit_release_witness:
  "\<exists>h' bs'. kfree (example_env True) 0xC0500010 example_pool = Some h' \<and> first_fit_inv h' bs' \<and> coalesced h' (set bs') \<and>
     covered h' bs' = {0xC0500000..<0xC0502000}"
proof -
  note e = example_pool_headers
  have co: "coalesced example_pool (set [0xC0501000])" using e by (simp add: coalesced_def)
  have b: "free_block_ok (block_size example_pool) 0xC0500000" using e by (simp add: free_block_ok_def)
  have can: "block_canary example_pool 0xC0500000 = heap_canary (block_size example_pool 0xC0500000)" and ptr: "0xC0500000 + 16 = (0xC0500010 :: u32)"
    using e(1,4) by simp_all
  show ?thesis
    by (rule first_fit_release [OF example_pool_inv co b example_pool_area(2) e(2) can e(3), of "example_env True", unfolded example_pool_area(3) ptr])
qed

theorem first_fit_take_witness:
  "\<exists>prev h' bs'. heap_first_fit (example_env True) 1040 example_pool = Some (prev, 0xC0501000, example_pool) \<and>
     heap_take_block 1040 prev 0xC0501000 example_pool = Some h' \<and> first_fit_inv h' bs' \<and> 1040 \<le> unat (block_size h' 0xC0501000) \<and>
     covered h' bs' = covered example_pool [0xC0501000] - block_bytes h' 0xC0501000"
proof -
  have "find (\<lambda>x. 1040 \<le> block_size example_pool x) [0xC0501000] = Some 0xC0501000" using example_pool_headers(5) by simp
  moreover have "16 \<le> unat (1040 :: u32)" "unat (1040 :: u32) = 1040" by simp_all
  ultimately show ?thesis using first_fit_take [OF example_pool_inv, of 1040 "0xC0501000" "example_env True"] by metis
qed

end
