(* ===== verification/Reconciler.thy ===== *)
theory Reconciler
  imports Prelude
begin

text \<open>
  The registry of bounded queues of \<open>src/kernel/kernel/memory/backpressure.c\<close> and the reconciler of \<open>src/kernel/kernel/core/reconciler.c\<close>, which
  compares what the boot declared about the kernel with what it observes. A drop-count function pointer is the name
  of a counter; the counters and the other observations the reconciler makes through other modules are its argument.
  The telemetry reports are left out.
\<close>

section \<open>The queue registry\<close>

datatype backpressure_policy = Drop_Tolerated | Drop_Corrupts

record backpressure_queue =
  queue_name :: string
  queue_policy :: backpressure_policy
  queue_capacity_items :: u32
  queue_drop_count :: nat

record backpressure =
  backpressure_queues :: "nat \<Rightarrow> backpressure_queue"
  backpressure_queue_count :: nat

abbreviation (input) KERNEL_BACKPRESSURE_MAX_QUEUES :: nat where "KERNEL_BACKPRESSURE_MAX_QUEUES \<equiv> 8"

definition backpressure_policy_name :: "backpressure_policy \<Rightarrow> string" where
  "backpressure_policy_name policy = (case policy of Drop_Corrupts \<Rightarrow> ''drop_corrupts'' | Drop_Tolerated \<Rightarrow> ''drop_tolerated'')"

definition kernel_backpressure_reset :: "backpressure \<Rightarrow> backpressure" where
  "kernel_backpressure_reset b = b\<lparr>backpressure_queue_count := 0\<rparr>"

text \<open>A null name or a null function pointer is \<open>None\<close>.\<close>

definition kernel_backpressure_register ::
  "string option \<Rightarrow> backpressure_policy \<Rightarrow> u32 \<Rightarrow> nat option \<Rightarrow> backpressure \<Rightarrow> bool \<times> backpressure" where
  "kernel_backpressure_register name policy capacity_items drop_count b =
     (case (name, drop_count) of
        (Some n, Some d) \<Rightarrow>
          if KERNEL_BACKPRESSURE_MAX_QUEUES \<le> backpressure_queue_count b then (False, b)
          else (True, b\<lparr>backpressure_queues := (backpressure_queues b)(backpressure_queue_count b :=
                 \<lparr>queue_name = n, queue_policy = policy, queue_capacity_items = capacity_items, queue_drop_count = d\<rparr>),
               backpressure_queue_count := backpressure_queue_count b + 1\<rparr>)
      | _ \<Rightarrow> (False, b))"

definition kernel_backpressure_get_queue :: "nat \<Rightarrow> backpressure \<Rightarrow> backpressure_queue option" where
  "kernel_backpressure_get_queue index b =
     (if backpressure_queue_count b \<le> index then None else Some (backpressure_queues b index))"

definition kernel_backpressure_get_total_drop_count :: "(nat \<Rightarrow> u32) \<Rightarrow> backpressure \<Rightarrow> u32" where
  "kernel_backpressure_get_total_drop_count drops b =
     fold (\<lambda>index total. total + drops (queue_drop_count (backpressure_queues b index))) [0..<backpressure_queue_count b] 0"

definition kernel_backpressure_get_intolerant_drop_count :: "(nat \<Rightarrow> u32) \<Rightarrow> backpressure \<Rightarrow> u32" where
  "kernel_backpressure_get_intolerant_drop_count drops b =
     fold (\<lambda>index total. if queue_policy (backpressure_queues b index) \<noteq> Drop_Corrupts then total
                         else total + drops (queue_drop_count (backpressure_queues b index)))
       [0..<backpressure_queue_count b] 0"

text \<open>The queues in force, and the corrupting ones among them.\<close>

definition registered :: "backpressure \<Rightarrow> backpressure_queue list" where
  "registered b = map (backpressure_queues b) [0..<backpressure_queue_count b]"

definition corrupting_drops :: "(nat \<Rightarrow> u32) \<Rightarrow> backpressure \<Rightarrow> nat" where
  "corrupting_drops drops b = (\<Sum>q \<leftarrow> filter (\<lambda>q. queue_policy q = Drop_Corrupts) (registered b). unat (drops (queue_drop_count q)))"

lemma register_appends:
  assumes "kernel_backpressure_register name policy capacity drop_count b = (ok, b')"
  shows "registered b' = registered b @ (if ok then [\<lparr>queue_name = the name, queue_policy = policy,
    queue_capacity_items = capacity, queue_drop_count = the drop_count\<rparr>] else [])"
proof (cases ok)
  case True
  then have b': "b' = b\<lparr>backpressure_queues := (backpressure_queues b)(backpressure_queue_count b :=
       \<lparr>queue_name = the name, queue_policy = policy, queue_capacity_items = capacity, queue_drop_count = the drop_count\<rparr>),
     backpressure_queue_count := backpressure_queue_count b + 1\<rparr>"
    using assms by (auto simp: kernel_backpressure_register_def split: option.splits if_splits)
  show ?thesis using True by (simp add: b' registered_def)
next
  case False
  then have "b' = b" using assms by (auto simp: kernel_backpressure_register_def split: option.splits if_splits)
  then show ?thesis using False by simp
qed

lemma intolerant_is_sum: "kernel_backpressure_get_intolerant_drop_count drops b = of_nat (corrupting_drops drops b)"
proof -
  have "fold (\<lambda>index total. if queue_policy (backpressure_queues b index) \<noteq> Drop_Corrupts then total
      else total + drops (queue_drop_count (backpressure_queues b index))) is acc =
    acc + of_nat (\<Sum>q \<leftarrow> filter (\<lambda>q. queue_policy q = Drop_Corrupts) (map (backpressure_queues b) is). unat (drops (queue_drop_count q)))" for "is" acc
    by (induction "is" arbitrary: acc) (simp_all add: algebra_simps)
  then show ?thesis by (simp add: kernel_backpressure_get_intolerant_drop_count_def corrupting_drops_def registered_def)
qed

lemma intolerant_zero:
  assumes "corrupting_drops drops b < 2 ^ 32"
  shows "kernel_backpressure_get_intolerant_drop_count drops b = 0 \<longleftrightarrow>
    (\<forall>q \<in> set (registered b). queue_policy q = Drop_Corrupts \<longrightarrow> drops (queue_drop_count q) = 0)"
proof -
  have "kernel_backpressure_get_intolerant_drop_count drops b = 0 \<longleftrightarrow> unat (of_nat (corrupting_drops drops b) :: u32) = 0"
    by (simp add: intolerant_is_sum unat_eq_zero)
  also have "\<dots> \<longleftrightarrow> corrupting_drops drops b = 0" using assms by (simp add: unsigned_of_nat take_bit_nat_eq_self)
  also have "\<dots> \<longleftrightarrow> (\<forall>q \<in> set (registered b). queue_policy q = Drop_Corrupts \<longrightarrow> drops (queue_drop_count q) = 0)"
    by (auto simp: corrupting_drops_def sum_list_eq_0_iff unat_eq_zero)
  finally show ?thesis .
qed

section \<open>The reconciler\<close>

datatype reconciler_invariant =
  Section_Protection | Write_Protect | Read_Only_Page_Count | Frame_Arena_Within | Real_Time | Queue_Integrity

definition invariant_number :: "reconciler_invariant \<Rightarrow> nat" where
  "invariant_number i = (case i of Section_Protection \<Rightarrow> 0 | Write_Protect \<Rightarrow> 1 | Read_Only_Page_Count \<Rightarrow> 2
     | Frame_Arena_Within \<Rightarrow> 3 | Real_Time \<Rightarrow> 4 | Queue_Integrity \<Rightarrow> 5)"

record reconciler_declaration =
  frame_arena_capacity_bytes :: u32
  real_time_violation_budget :: u32
  read_only_page_count :: u32
  require_section_protection :: bool
  require_write_protect :: bool

record reconciler =
  declared :: reconciler_declaration
  reconciler_is_declared :: bool
  reconciler_real_time_violation_baseline :: u32
  reconciler_pass_count :: u32
  reconciler_drift_count :: u32
  reconciler_drift_mask :: u32
  reconciler_periodic_pass_count :: u32

text \<open>What the reconciler reads from the other modules at the moment of a check.\<close>

record observation =
  section_protection_is_active :: bool
  section_protection_read_only_page_count :: u32
  write_protect_is_enabled :: bool
  frame_arena_peak_used_bytes :: u32
  hot_loop_violation_count :: u32
  drop_counters :: "nat \<Rightarrow> u32"
  queue_registry :: backpressure

definition reconciler_evaluate :: "reconciler_invariant \<Rightarrow> bool \<Rightarrow> u32 \<times> reconciler \<Rightarrow> u32 \<times> reconciler" where
  "reconciler_evaluate i holds = (\<lambda>(drifted, r).
     if holds then (drifted + 0, r)
     else (drifted + 1, r\<lparr>reconciler_drift_mask := reconciler_drift_mask r OR push_bit (invariant_number i) 1\<rparr>))"

definition kernel_reconciler_declare :: "u32 \<Rightarrow> reconciler_declaration option \<Rightarrow> reconciler \<Rightarrow> reconciler" where
  "kernel_reconciler_declare violations declaration r =
     (case declaration of
        None \<Rightarrow> r
      | Some d \<Rightarrow> r\<lparr>declared := d, reconciler_is_declared := True, reconciler_pass_count := 0, reconciler_drift_count := 0,
          reconciler_drift_mask := 0, reconciler_real_time_violation_baseline := violations\<rparr>)"

definition reconciler_real_time_violations_since_declaration :: "u32 \<Rightarrow> reconciler \<Rightarrow> u32" where
  "reconciler_real_time_violations_since_declaration current r =
     (if current \<le> reconciler_real_time_violation_baseline r then 0 else current - reconciler_real_time_violation_baseline r)"

definition kernel_reconciler_check :: "observation \<Rightarrow> reconciler \<Rightarrow> u32 \<times> reconciler" where
  "kernel_reconciler_check w r =
     (if \<not> reconciler_is_declared r then (0, r)
      else
        let d = declared r;
            x = (0, r);
            x = (if require_section_protection d
                 then reconciler_evaluate Read_Only_Page_Count (section_protection_read_only_page_count w = read_only_page_count d)
                   (reconciler_evaluate Section_Protection (section_protection_is_active w) x) else x);
            x = (if require_write_protect d then reconciler_evaluate Write_Protect (write_protect_is_enabled w) x else x);
            x = reconciler_evaluate Frame_Arena_Within (frame_arena_peak_used_bytes w \<le> frame_arena_capacity_bytes d) x;
            x = reconciler_evaluate Real_Time
                  (reconciler_real_time_violations_since_declaration (hot_loop_violation_count w) r \<le> real_time_violation_budget d) x;
            (drifted, r) = reconciler_evaluate Queue_Integrity
                  (kernel_backpressure_get_intolerant_drop_count (drop_counters w) (queue_registry w) = 0) x;
            r = r\<lparr>reconciler_pass_count := reconciler_pass_count r + 1\<rparr>;
            r = (if 0 < drifted then r\<lparr>reconciler_drift_count := reconciler_drift_count r + 1\<rparr> else r)
        in (drifted, r))"

definition kernel_reconciler_check_periodic :: "observation \<Rightarrow> reconciler \<Rightarrow> reconciler" where
  "kernel_reconciler_check_periodic w r =
     (let (_, r) = kernel_reconciler_check w r in r\<lparr>reconciler_periodic_pass_count := reconciler_periodic_pass_count r + 1\<rparr>)"

text \<open>\<open>reads spin\<close> is the value of the periodic counter, which an interrupt handler advances, at the given reading.\<close>

definition kernel_reconciler_wait_for_periodic_pass :: "(nat \<Rightarrow> u32) \<Rightarrow> bool" where
  "kernel_reconciler_wait_for_periodic_pass reads = (list_ex (\<lambda>spin. 0 < reads spin) [0..<256] \<or> 0 < reads 256)"

text \<open>The six invariants, as the declaration states them.\<close>

definition reconciler_holds :: "observation \<Rightarrow> reconciler \<Rightarrow> reconciler_invariant \<Rightarrow> bool" where
  "reconciler_holds w r i = (case i of
     Section_Protection \<Rightarrow> require_section_protection (declared r) \<longrightarrow> section_protection_is_active w
   | Read_Only_Page_Count \<Rightarrow> require_section_protection (declared r) \<longrightarrow>
       section_protection_read_only_page_count w = read_only_page_count (declared r)
   | Write_Protect \<Rightarrow> require_write_protect (declared r) \<longrightarrow> write_protect_is_enabled w
   | Frame_Arena_Within \<Rightarrow> frame_arena_peak_used_bytes w \<le> frame_arena_capacity_bytes (declared r)
   | Real_Time \<Rightarrow> unat (hot_loop_violation_count w) \<le>
       unat (reconciler_real_time_violation_baseline r) + unat (real_time_violation_budget (declared r))
   | Queue_Integrity \<Rightarrow> \<forall>q \<in> set (registered (queue_registry w)). queue_policy q = Drop_Corrupts \<longrightarrow>
       drop_counters w (queue_drop_count q) = 0)"

definition reconciler_violations :: "observation \<Rightarrow> reconciler \<Rightarrow> reconciler_invariant list" where
  "reconciler_violations w r = filter (\<lambda>i. \<not> reconciler_holds w r i)
     [Section_Protection, Read_Only_Page_Count, Write_Protect, Frame_Arena_Within, Real_Time, Queue_Integrity]"

lemma real_time_within:
  "reconciler_real_time_violations_since_declaration current r \<le> budget \<longleftrightarrow>
    unat current \<le> unat (reconciler_real_time_violation_baseline r) + unat budget"
  by (auto simp: reconciler_real_time_violations_since_declaration_def word_le_nat_alt unat_sub)

lemma evaluate_fold:
  "fst (fold (\<lambda>i. reconciler_evaluate i False) is (n, r)) = n + of_nat (length is)"
  "snd (fold (\<lambda>i. reconciler_evaluate i False) is (n, r)) =
    r\<lparr>reconciler_drift_mask := fold (\<lambda>i m. m OR push_bit (invariant_number i) 1) is (reconciler_drift_mask r)\<rparr>"
  by (induction "is" arbitrary: n r) (simp_all add: reconciler_evaluate_def)

lemma mask_bits: "k < 32 \<Longrightarrow> bit (fold (\<lambda>i m. m OR push_bit (invariant_number i) 1) is (m :: u32)) k \<longleftrightarrow>
    bit m k \<or> (\<exists>i \<in> set is. invariant_number i = k)"
  by (induction "is" arbitrary: m) (auto simp: bit_simps)

lemma evaluate_skip: "reconciler_evaluate i True x = x"
  by (cases x) (simp add: reconciler_evaluate_def)

lemma evaluate_step:
  "fold (\<lambda>i. reconciler_evaluate i False) (filter (\<lambda>i. \<not> P i) (i # is)) x =
    fold (\<lambda>i. reconciler_evaluate i False) (filter (\<lambda>i. \<not> P i) is) (reconciler_evaluate i (P i) x)"
  by (simp add: evaluate_skip)

lemma check_unfold:
  assumes "reconciler_is_declared r" "corrupting_drops (drop_counters w) (queue_registry w) < 2 ^ 32"
  obtains d r' where "(d, r') = fold (\<lambda>i. reconciler_evaluate i False) (reconciler_violations w r) (0, r)"
    "kernel_reconciler_check w r = (d, let r'' = r'\<lparr>reconciler_pass_count := reconciler_pass_count r' + 1\<rparr> in
       if 0 < d then r''\<lparr>reconciler_drift_count := reconciler_drift_count r'' + 1\<rparr> else r'')"
proof -
  let ?E = "\<lambda>i. reconciler_evaluate i (reconciler_holds w r i)"
  let ?x = "?E Queue_Integrity (?E Real_Time (?E Frame_Arena_Within (?E Write_Protect (?E Read_Only_Page_Count (?E Section_Protection (0, r))))))"
  obtain d r' where x: "?x = (d, r')" by (cases ?x)
  have "fold (\<lambda>i. reconciler_evaluate i False) (reconciler_violations w r) (0, r) = ?x"
    unfolding reconciler_violations_def evaluate_step by simp
  moreover have "(if require_section_protection (declared r)
      then reconciler_evaluate Read_Only_Page_Count (section_protection_read_only_page_count w = read_only_page_count (declared r))
        (reconciler_evaluate Section_Protection (section_protection_is_active w) (0, r)) else (0, r)) = ?E Read_Only_Page_Count (?E Section_Protection (0, r))"
    by (simp add: reconciler_holds_def evaluate_skip)
  moreover have "(if require_write_protect (declared r) then reconciler_evaluate Write_Protect (write_protect_is_enabled w) y else y) = ?E Write_Protect y" for y
    by (simp add: reconciler_holds_def evaluate_skip)
  moreover have "(frame_arena_peak_used_bytes w \<le> frame_arena_capacity_bytes (declared r)) = reconciler_holds w r Frame_Arena_Within"
    "(reconciler_real_time_violations_since_declaration (hot_loop_violation_count w) r \<le> real_time_violation_budget (declared r)) = reconciler_holds w r Real_Time"
    "(kernel_backpressure_get_intolerant_drop_count (drop_counters w) (queue_registry w) = 0) = reconciler_holds w r Queue_Integrity"
    using intolerant_zero [OF assms(2)] by (simp_all add: reconciler_holds_def real_time_within)
  ultimately show thesis using assms(1) x by (intro that [of d r']) (simp_all only: kernel_reconciler_check_def Let_def prod.case simp_thms if_False)
qed

text \<open>
  C40 (functional): one pass of a declared reconciler returns the number of declared invariants that do not hold, adds exactly
  their bits to the drift mask and counts the pass as a drift if and only if there is one; the corrupting-queue invariant is
  judged right as long as the losses add up below \<open>2\<^sup>3\<^sup>2\<close>.
\<close>

theorem reconciler_check_exact:
  assumes "reconciler_is_declared r" "corrupting_drops (drop_counters w) (queue_registry w) < 2 ^ 32"
  shows "let vs = reconciler_violations w r; (drifted, r') = kernel_reconciler_check w r in
    drifted = of_nat (length vs) \<and>
    (\<forall>k < 32. bit (reconciler_drift_mask r') k \<longleftrightarrow> bit (reconciler_drift_mask r) k \<or> (\<exists>i \<in> set vs. invariant_number i = k)) \<and>
    reconciler_drift_count r' = reconciler_drift_count r + (if vs = [] then 0 else 1)"
proof -
  let ?vs = "reconciler_violations w r"
  obtain d r' where d: "(d, r') = fold (\<lambda>i. reconciler_evaluate i False) ?vs (0, r)"
    and c: "kernel_reconciler_check w r = (d, let r'' = r'\<lparr>reconciler_pass_count := reconciler_pass_count r' + 1\<rparr> in
       if 0 < d then r''\<lparr>reconciler_drift_count := reconciler_drift_count r'' + 1\<rparr> else r'')"
    by (rule check_unfold [OF assms]) (rule that)
  have n: "d = of_nat (length ?vs)" using evaluate_fold(1) [of ?vs 0 r] d by (metis add_0 fst_conv)
  have r': "r' = r\<lparr>reconciler_drift_mask := fold (\<lambda>i m. m OR push_bit (invariant_number i) 1) ?vs (reconciler_drift_mask r)\<rparr>"
    using evaluate_fold(2) [of ?vs 0 r] d by (metis snd_conv)
  have "length ?vs \<le> 6" unfolding reconciler_violations_def by (rule order_trans [OF length_filter_le]) simp
  then have "unat d = length ?vs" using n by (simp add: unsigned_of_nat take_bit_nat_eq_self)
  then have pos: "0 < d \<longleftrightarrow> ?vs \<noteq> []" by (auto simp: word_less_nat_alt)
  have "reconciler_drift_mask r' = fold (\<lambda>i m. m OR push_bit (invariant_number i) 1) ?vs (reconciler_drift_mask r)" by (subst r') simp
  then have bits: "bit (reconciler_drift_mask r') k \<longleftrightarrow> bit (reconciler_drift_mask r) k \<or> (\<exists>i \<in> set ?vs. invariant_number i = k)" if "k < 32" for k
    using mask_bits [OF that] by (simp only:)
  have "reconciler_drift_count r' = reconciler_drift_count r" by (subst r') simp
  then show ?thesis unfolding c Let_def prod.case using n pos bits by simp
qed

theorem reconciler_check_exact_witness:
  "\<exists>r w. reconciler_violations w r = [Write_Protect, Frame_Arena_Within] \<and> fst (kernel_reconciler_check w r) = 2"
proof -
  let ?r = "\<lparr>declared = \<lparr>frame_arena_capacity_bytes = 64, real_time_violation_budget = 0, read_only_page_count = 3, require_section_protection = True,
      require_write_protect = True\<rparr>, reconciler_is_declared = True, reconciler_real_time_violation_baseline = 7, reconciler_pass_count = 0,
    reconciler_drift_count = 0, reconciler_drift_mask = 0, reconciler_periodic_pass_count = 0\<rparr>"
  let ?w = "\<lparr>section_protection_is_active = True, section_protection_read_only_page_count = 3, write_protect_is_enabled = False,
    frame_arena_peak_used_bytes = 68, hot_loop_violation_count = 7, drop_counters = (\<lambda>_. 5),
    queue_registry = \<lparr>backpressure_queues = (\<lambda>_. \<lparr>queue_name = ''keyboard'', queue_policy = Drop_Tolerated, queue_capacity_items = 256,
      queue_drop_count = 0\<rparr>), backpressure_queue_count = 1\<rparr>\<rparr>"
  have v: "reconciler_violations ?w ?r = [Write_Protect, Frame_Arena_Within]"
    by (simp add: reconciler_violations_def reconciler_holds_def registered_def)
  have "fst (kernel_reconciler_check ?w ?r) = 2"
    using reconciler_check_exact [of ?r ?w] v by (simp add: corrupting_drops_def registered_def split: prod.splits)
  then show ?thesis using v by blast
qed

end
