(* ===== verification/Boot_Module.thy ===== *)
theory Boot_Module
  imports Pmm_Init Libc_String "HOL-Library.Sublist"
begin

text \<open>
  Finding a boot module by the suffix of its name (\<open>src/kernel/arch/i386/boot/boot_module.c\<close>), the weights slot built on it
  (\<open>src/kernel/kernel/ai/model_slot.c\<close>), and the token budget of \<open>src/kernel/kernel/ai/inference_budget.c\<close>. The module table and the names
  lie in the byte memory, as the boot loader left them; strings are pointers, and a null out-pointer is the
  argument \<open>outs = False\<close>.
\<close>

section \<open>Module lookup\<close>

definition boot_module_phys_to_virt :: "u32 \<Rightarrow> u32" where
  "boot_module_phys_to_virt phys_addr = phys_addr + 0xC0000000"

definition boot_module_string_length :: "mem \<Rightarrow> u32 \<Rightarrow> nat \<Rightarrow> nat" where
  "boot_module_string_length m text limit = length (takeWhile (\<lambda>i. m (text + of_nat i) \<noteq> 0) [0..<limit])"

definition boot_module_ends_with :: "mem \<Rightarrow> u32 \<Rightarrow> nat \<Rightarrow> u32 \<Rightarrow> nat \<Rightarrow> bool" where
  "boot_module_ends_with m text text_length suffix_text suffix_length =
     (if text_length < suffix_length then False
      else let tail = text + of_nat (text_length - suffix_length)
           in list_all (\<lambda>i. m (tail + of_nat i) = m (suffix_text + of_nat i)) [0..<suffix_length])"

definition boot_module_count :: "multiboot_info option \<Rightarrow> u32" where
  "boot_module_count info =
     (case info of
        None \<Rightarrow> 0
      | Some mb \<Rightarrow> if mb_flags mb AND 8 = 0 then 0 else if mb_mods_addr mb = 0 then 0 else mb_mods_count mb)"

text \<open>The entry at \<open>entry\<close> passes the tests of the loop: start, end and name are its first three words.\<close>

definition boot_module_matches :: "mem \<Rightarrow> u32 \<Rightarrow> u32 \<Rightarrow> nat \<Rightarrow> u32 \<Rightarrow> bool" where
  "boot_module_matches m count suffix_text suffix_length entry =
     (let start = load32 m entry; finish = load32 m (entry + 4); name = load32 m (entry + 8) in
      if finish \<le> start then False
      else if name \<noteq> 0 then
        let name = boot_module_phys_to_virt name
        in boot_module_ends_with m name (boot_module_string_length m name 256) suffix_text suffix_length
      else \<not> 1 < count)"

definition boot_module_find :: "mem \<Rightarrow> multiboot_info option \<Rightarrow> u32 \<Rightarrow> bool \<Rightarrow> (u32 \<times> u32) option" where
  "boot_module_find m info suffix_text outs =
     (if suffix_text = 0 \<or> \<not> outs then None
      else
        let count = boot_module_count info in
        if count = 0 then None
        else
          let modules = boot_module_phys_to_virt (mb_mods_addr (the info));
              suffix_length = boot_module_string_length m suffix_text 64;
              entry = (\<lambda>i. modules + of_nat (16 * i))
          in case find (\<lambda>i. boot_module_matches m count suffix_text suffix_length (entry i)) [0..<unat count] of
               None \<Rightarrow> None
             | Some i \<Rightarrow> Some (boot_module_phys_to_virt (load32 m (entry i)), load32 m (entry i + 4) - load32 m (entry i)))"

section \<open>The weights slot\<close>

datatype model_slot_state = Model_Slot_Empty | Model_Slot_Malformed | Model_Slot_Loaded

record model_slot =
  slot_state :: model_slot_state
  slot_bytes :: u32
  slot_size :: u32
  slot_magic :: u32

text \<open>\<open>name\<close> is the address of the suffix literal \<open>.lplmind\<close>.\<close>

definition kernel_model_slot_probe :: "mem \<Rightarrow> multiboot_info option \<Rightarrow> u32 \<Rightarrow> bool \<times> model_slot" where
  "kernel_model_slot_probe m info name =
     (let out = \<lparr>slot_state = Model_Slot_Empty, slot_bytes = 0, slot_size = 0, slot_magic = 0\<rparr> in
      case boot_module_find m info name True of
        None \<Rightarrow> (False, out)
      | Some (bytes, len) \<Rightarrow>
          let out = out\<lparr>slot_bytes := bytes, slot_size := len\<rparr> in
          if len < 36 then (False, out\<lparr>slot_state := Model_Slot_Malformed\<rparr>)
          else
            let magic = ucast (m bytes) OR push_bit 8 (ucast (m (bytes + 1))) OR push_bit 16 (ucast (m (bytes + 2)))
                  OR push_bit 24 (ucast (m (bytes + 3)));
                out = out\<lparr>slot_magic := magic\<rparr>
            in if magic \<noteq> 0x4D4C504C then (False, out\<lparr>slot_state := Model_Slot_Malformed\<rparr>)
               else (True, out\<lparr>slot_state := Model_Slot_Loaded\<rparr>))"

definition kernel_model_slot_state_text :: "model_slot option \<Rightarrow> string" where
  "kernel_model_slot_state_text slot =
     (case slot of
        None \<Rightarrow> ''empty''
      | Some s \<Rightarrow> (case slot_state s of Model_Slot_Loaded \<Rightarrow> ''loaded'' | Model_Slot_Malformed \<Rightarrow> ''malformed'' | Model_Slot_Empty \<Rightarrow> ''empty''))"

section \<open>The token budget\<close>

record inference_budget =
  inference_budget_granted :: u32
  inference_budget_remaining :: u32
  inference_budget_denied :: u32

definition kernel_inference_budget_open :: "u32 \<Rightarrow> inference_budget \<Rightarrow> inference_budget" where
  "kernel_inference_budget_open tokens b = b\<lparr>inference_budget_granted := tokens, inference_budget_remaining := tokens\<rparr>"

definition kernel_inference_budget_claim :: "inference_budget \<Rightarrow> bool \<times> inference_budget" where
  "kernel_inference_budget_claim b =
     (if inference_budget_remaining b = 0 then (False, b\<lparr>inference_budget_denied := inference_budget_denied b + 1\<rparr>)
      else (True, b\<lparr>inference_budget_remaining := inference_budget_remaining b - 1\<rparr>))"

definition kernel_inference_budget_spent :: "inference_budget \<Rightarrow> u32" where
  "kernel_inference_budget_spent b = inference_budget_granted b - inference_budget_remaining b"

definition kernel_inference_budget_concluding :: "inference_budget \<Rightarrow> bool" where
  "kernel_inference_budget_concluding b =
     (if inference_budget_granted b = 0 then True
      else inference_budget_remaining b * 10 \<le> inference_budget_granted b)"

fun budget_claims :: "nat \<Rightarrow> inference_budget \<Rightarrow> nat \<times> inference_budget" where
  "budget_claims 0 b = (0, b)"
| "budget_claims (Suc n) b =
     (let (ok, b) = kernel_inference_budget_claim b; (granted, b) = budget_claims n b in (if ok then Suc granted else granted, b))"

text \<open>Of any number of claims exactly as many succeed as the budget has tokens, and the others are counted.\<close>

lemma budget_claims_exact:
  "budget_claims n b = (min n (unat (inference_budget_remaining b)),
     b\<lparr>inference_budget_remaining := inference_budget_remaining b - of_nat (min n (unat (inference_budget_remaining b))),
       inference_budget_denied := inference_budget_denied b + of_nat (n - unat (inference_budget_remaining b))\<rparr>)"
proof (induction n arbitrary: b)
  case (Suc n)
  show ?case
  proof (cases "inference_budget_remaining b = 0")
    case True
    then show ?thesis by (simp add: kernel_inference_budget_claim_def Suc algebra_simps)
  next
    case False
    then have "unat (inference_budget_remaining b) = Suc (unat (inference_budget_remaining b - 1))"
      by (simp add: unat_minus_one unat_eq_zero Suc_pred' [symmetric] unat_gt_0)
    then show ?thesis using False by (simp add: kernel_inference_budget_claim_def Suc algebra_simps)
  qed
qed simp

section \<open>What the lookup finds\<close>

lemma string_length_le: "boot_module_string_length m text limit \<le> limit"
  using length_takeWhile_le [of _ "[0..<limit]"] by (simp add: boot_module_string_length_def)

lemma ends_with_iff:
  "boot_module_ends_with m text n suffix_text k \<longleftrightarrow> suffix (mem_bytes m suffix_text k) (mem_bytes m text n)"
proof (cases "k \<le> n")
  case True
  have "suffix (mem_bytes m suffix_text k) (mem_bytes m text n) \<longleftrightarrow> mem_bytes m suffix_text k = drop (n - k) (mem_bytes m text n)"
  proof
    assume "suffix (mem_bytes m suffix_text k) (mem_bytes m text n)"
    then obtain zs where zs: "mem_bytes m text n = zs @ mem_bytes m suffix_text k" by (auto simp: suffix_def)
    then have "length zs = n - k" using length_mem_bytes [of m "text" n] by simp
    then show "mem_bytes m suffix_text k = drop (n - k) (mem_bytes m text n)" by (simp add: zs)
  qed (simp add: suffix_drop)
  also have "\<dots> \<longleftrightarrow> boot_module_ends_with m text n suffix_text k"
    using True by (auto simp: list_eq_iff_nth_eq mem_bytes_def boot_module_ends_with_def Let_def list_all_iff algebra_simps)
  finally show ?thesis by simp
next
  case False
  then show ?thesis using suffix_length_le [of "mem_bytes m suffix_text k" "mem_bytes m text n"] by (auto simp: boot_module_ends_with_def)
qed

definition c_string :: "mem \<Rightarrow> u32 \<Rightarrow> nat \<Rightarrow> u8 list" where
  "c_string m text limit = mem_bytes m text (boot_module_string_length m text limit)"

lemma boot_module_matches_iff:
  "boot_module_matches m count suffix_text (boot_module_string_length m suffix_text 64) entry \<longleftrightarrow>
    load32 m entry < load32 m (entry + 4) \<and>
    (if load32 m (entry + 8) = 0 then count \<le> 1
     else suffix (c_string m suffix_text 64) (c_string m (boot_module_phys_to_virt (load32 m (entry + 8))) 256))"
  by (auto simp: boot_module_matches_def Let_def ends_with_iff c_string_def not_less not_le)

lemma boot_module_find_first:
  assumes "boot_module_find m info suffix_text True = Some (bytes, len)"
  defines "entry \<equiv> \<lambda>i. boot_module_phys_to_virt (mb_mods_addr (the info)) + of_nat (16 * i)"
    and "ok \<equiv> boot_module_matches m (boot_module_count info) suffix_text (boot_module_string_length m suffix_text 64)"
  obtains i where "i < unat (boot_module_count info)" "ok (entry i)" "\<forall>j < i. \<not> ok (entry j)"
    "bytes = boot_module_phys_to_virt (load32 m (entry i))" "unat len = unat (load32 m (entry i + 4)) - unat (load32 m (entry i))" "0 < len"
proof -
  obtain i where i: "find (\<lambda>i. ok (entry i)) [0..<unat (boot_module_count info)] = Some i"
    "bytes = boot_module_phys_to_virt (load32 m (entry i))" "len = load32 m (entry i + 4) - load32 m (entry i)"
    using assms(1) by (auto simp: boot_module_find_def Let_def entry_def ok_def split: if_splits option.splits)
  have f: "i < unat (boot_module_count info)" "ok (entry i)" "\<forall>j < i. \<not> ok (entry j)" using i(1) by (auto simp: find_Some_iff)
  then have "load32 m (entry i) < load32 m (entry i + 4)" by (simp add: ok_def boot_module_matches_iff)
  then have "unat len = unat (load32 m (entry i + 4)) - unat (load32 m (entry i))" "0 < len"
    using i(3) by (auto simp: unat_sub word_less_nat_alt word_le_nat_alt)
  then show thesis using f i(2) by (intro that)
qed

lemma model_slot_probe_iff:
  assumes "kernel_model_slot_probe m info name = (ok, slot)"
  shows "ok \<longleftrightarrow> (\<exists>bytes len. boot_module_find m info name True = Some (bytes, len) \<and> 36 \<le> len \<and> load32 m bytes = 0x4D4C504C)"
    "ok \<longleftrightarrow> slot_state slot = Model_Slot_Loaded" "slot_state slot = Model_Slot_Empty \<longleftrightarrow> boot_module_find m info name True = None"
  using assms by (auto simp: kernel_model_slot_probe_def Let_def load32_def not_less split: option.splits if_splits prod.splits)

text \<open>
  The interface declares the base address null unless the image is loaded, but a malformed image leaves the address of
  the module in the result.
\<close>

lemma malformed_slot_keeps_address:
  assumes "boot_module_find m info name True = Some (bytes, len)" "len < 36"
  shows "kernel_model_slot_probe m info name =
    (False, \<lparr>slot_state = Model_Slot_Malformed, slot_bytes = bytes, slot_size = len, slot_magic = 0\<rparr>)"
  using assms by (simp add: kernel_model_slot_probe_def Let_def)

end
