(* ===== verification/Dialogue.thy ===== *)
theory Dialogue
  imports Fifo
begin

text \<open>
  \<open>src/kernel/kernel/dialogue/dialogue_channel.c\<close>: two byte rings of 512 slots with free-running
  indices, one per direction, and a shared count of dropped bytes. An out-parameter is modelled by the
  value it receives; \<open>out\<close> says whether the caller passed a non-null pointer.
\<close>

abbreviation (input) KERNEL_DIALOGUE_CHANNEL_CAPACITY :: u32 where "KERNEL_DIALOGUE_CHANNEL_CAPACITY \<equiv> 512"
abbreviation (input) KERNEL_DIALOGUE_CHANNEL_MASK :: u32 where "KERNEL_DIALOGUE_CHANNEL_MASK \<equiv> 511"

record dialogue_ring =
  ring_bytes :: "u8 list"
  ring_head :: u32
  ring_tail :: u32

record dialogue_channel =
  dialogue_to_demon :: dialogue_ring
  dialogue_to_sovereign :: dialogue_ring
  dialogue_dropped :: u32

definition dialogue_ring_push :: "u8 \<Rightarrow> dialogue_ring \<Rightarrow> u32 \<Rightarrow> bool \<times> dialogue_ring \<times> u32" where
  "dialogue_ring_push byte ring dropped =
     (let head = ring_head ring; tail = ring_tail ring in
      if KERNEL_DIALOGUE_CHANNEL_CAPACITY \<le> head - tail then (False, ring, dropped + 1)
      else (True, ring\<lparr>ring_bytes := (ring_bytes ring)[unat (head AND KERNEL_DIALOGUE_CHANNEL_MASK) := byte],
                       ring_head := head + 1\<rparr>, dropped))"

definition dialogue_ring_pop :: "dialogue_ring \<Rightarrow> u8 option \<times> dialogue_ring" where
  "dialogue_ring_pop ring =
     (let tail = ring_tail ring in
      if ring_head ring = tail then (None, ring)
      else (Some (ring_bytes ring ! unat (tail AND KERNEL_DIALOGUE_CHANNEL_MASK)), ring\<lparr>ring_tail := tail + 1\<rparr>))"

definition kernel_dialogue_channel_reset :: "dialogue_channel \<Rightarrow> dialogue_channel" where
  "kernel_dialogue_channel_reset c = c\<lparr>
     dialogue_to_demon := (dialogue_to_demon c)\<lparr>ring_head := 0, ring_tail := 0\<rparr>,
     dialogue_to_sovereign := (dialogue_to_sovereign c)\<lparr>ring_head := 0, ring_tail := 0\<rparr>,
     dialogue_dropped := 0\<rparr>"

definition kernel_dialogue_channel_offer_to_demon :: "u8 \<Rightarrow> dialogue_channel \<Rightarrow> bool \<times> dialogue_channel" where
  "kernel_dialogue_channel_offer_to_demon byte c =
     (let (ok, ring, dropped) = dialogue_ring_push byte (dialogue_to_demon c) (dialogue_dropped c)
      in (ok, c\<lparr>dialogue_to_demon := ring, dialogue_dropped := dropped\<rparr>))"

definition kernel_dialogue_channel_take_for_demon :: "bool \<Rightarrow> dialogue_channel \<Rightarrow> u8 option \<times> dialogue_channel" where
  "kernel_dialogue_channel_take_for_demon out c =
     (if \<not> out then (None, c)
      else let (r, ring) = dialogue_ring_pop (dialogue_to_demon c) in (r, c\<lparr>dialogue_to_demon := ring\<rparr>))"

definition kernel_dialogue_channel_offer_to_sovereign :: "u8 \<Rightarrow> dialogue_channel \<Rightarrow> bool \<times> dialogue_channel" where
  "kernel_dialogue_channel_offer_to_sovereign byte c =
     (let (ok, ring, dropped) = dialogue_ring_push byte (dialogue_to_sovereign c) (dialogue_dropped c)
      in (ok, c\<lparr>dialogue_to_sovereign := ring, dialogue_dropped := dropped\<rparr>))"

definition kernel_dialogue_channel_take_for_sovereign :: "bool \<Rightarrow> dialogue_channel \<Rightarrow> u8 option \<times> dialogue_channel" where
  "kernel_dialogue_channel_take_for_sovereign out c =
     (if \<not> out then (None, c)
      else let (r, ring) = dialogue_ring_pop (dialogue_to_sovereign c) in (r, c\<lparr>dialogue_to_sovereign := ring\<rparr>))"

definition kernel_dialogue_channel_pending_for_demon :: "dialogue_channel \<Rightarrow> u32" where
  "kernel_dialogue_channel_pending_for_demon c = ring_head (dialogue_to_demon c) - ring_tail (dialogue_to_demon c)"

definition kernel_dialogue_channel_pending_for_sovereign :: "dialogue_channel \<Rightarrow> u32" where
  "kernel_dialogue_channel_pending_for_sovereign c =
     ring_head (dialogue_to_sovereign c) - ring_tail (dialogue_to_sovereign c)"

section \<open>Each direction is a bounded FIFO\<close>

definition dialogue_ring_inv :: "dialogue_ring \<Rightarrow> bool" where
  "dialogue_ring_inv r \<longleftrightarrow> length (ring_bytes r) = 512 \<and> unat (ring_head r - ring_tail r) \<le> 512"

definition dialogue_ring_contents :: "dialogue_ring \<Rightarrow> u8 list" where
  "dialogue_ring_contents r = ring_contents (ring_bytes r) (ring_head r) (ring_tail r)"

lemma unat_and_511: "unat ((x::u32) AND 511) = unat x mod 512"
  using unat_and_mask [of 9 x] by simp

lemma dialogue_push_room:
  assumes "dialogue_ring_inv r" "length (dialogue_ring_contents r) < 512"
  shows "\<exists>r'. dialogue_ring_push b r d = (True, r', d) \<and> dialogue_ring_inv r' \<and>
    dialogue_ring_contents r' = dialogue_ring_contents r @ [b]"
proof -
  let ?n = "ring_head r - ring_tail r"
  have n: "unat ?n < 512" using assms(2) by (simp add: dialogue_ring_contents_def)
  have "ring_contents ((ring_bytes r)[unat (ring_head r AND 511) := b]) (ring_head r + 1) (ring_tail r) =
      ring_contents (ring_bytes r) (ring_head r) (ring_tail r) @ [b]"
    using ring_push [of "ring_bytes r" 9 "ring_head r" "ring_tail r" b] assms(1) n
    by (simp add: dialogue_ring_inv_def unat_and_511)
  moreover from arg_cong [OF this, of length] have "unat (ring_head r + 1 - ring_tail r) = Suc (unat ?n)" by simp
  ultimately show ?thesis
    using assms(1) n
    by (simp add: dialogue_ring_push_def Let_def dialogue_ring_inv_def dialogue_ring_contents_def word_le_nat_alt)
qed

lemma dialogue_push_full:
  "length (dialogue_ring_contents r) = 512 \<Longrightarrow> dialogue_ring_push b r d = (False, r, d + 1)"
  by (simp add: dialogue_ring_push_def Let_def dialogue_ring_contents_def word_le_nat_alt)

lemma dialogue_pop_cons:
  assumes "dialogue_ring_inv r" "dialogue_ring_contents r = b # bs"
  shows "\<exists>r'. dialogue_ring_pop r = (Some b, r') \<and> dialogue_ring_inv r' \<and> dialogue_ring_contents r' = bs"
proof -
  have ne: "ring_head r \<noteq> ring_tail r" using assms(2) by (auto simp: dialogue_ring_contents_def)
  show ?thesis
    using assms ring_pop [OF ne, of "ring_bytes r"] ring_pop_count [OF ne] ne
    by (simp add: dialogue_ring_pop_def Let_def dialogue_ring_inv_def dialogue_ring_contents_def unat_and_511)
qed

lemma dialogue_pop_empty:
  assumes "dialogue_ring_contents r = []"
  shows "dialogue_ring_pop r = (None, r)"
proof -
  have "unat (ring_head r - ring_tail r) = 0" using arg_cong [OF assms, of length] by (simp add: dialogue_ring_contents_def)
  then have "ring_head r = ring_tail r" by (simp only: unat_eq_zero) simp
  then show ?thesis by (simp add: dialogue_ring_pop_def)
qed

definition dialogue_inv :: "dialogue_channel \<Rightarrow> bool" where
  "dialogue_inv c \<longleftrightarrow> dialogue_ring_inv (dialogue_to_demon c) \<and> dialogue_ring_inv (dialogue_to_sovereign c)"

interpretation demon_fifo: bounded_fifo dialogue_inv "\<lambda>c. dialogue_ring_contents (dialogue_to_demon c)" "\<lambda>_. 512"
  kernel_dialogue_channel_offer_to_demon "kernel_dialogue_channel_take_for_demon True"
proof
  fix c :: dialogue_channel and b bs assume inv: "dialogue_inv c"
  then show "length (dialogue_ring_contents (dialogue_to_demon c)) \<le> 512"
    by (simp add: dialogue_inv_def dialogue_ring_inv_def dialogue_ring_contents_def)
  show "\<exists>c'. kernel_dialogue_channel_offer_to_demon b c = (True, c') \<and> dialogue_inv c' \<and>
      dialogue_ring_contents (dialogue_to_demon c') = dialogue_ring_contents (dialogue_to_demon c) @ [b] \<and> (512::nat) = 512"
    if "length (dialogue_ring_contents (dialogue_to_demon c)) < 512"
    using dialogue_push_room [OF _ that, of b "dialogue_dropped c"] inv
    by (auto simp: kernel_dialogue_channel_offer_to_demon_def dialogue_inv_def)
  show "\<exists>c'. kernel_dialogue_channel_offer_to_demon b c = (False, c') \<and> dialogue_inv c' \<and>
      dialogue_ring_contents (dialogue_to_demon c') = dialogue_ring_contents (dialogue_to_demon c) \<and> (512::nat) = 512"
    if "length (dialogue_ring_contents (dialogue_to_demon c)) = 512"
    using dialogue_push_full [OF that] inv by (simp add: kernel_dialogue_channel_offer_to_demon_def dialogue_inv_def)
  show "\<exists>c'. kernel_dialogue_channel_take_for_demon True c = (Some b, c') \<and> dialogue_inv c' \<and>
      dialogue_ring_contents (dialogue_to_demon c') = bs \<and> (512::nat) = 512"
    if "dialogue_ring_contents (dialogue_to_demon c) = b # bs"
    using dialogue_pop_cons [OF _ that] inv by (auto simp: kernel_dialogue_channel_take_for_demon_def dialogue_inv_def)
  show "\<exists>c'. kernel_dialogue_channel_take_for_demon True c = (None, c') \<and> dialogue_inv c' \<and>
      dialogue_ring_contents (dialogue_to_demon c') = [] \<and> (512::nat) = 512"
    if "dialogue_ring_contents (dialogue_to_demon c) = []"
    using dialogue_pop_empty [OF that] inv that by (simp add: kernel_dialogue_channel_take_for_demon_def)
qed

interpretation sovereign_fifo: bounded_fifo dialogue_inv "\<lambda>c. dialogue_ring_contents (dialogue_to_sovereign c)" "\<lambda>_. 512"
  kernel_dialogue_channel_offer_to_sovereign "kernel_dialogue_channel_take_for_sovereign True"
proof
  fix c :: dialogue_channel and b bs assume inv: "dialogue_inv c"
  then show "length (dialogue_ring_contents (dialogue_to_sovereign c)) \<le> 512"
    by (simp add: dialogue_inv_def dialogue_ring_inv_def dialogue_ring_contents_def)
  show "\<exists>c'. kernel_dialogue_channel_offer_to_sovereign b c = (True, c') \<and> dialogue_inv c' \<and>
      dialogue_ring_contents (dialogue_to_sovereign c') = dialogue_ring_contents (dialogue_to_sovereign c) @ [b] \<and> (512::nat) = 512"
    if "length (dialogue_ring_contents (dialogue_to_sovereign c)) < 512"
    using dialogue_push_room [OF _ that, of b "dialogue_dropped c"] inv
    by (auto simp: kernel_dialogue_channel_offer_to_sovereign_def dialogue_inv_def)
  show "\<exists>c'. kernel_dialogue_channel_offer_to_sovereign b c = (False, c') \<and> dialogue_inv c' \<and>
      dialogue_ring_contents (dialogue_to_sovereign c') = dialogue_ring_contents (dialogue_to_sovereign c) \<and> (512::nat) = 512"
    if "length (dialogue_ring_contents (dialogue_to_sovereign c)) = 512"
    using dialogue_push_full [OF that] inv by (simp add: kernel_dialogue_channel_offer_to_sovereign_def dialogue_inv_def)
  show "\<exists>c'. kernel_dialogue_channel_take_for_sovereign True c = (Some b, c') \<and> dialogue_inv c' \<and>
      dialogue_ring_contents (dialogue_to_sovereign c') = bs \<and> (512::nat) = 512"
    if "dialogue_ring_contents (dialogue_to_sovereign c) = b # bs"
    using dialogue_pop_cons [OF _ that] inv by (auto simp: kernel_dialogue_channel_take_for_sovereign_def dialogue_inv_def)
  show "\<exists>c'. kernel_dialogue_channel_take_for_sovereign True c = (None, c') \<and> dialogue_inv c' \<and>
      dialogue_ring_contents (dialogue_to_sovereign c') = [] \<and> (512::nat) = 512"
    if "dialogue_ring_contents (dialogue_to_sovereign c) = []"
    using dialogue_pop_empty [OF that] inv that by (simp add: kernel_dialogue_channel_take_for_sovereign_def)
qed

section \<open>Losses are counted, and the directions do not interfere\<close>

lemma offer_to_demon_frame:
  "kernel_dialogue_channel_offer_to_demon b c = (ok, c') \<Longrightarrow>
   dialogue_to_sovereign c' = dialogue_to_sovereign c \<and> dialogue_dropped c' = dialogue_dropped c + (if ok then 0 else 1)"
  by (auto simp: kernel_dialogue_channel_offer_to_demon_def dialogue_ring_push_def Let_def split: if_splits)

lemma take_for_demon_frame:
  "kernel_dialogue_channel_take_for_demon out c = (r, c') \<Longrightarrow>
   dialogue_to_sovereign c' = dialogue_to_sovereign c \<and> dialogue_dropped c' = dialogue_dropped c"
  by (auto simp: kernel_dialogue_channel_take_for_demon_def split: if_splits prod.splits)

fun offers :: "'a fifo_event list \<Rightarrow> nat" where
  "offers [] = 0"
| "offers (Offer x # es) = Suc (offers es)"
| "offers (Take # es) = offers es"

lemma demon_run_frame:
  "fifo_run kernel_dialogue_channel_offer_to_demon (kernel_dialogue_channel_take_for_demon True) es c = (acc, del, c') \<Longrightarrow>
   dialogue_to_sovereign c' = dialogue_to_sovereign c \<and> length acc \<le> offers es \<and>
   dialogue_dropped c' = dialogue_dropped c + of_nat (offers es - length acc)"
proof (induction es arbitrary: c acc del)
  case (Cons e es)
  show ?case
  proof (cases e)
    case (Offer b)
    obtain ok t where t: "kernel_dialogue_channel_offer_to_demon b c = (ok, t)" by (cases "kernel_dialogue_channel_offer_to_demon b c")
    obtain a d where r: "fifo_run kernel_dialogue_channel_offer_to_demon (kernel_dialogue_channel_take_for_demon True) es t = (a, d, c')"
      "acc = (if ok then b # a else a)" using Cons.prems Offer t by (auto split: prod.splits)
    show ?thesis using Cons.IH [OF r(1)] offer_to_demon_frame [OF t] r(2) Offer by (auto simp: Suc_diff_le)
  next
    case Take
    obtain v t where t: "kernel_dialogue_channel_take_for_demon True c = (v, t)" by (cases "kernel_dialogue_channel_take_for_demon True c")
    obtain d where "fifo_run kernel_dialogue_channel_offer_to_demon (kernel_dialogue_channel_take_for_demon True) es t = (acc, d, c')"
      using Cons.prems Take t by (auto split: prod.splits)
    from Cons.IH [OF this] show ?thesis using take_for_demon_frame [OF t] Take by auto
  qed
qed simp


text \<open>A channel whose indices are about to wrap, with one byte waiting.\<close>

definition wrapping_channel :: dialogue_channel where
  "wrapping_channel = \<lparr>
     dialogue_to_demon = \<lparr>ring_bytes = (replicate 512 0)[510 := 7], ring_head = 0xFFFFFFFF, ring_tail = 0xFFFFFFFE\<rparr>,
     dialogue_to_sovereign = \<lparr>ring_bytes = replicate 512 0, ring_head = 0, ring_tail = 0\<rparr>,
     dialogue_dropped = 0\<rparr>"

lemmas wrapping_defs = wrapping_channel_def dialogue_inv_def dialogue_ring_inv_def dialogue_ring_contents_def ring_contents_def
  kernel_dialogue_channel_offer_to_demon_def kernel_dialogue_channel_take_for_demon_def dialogue_ring_push_def dialogue_ring_pop_def


end
