(* ===== verification/Ps2_Keyboard.thy ===== *)
theory Ps2_Keyboard
  imports Fifo
begin

text \<open>
  \<open>src/kernel/arch/i386/drivers/ps2_keyboard.c\<close>, the scan code set 1 decoder with its two layouts, and
  \<open>src/kernel/arch/i386/drivers/keyboard.c\<close>, the ring between the interrupt handler and the console.
  A \<open>char\<close> is its byte; the flags the code keeps as \<open>uint8_t\<close> 0 or 1 are booleans, and an array
  initialiser with designators is \<open>designated\<close>. The decoder state is related to the keys that are down
  according to the stream of scan codes itself.
\<close>

section \<open>Layout tables\<close>

definition designated :: "(nat \<times> char) list \<Rightarrow> u8 list" where
  "designated entries = map (\<lambda>i. case map_of entries i of None \<Rightarrow> 0 | Some c \<Rightarrow> of_char c) [0..<128]"

definition personal_system_2_layout_us_base :: "u8 list" where
  "personal_system_2_layout_us_base =
     map of_char (CHR 0x00 # CHR 0x1B # ''1234567890-='' @ CHR 0x08 # CHR 0x09 # ''qwertyuiop[]'' @ CHR 0x0A # CHR 0x00 #
       ''asdfghjkl;'' @ CHR 0x27 # CHR 0x60 # CHR 0x00 # CHR 0x5C # ''zxcvbnm,./'' @ CHR 0x00 # ''*'' @ CHR 0x00 # '' '') @
     replicate 70 0"

definition personal_system_2_layout_us_shift :: "u8 list" where
  "personal_system_2_layout_us_shift =
     map of_char (CHR 0x00 # CHR 0x1B # ''!@#$%^&*()_+'' @ CHR 0x08 # CHR 0x09 # ''QWERTYUIOP{}'' @ CHR 0x0A # CHR 0x00 #
       ''ASDFGHJKL:'' @ CHR 0x22 # CHR 0x7E # CHR 0x00 # CHR 0x7C # ''ZXCVBNM<>?'' @ CHR 0x00 # ''*'' @ CHR 0x00 # '' '') @
     replicate 70 0"

definition personal_system_2_layout_us_altgr :: "u8 list" where
  "personal_system_2_layout_us_altgr = replicate 128 0"

definition personal_system_2_layout_fr_base :: "u8 list" where
  "personal_system_2_layout_fr_base = designated [
     (0x01, CHR 0x1B), (0x02, CHR ''&''), (0x03, CHR 0x82), (0x04, CHR 0x22), (0x05, CHR 0x27), (0x06, CHR ''(''), (0x07, CHR ''-''),
     (0x08, CHR 0x8A), (0x09, CHR ''_''), (0x0A, CHR 0x87), (0x0B, CHR 0x85), (0x0C, CHR '')''), (0x0D, CHR ''=''), (0x0E, CHR 0x08),
     (0x0F, CHR 0x09), (0x10, CHR ''a''), (0x11, CHR ''z''), (0x12, CHR ''e''), (0x13, CHR ''r''), (0x14, CHR ''t''), (0x15, CHR ''y''),
     (0x16, CHR ''u''), (0x17, CHR ''i''), (0x18, CHR ''o''), (0x19, CHR ''p''), (0x1A, CHR ''^''), (0x1B, CHR ''$''), (0x1C, CHR 0x0A),
     (0x1E, CHR ''q''), (0x1F, CHR ''s''), (0x20, CHR ''d''), (0x21, CHR ''f''), (0x22, CHR ''g''), (0x23, CHR ''h''), (0x24, CHR ''j''),
     (0x25, CHR ''k''), (0x26, CHR ''l''), (0x27, CHR ''m''), (0x28, CHR 0x97), (0x29, CHR 0xFD), (0x2B, CHR ''*''), (0x2C, CHR ''w''),
     (0x2D, CHR ''x''), (0x2E, CHR ''c''), (0x2F, CHR ''v''), (0x30, CHR ''b''), (0x31, CHR ''n''), (0x32, CHR '',''), (0x33, CHR '';''),
     (0x34, CHR '':''), (0x35, CHR ''!''), (0x37, CHR ''*''), (0x39, CHR '' '')]"

definition personal_system_2_layout_fr_shift :: "u8 list" where
  "personal_system_2_layout_fr_shift = designated [
     (0x01, CHR 0x1B), (0x02, CHR ''1''), (0x03, CHR ''2''), (0x04, CHR ''3''), (0x05, CHR ''4''), (0x06, CHR ''5''), (0x07, CHR ''6''),
     (0x08, CHR ''7''), (0x09, CHR ''8''), (0x0A, CHR ''9''), (0x0B, CHR ''0''), (0x0C, CHR 0xF8), (0x0D, CHR ''+''), (0x0E, CHR 0x08),
     (0x0F, CHR 0x09), (0x10, CHR ''A''), (0x11, CHR ''Z''), (0x12, CHR ''E''), (0x13, CHR ''R''), (0x14, CHR ''T''), (0x15, CHR ''Y''),
     (0x16, CHR ''U''), (0x17, CHR ''I''), (0x18, CHR ''O''), (0x19, CHR ''P''), (0x1B, CHR 0x9C), (0x1C, CHR 0x0A), (0x1E, CHR ''Q''),
     (0x1F, CHR ''S''), (0x20, CHR ''D''), (0x21, CHR ''F''), (0x22, CHR ''G''), (0x23, CHR ''H''), (0x24, CHR ''J''), (0x25, CHR ''K''),
     (0x26, CHR ''L''), (0x27, CHR ''M''), (0x28, CHR ''%''), (0x29, CHR 0xFC), (0x2B, CHR 0xE6), (0x2C, CHR ''W''), (0x2D, CHR ''X''),
     (0x2E, CHR ''C''), (0x2F, CHR ''V''), (0x30, CHR ''B''), (0x31, CHR ''N''), (0x32, CHR ''?''), (0x33, CHR ''.''), (0x34, CHR ''/''),
     (0x35, CHR 0x15), (0x37, CHR ''*''), (0x39, CHR '' '')]"

definition personal_system_2_layout_fr_altgr :: "u8 list" where
  "personal_system_2_layout_fr_altgr = designated [
     (0x03, CHR ''~''), (0x04, CHR ''#''), (0x05, CHR ''{''), (0x06, CHR ''[''), (0x07, CHR ''|''), (0x08, CHR 0x60), (0x09, CHR 0x5C),
     (0x0A, CHR ''^''), (0x0B, CHR ''@''), (0x0C, CHR '']''), (0x0D, CHR ''}'')]"

section \<open>The decoder\<close>

datatype personal_system_2_keyboard_layout =
  PERSONAL_SYSTEM_2_KEYBOARD_LAYOUT_UNITED_STATES_QWERTY | PERSONAL_SYSTEM_2_KEYBOARD_LAYOUT_FRENCH_AZERTY

record ps2_keyboard =
  personal_system_2_shift_left_state :: bool
  personal_system_2_shift_right_state :: bool
  personal_system_2_ctrl_left_state :: bool
  personal_system_2_ctrl_right_state :: bool
  personal_system_2_alt_left_state :: bool
  personal_system_2_alt_right_state :: bool
  personal_system_2_caps_lock_state :: bool
  personal_system_2_extended_pending :: bool
  personal_system_2_key_down_bitmap :: "u8 list"
  personal_system_2_active_layout :: personal_system_2_keyboard_layout

definition ps2_keyboard_static :: ps2_keyboard where
  "ps2_keyboard_static = \<lparr>
     personal_system_2_shift_left_state = False, personal_system_2_shift_right_state = False,
     personal_system_2_ctrl_left_state = False, personal_system_2_ctrl_right_state = False,
     personal_system_2_alt_left_state = False, personal_system_2_alt_right_state = False,
     personal_system_2_caps_lock_state = False, personal_system_2_extended_pending = False,
     personal_system_2_key_down_bitmap = replicate 16 0,
     personal_system_2_active_layout = PERSONAL_SYSTEM_2_KEYBOARD_LAYOUT_UNITED_STATES_QWERTY\<rparr>"

definition personal_system_2_keyboard_select_tables :: "ps2_keyboard \<Rightarrow> u8 list \<times> u8 list \<times> u8 list" where
  "personal_system_2_keyboard_select_tables k = (case personal_system_2_active_layout k of
     PERSONAL_SYSTEM_2_KEYBOARD_LAYOUT_FRENCH_AZERTY \<Rightarrow>
       (personal_system_2_layout_fr_base, personal_system_2_layout_fr_shift, personal_system_2_layout_fr_altgr)
   | PERSONAL_SYSTEM_2_KEYBOARD_LAYOUT_UNITED_STATES_QWERTY \<Rightarrow>
       (personal_system_2_layout_us_base, personal_system_2_layout_us_shift, personal_system_2_layout_us_altgr))"

abbreviation (input) char_code :: "char \<Rightarrow> u8" where "char_code c \<equiv> of_char c"

definition personal_system_2_keyboard_translate_make_code :: "u8 \<Rightarrow> ps2_keyboard \<Rightarrow> u8" where
  "personal_system_2_keyboard_translate_make_code code k =
     (if 128 \<le> code then 0 else
      let (base, shift, altgr) = personal_system_2_keyboard_select_tables k;
          decoded = (if personal_system_2_alt_right_state k then altgr ! unat code
                     else if personal_system_2_shift_left_state k \<or> personal_system_2_shift_right_state k then shift ! unat code
                     else base ! unat code)
      in if personal_system_2_caps_lock_state k then
           if char_code CHR ''a'' \<le> decoded \<and> decoded \<le> char_code CHR ''z''
             then decoded - char_code CHR ''a'' + char_code CHR ''A''
           else if char_code CHR ''A'' \<le> decoded \<and> decoded \<le> char_code CHR ''Z''
             then decoded - char_code CHR ''A'' + char_code CHR ''a''
           else decoded
         else decoded)"

definition personal_system_2_keyboard_track :: "u8 \<Rightarrow> bool \<Rightarrow> u8 list \<Rightarrow> u8 list" where
  "personal_system_2_keyboard_track code pressed bitmap =
     (let index = unat (drop_bit 3 code); mask = push_bit (unat (code AND 7)) 1 in
      if pressed then bitmap[index := bitmap ! index OR mask] else bitmap[index := bitmap ! index AND NOT mask])"

definition personal_system_2_keyboard_decode_scancode :: "u8 \<Rightarrow> ps2_keyboard \<Rightarrow> u8 \<times> ps2_keyboard" where
  "personal_system_2_keyboard_decode_scancode scancode k =
     (if scancode = 0xE0 then (0, k\<lparr>personal_system_2_extended_pending := True\<rparr>) else
      let is_break = (scancode AND 0x80 \<noteq> 0); pressed = (\<not> is_break); code = scancode AND 0x7F;
          extended = personal_system_2_extended_pending k;
          k = k\<lparr>personal_system_2_extended_pending := False\<rparr>;
          k = (if \<not> extended
               then k\<lparr>personal_system_2_key_down_bitmap :=
                        personal_system_2_keyboard_track code pressed (personal_system_2_key_down_bitmap k)\<rparr> else k)
      in if extended then
           (if code = 0x1D then (0, k\<lparr>personal_system_2_ctrl_right_state := pressed\<rparr>)
            else if code = 0x38 then (0, k\<lparr>personal_system_2_alt_right_state := pressed\<rparr>)
            else (0, k))
         else if code = 0x2A then (0, k\<lparr>personal_system_2_shift_left_state := pressed\<rparr>)
         else if code = 0x36 then (0, k\<lparr>personal_system_2_shift_right_state := pressed\<rparr>)
         else if code = 0x1D then (0, k\<lparr>personal_system_2_ctrl_left_state := pressed\<rparr>)
         else if code = 0x38 then (0, k\<lparr>personal_system_2_alt_left_state := pressed\<rparr>)
         else if code = 0x3A then
           (0, if pressed then k\<lparr>personal_system_2_caps_lock_state := \<not> personal_system_2_caps_lock_state k\<rparr> else k)
         else if is_break then (0, k)
         else (personal_system_2_keyboard_translate_make_code code k, k))"

definition personal_system_2_keyboard_is_code_held :: "u8 \<Rightarrow> ps2_keyboard \<Rightarrow> bool" where
  "personal_system_2_keyboard_is_code_held code k \<longleftrightarrow> code < 128 \<and>
     personal_system_2_key_down_bitmap k ! unat (drop_bit 3 code) AND push_bit (unat (code AND 7)) 1 \<noteq> 0"

definition personal_system_2_keyboard_is_character_held :: "u8 \<Rightarrow> ps2_keyboard \<Rightarrow> bool" where
  "personal_system_2_keyboard_is_character_held character k =
     (let base = (if personal_system_2_active_layout k = PERSONAL_SYSTEM_2_KEYBOARD_LAYOUT_FRENCH_AZERTY
                  then personal_system_2_layout_fr_base else personal_system_2_layout_us_base)
      in list_ex (\<lambda>code. base ! code = character \<and> personal_system_2_keyboard_is_code_held (of_nat code) k) [0..<128])"

definition personal_system_2_keyboard_set_layout :: "personal_system_2_keyboard_layout \<Rightarrow> ps2_keyboard \<Rightarrow> ps2_keyboard" where
  "personal_system_2_keyboard_set_layout layout k = k\<lparr>personal_system_2_active_layout := layout\<rparr>"

definition personal_system_2_keyboard_get_shift_state :: "ps2_keyboard \<Rightarrow> bool" where
  "personal_system_2_keyboard_get_shift_state k \<longleftrightarrow>
     personal_system_2_shift_left_state k \<or> personal_system_2_shift_right_state k"

definition personal_system_2_keyboard_get_ctrl_state :: "ps2_keyboard \<Rightarrow> bool" where
  "personal_system_2_keyboard_get_ctrl_state k \<longleftrightarrow>
     personal_system_2_ctrl_left_state k \<or> personal_system_2_ctrl_right_state k"

definition personal_system_2_keyboard_get_alt_state :: "ps2_keyboard \<Rightarrow> bool" where
  "personal_system_2_keyboard_get_alt_state k \<longleftrightarrow>
     personal_system_2_alt_left_state k \<or> personal_system_2_alt_right_state k"

definition personal_system_2_keyboard_reset_modifiers :: "ps2_keyboard \<Rightarrow> ps2_keyboard" where
  "personal_system_2_keyboard_reset_modifiers k = k\<lparr>
     personal_system_2_shift_left_state := False, personal_system_2_shift_right_state := False,
     personal_system_2_ctrl_left_state := False, personal_system_2_ctrl_right_state := False,
     personal_system_2_alt_left_state := False, personal_system_2_alt_right_state := False,
     personal_system_2_caps_lock_state := False, personal_system_2_extended_pending := False,
     personal_system_2_key_down_bitmap := fold (\<lambda>i bm. bm[i := 0]) [0..<16] (personal_system_2_key_down_bitmap k)\<rparr>"

section \<open>The keys that are down, according to the stream\<close>

text \<open>
  A key is an extension flag and a make code. \<open>scan_events\<close> splits a stream of scan codes into key
  events and the pending extension prefix; \<open>down\<close> is the last event of a key.
\<close>

type_synonym key = "bool \<times> u8"

definition scan_step :: "u8 \<Rightarrow> (key \<times> bool) list \<times> bool \<Rightarrow> (key \<times> bool) list \<times> bool" where
  "scan_step s = (\<lambda>(evs, ext). if s = 0xE0 then (evs, True)
     else (evs @ [((ext, s AND 0x7F), s AND 0x80 = 0)], False))"

definition scan_events :: "u8 list \<Rightarrow> (key \<times> bool) list" where
  "scan_events ss = fst (fold scan_step ss ([], False))"

definition down :: "key \<Rightarrow> (key \<times> bool) list \<Rightarrow> bool" where
  "down key evs = (case find (\<lambda>e. fst e = key) (rev evs) of None \<Rightarrow> False | Some e \<Rightarrow> snd e)"

definition presses :: "key \<Rightarrow> (key \<times> bool) list \<Rightarrow> nat" where
  "presses key evs = length (filter (\<lambda>e. e = (key, True)) evs)"

fun decode_all :: "u8 list \<Rightarrow> ps2_keyboard \<Rightarrow> u8 list \<times> ps2_keyboard" where
  "decode_all [] k = ([], k)"
| "decode_all (s # ss) k = (let (c, k) = personal_system_2_keyboard_decode_scancode s k; (cs, k) = decode_all ss k in (c # cs, k))"

lemma down_simps [simp]:
  "down key [] = False"
  "down key (evs @ [e]) = (if fst e = key then snd e else down key evs)"
  by (simp_all add: down_def)

lemma presses_simps [simp]:
  "presses key [] = 0"
  "presses key (evs @ [e]) = presses key evs + (if e = (key, True) then 1 else 0)"
  by (simp_all add: presses_def)

lemma decode_all_Cons:
  "snd (decode_all (s # ss) k) = snd (decode_all ss (snd (personal_system_2_keyboard_decode_scancode s k)))"
  "fst (decode_all (s # ss) k) = fst (personal_system_2_keyboard_decode_scancode s k) #
     fst (decode_all ss (snd (personal_system_2_keyboard_decode_scancode s k)))"
  by (simp_all add: split_def Let_def)

lemma length_decode_all [simp]: "length (fst (decode_all ss k)) = length ss"
  by (induction ss arbitrary: k) (simp_all add: decode_all_Cons del: decode_all.simps(2))

section \<open>The bitmap of held keys\<close>

lemma and_7F_less: "(s::u8) AND 0x7F < 128"
proof -
  have "unat (s AND 0x7F) = unat s mod 128" using unat_and_ones [of s 7] by simp
  then show ?thesis by (simp add: word_less_nat_alt)
qed

lemma and_push_bit_one:
  fixes w :: u8
  shows "(w AND push_bit n 1 \<noteq> 0) = bit w n"
proof -
  have "w AND push_bit n 1 = (if bit w n then push_bit n 1 else 0)"
    by (rule bit_eqI) (auto simp: bit_simps)
  moreover have "bit (push_bit n 1 :: u8) n" if "bit w n"
    using bit_imp_le_length [OF that] by (simp add: bit_simps)
  ultimately show ?thesis by (auto simp del: push_bit_of_1)
qed

lemma unat_code_split: "unat (drop_bit 3 (c::u8)) = unat c div 8" "unat (c AND 7) = unat c mod 8"
  using unat_and_ones [of c 3] by (simp_all add: drop_bit_eq_div unat_div)

lemma same_code: "(unat (c::u8) div 8 = unat d div 8 \<and> unat c mod 8 = unat d mod 8) = (c = d)"
  by (metis div_mult_mod_eq word_unat_eq_iff)

lemma held_track:
  assumes "length bm = 16" "c < 128" "d < 128"
  shows "bit (personal_system_2_keyboard_track c p bm ! unat (drop_bit 3 d)) (unat (d AND 7)) =
    (if c = d then p else bit (bm ! unat (drop_bit 3 d)) (unat (d AND 7)))"
proof -
  have "unat c < 128" "unat d < 128" using assms by (simp_all add: word_less_nat_alt)
  then have "unat c div 8 < 16" "unat d div 8 < 16" "unat d mod 8 < 8" by auto
  then show ?thesis
    using assms(1) same_code [of c d]
    by (auto simp: personal_system_2_keyboard_track_def Let_def unat_code_split nth_list_update bit_simps)
qed

section \<open>The decoder state is the set of keys that are down\<close>

definition keyboard_reflects :: "(key \<times> bool) list \<Rightarrow> bool \<Rightarrow> ps2_keyboard \<Rightarrow> bool" where
  "keyboard_reflects evs ext k \<longleftrightarrow>
     personal_system_2_shift_left_state k = down (False, 0x2A) evs \<and> personal_system_2_shift_right_state k = down (False, 0x36) evs \<and>
     personal_system_2_ctrl_left_state k = down (False, 0x1D) evs \<and> personal_system_2_ctrl_right_state k = down (True, 0x1D) evs \<and>
     personal_system_2_alt_left_state k = down (False, 0x38) evs \<and> personal_system_2_alt_right_state k = down (True, 0x38) evs \<and>
     personal_system_2_caps_lock_state k = odd (presses (False, 0x3A) evs) \<and>
     personal_system_2_extended_pending k = ext \<and> length (personal_system_2_key_down_bitmap k) = 16 \<and>
     (\<forall>c < 128. bit (personal_system_2_key_down_bitmap k ! unat (drop_bit 3 c)) (unat (c AND 7)) = down (False, c) evs)"

lemma length_track [simp]: "length (personal_system_2_keyboard_track c p bm) = length bm"
  by (simp add: personal_system_2_keyboard_track_def Let_def)

lemma decode_state:
  "snd (personal_system_2_keyboard_decode_scancode s k) =
     (if s = 0xE0 then k\<lparr>personal_system_2_extended_pending := True\<rparr> else
      let p = (s AND 0x80 = 0); c = s AND 0x7F in
      if personal_system_2_extended_pending k then
        k\<lparr>personal_system_2_extended_pending := False,
          personal_system_2_ctrl_right_state := (if c = 0x1D then p else personal_system_2_ctrl_right_state k),
          personal_system_2_alt_right_state := (if c = 0x38 then p else personal_system_2_alt_right_state k)\<rparr>
      else
        k\<lparr>personal_system_2_extended_pending := False,
          personal_system_2_key_down_bitmap := personal_system_2_keyboard_track c p (personal_system_2_key_down_bitmap k),
          personal_system_2_shift_left_state := (if c = 0x2A then p else personal_system_2_shift_left_state k),
          personal_system_2_shift_right_state := (if c = 0x36 then p else personal_system_2_shift_right_state k),
          personal_system_2_ctrl_left_state := (if c = 0x1D then p else personal_system_2_ctrl_left_state k),
          personal_system_2_alt_left_state := (if c = 0x38 then p else personal_system_2_alt_left_state k),
          personal_system_2_caps_lock_state := (personal_system_2_caps_lock_state k \<noteq> (c = 0x3A \<and> p))\<rparr>)"
  by (simp add: personal_system_2_keyboard_decode_scancode_def Let_def)

lemma decode_reflects:
  assumes "keyboard_reflects evs ext k"
  shows "keyboard_reflects (fst (scan_step s (evs, ext))) (snd (scan_step s (evs, ext)))
     (snd (personal_system_2_keyboard_decode_scancode s k))"
proof -
  have c: "s AND 0x7F < 128" by (rule and_7F_less)
  show ?thesis
    using assms c unfolding keyboard_reflects_def decode_state scan_step_def
    by (cases "s = 0xE0"; cases ext) (auto simp: Let_def held_track)
qed

lemma decode_all_reflects:
  assumes "keyboard_reflects evs ext k"
  shows "keyboard_reflects (fst (fold scan_step ss (evs, ext))) (snd (fold scan_step ss (evs, ext))) (snd (decode_all ss k))"
  using assms
proof (induction ss arbitrary: evs ext k)
  case (Cons s ss)
  from Cons.IH [OF decode_reflects [OF Cons.prems, of s]] show ?case unfolding decode_all_Cons by simp
qed simp

lemma fold_clear:
  "n \<le> length bm \<Longrightarrow> fold (\<lambda>i bm. bm[i := 0]) [0..<n] bm = replicate n (0::u8) @ drop n bm"
  by (induction n) (simp_all add: list_update_append replicate_append_same Cons_nth_drop_Suc [symmetric] flip: replicate_append_same)

lemma reset_reflects:
  assumes "length (personal_system_2_key_down_bitmap k) = 16"
  shows "keyboard_reflects [] False (personal_system_2_keyboard_reset_modifiers k)"
proof -
  have "unat (drop_bit 3 c) < 16" if "c < 128" for c :: u8
    using that by (auto simp: unat_code_split word_less_nat_alt)
  then show ?thesis
    using assms fold_clear [of 16 "personal_system_2_key_down_bitmap k"]
    by (simp add: keyboard_reflects_def personal_system_2_keyboard_reset_modifiers_def)
qed

lemma decode_layout [simp]:
  "personal_system_2_active_layout (snd (personal_system_2_keyboard_decode_scancode s k)) = personal_system_2_active_layout k"
  by (simp add: decode_state Let_def)

lemma decode_all_layout [simp]: "personal_system_2_active_layout (snd (decode_all ss k)) = personal_system_2_active_layout k"
  by (induction ss arbitrary: k) (simp_all add: decode_all_Cons del: decode_all.simps(2))

lemma held_iff_down:
  "keyboard_reflects evs ext k \<Longrightarrow> c < 128 \<Longrightarrow> personal_system_2_keyboard_is_code_held c k = down (False, c) evs"
  by (simp add: personal_system_2_keyboard_is_code_held_def keyboard_reflects_def and_push_bit_one del: push_bit_of_1)


section \<open>The scan code ring\<close>

abbreviation (input) KEYBOARD_SCANCODE_RING_CAPACITY :: u32 where "KEYBOARD_SCANCODE_RING_CAPACITY \<equiv> 256"
abbreviation (input) KEYBOARD_SCANCODE_RING_MASK :: u32 where "KEYBOARD_SCANCODE_RING_MASK \<equiv> 255"
abbreviation (input) IRQ_KEYBOARD_LINE :: u8 where "IRQ_KEYBOARD_LINE \<equiv> 1"

record keyboard =
  keyboard_irq_count :: u32
  keyboard_printable_count :: u32
  keyboard_last_printable_char :: u8
  keyboard_scancode_ring :: "u8 list"
  keyboard_scancode_ring_head :: u32
  keyboard_scancode_ring_tail :: u32
  keyboard_scancode_drop_count :: u32

definition keyboard_interrupt_handler :: "u8 \<Rightarrow> bool \<Rightarrow> keyboard \<Rightarrow> end_of_interrupt \<times> keyboard" where
  "keyboard_interrupt_handler scan_code owner_apic kb =
     (let head = keyboard_scancode_ring_head kb; tail = keyboard_scancode_ring_tail kb;
          kb = kb\<lparr>keyboard_irq_count := keyboard_irq_count kb + 1\<rparr>;
          kb = (if KEYBOARD_SCANCODE_RING_CAPACITY \<le> head - tail
                then kb\<lparr>keyboard_scancode_drop_count := keyboard_scancode_drop_count kb + 1\<rparr>
                else kb\<lparr>keyboard_scancode_ring :=
                          (keyboard_scancode_ring kb)[unat (head AND KEYBOARD_SCANCODE_RING_MASK) := scan_code],
                        keyboard_scancode_ring_head := head + 1\<rparr>)
      in (if owner_apic then Eoi_Apic else Eoi_Pic IRQ_KEYBOARD_LINE, kb))"

definition keyboard_scancode_ring_pop :: "keyboard \<Rightarrow> u8 option \<times> keyboard" where
  "keyboard_scancode_ring_pop kb =
     (let tail = keyboard_scancode_ring_tail kb in
      if keyboard_scancode_ring_head kb = tail then (None, kb)
      else (Some (keyboard_scancode_ring kb ! unat (tail AND KEYBOARD_SCANCODE_RING_MASK)),
            kb\<lparr>keyboard_scancode_ring_tail := tail + 1\<rparr>))"

definition keyboard_get_pending_char_count :: "keyboard \<Rightarrow> u32" where
  "keyboard_get_pending_char_count kb = keyboard_scancode_ring_head kb - keyboard_scancode_ring_tail kb"

lemma ring_pop_measure:
  assumes "keyboard_scancode_ring_pop kb = (Some s, kb')"
  shows "unat (keyboard_get_pending_char_count kb') < unat (keyboard_get_pending_char_count kb)"
proof -
  have "keyboard_scancode_ring_head kb \<noteq> keyboard_scancode_ring_tail kb" and
    "kb' = kb\<lparr>keyboard_scancode_ring_tail := keyboard_scancode_ring_tail kb + 1\<rparr>"
    using assms by (auto simp: keyboard_scancode_ring_pop_def Let_def split: if_splits)
  then show ?thesis using ring_pop_count by (simp add: keyboard_get_pending_char_count_def)
qed

function keyboard_pop_loop :: "keyboard \<Rightarrow> ps2_keyboard \<Rightarrow> u8 option \<times> keyboard \<times> ps2_keyboard" where
  "keyboard_pop_loop kb ps =
     (case keyboard_scancode_ring_pop kb of
        (None, kb) \<Rightarrow> (None, kb, ps)
      | (Some scan_code, kb) \<Rightarrow>
          let (decoded, ps) = personal_system_2_keyboard_decode_scancode scan_code ps in
          if decoded \<noteq> 0 then
            (Some decoded, kb\<lparr>keyboard_printable_count := keyboard_printable_count kb + 1,
                              keyboard_last_printable_char := decoded\<rparr>, ps)
          else keyboard_pop_loop kb ps)"
  by pat_completeness auto
termination
  by (relation "measure (\<lambda>(kb, ps). unat (keyboard_get_pending_char_count kb))") (auto dest: ring_pop_measure [OF sym])

declare keyboard_pop_loop.simps [simp del]

definition keyboard_try_pop_char :: "bool \<Rightarrow> keyboard \<Rightarrow> ps2_keyboard \<Rightarrow> u8 option \<times> keyboard \<times> ps2_keyboard" where
  "keyboard_try_pop_char out kb ps = (if \<not> out then (None, kb, ps) else keyboard_pop_loop kb ps)"

definition keyboard_inv :: "keyboard \<Rightarrow> bool" where
  "keyboard_inv kb \<longleftrightarrow> length (keyboard_scancode_ring kb) = 256 \<and> unat (keyboard_get_pending_char_count kb) \<le> 256"

definition keyboard_contents :: "keyboard \<Rightarrow> u8 list" where
  "keyboard_contents kb = ring_contents (keyboard_scancode_ring kb) (keyboard_scancode_ring_head kb) (keyboard_scancode_ring_tail kb)"

text \<open>The producer, seen as a queue operation: a scan code was taken in unless the drop counter moved.\<close>

definition keyboard_receive :: "bool \<Rightarrow> u8 \<Rightarrow> keyboard \<Rightarrow> bool \<times> keyboard" where
  "keyboard_receive owner_apic s kb = (let kb' = snd (keyboard_interrupt_handler s owner_apic kb) in
     (keyboard_scancode_drop_count kb' = keyboard_scancode_drop_count kb, kb'))"

lemma unat_and_255: "unat ((x::u32) AND 255) = unat x mod 256"
  using unat_and_ones [of x 8] by simp

lemma keyboard_push_room:
  assumes "keyboard_inv kb" "length (keyboard_contents kb) < 256"
  shows "\<exists>kb'. keyboard_receive o1 s kb = (True, kb') \<and> keyboard_inv kb' \<and> keyboard_contents kb' = keyboard_contents kb @ [s]"
proof -
  let ?h = "keyboard_scancode_ring_head kb" and ?t = "keyboard_scancode_ring_tail kb"
  have n: "unat (?h - ?t) < 256" using assms(2) by (simp add: keyboard_contents_def)
  have "ring_contents ((keyboard_scancode_ring kb)[unat (?h AND 255) := s]) (?h + 1) ?t = keyboard_contents kb @ [s]"
    using ring_push [of "keyboard_scancode_ring kb" 8 ?h ?t s] assms(1) n
    by (simp add: keyboard_inv_def keyboard_contents_def unat_and_255)
  moreover from arg_cong [OF this, of length] have "unat (?h + 1 - ?t) = Suc (unat (?h - ?t))"
    by (simp add: keyboard_contents_def)
  ultimately show ?thesis
    using assms(1) n
    by (simp add: keyboard_receive_def keyboard_interrupt_handler_def Let_def keyboard_inv_def
        keyboard_get_pending_char_count_def keyboard_contents_def word_le_nat_alt)
qed

lemma keyboard_pop_cons:
  assumes "keyboard_inv kb" "keyboard_contents kb = s # ss"
  shows "\<exists>kb'. keyboard_scancode_ring_pop kb = (Some s, kb') \<and> keyboard_inv kb' \<and> keyboard_contents kb' = ss"
proof -
  have ne: "keyboard_scancode_ring_head kb \<noteq> keyboard_scancode_ring_tail kb" using assms(2) by (auto simp: keyboard_contents_def)
  show ?thesis
    using assms ring_pop [OF ne, of "keyboard_scancode_ring kb"] ring_pop_count [OF ne] ne
    by (simp add: keyboard_scancode_ring_pop_def Let_def keyboard_inv_def keyboard_get_pending_char_count_def
        keyboard_contents_def unat_and_255)
qed

lemma keyboard_pop_empty:
  assumes "keyboard_contents kb = []"
  shows "keyboard_scancode_ring_pop kb = (None, kb)"
proof -
  have "unat (keyboard_scancode_ring_head kb - keyboard_scancode_ring_tail kb) = 0"
    using arg_cong [OF assms, of length] by (simp add: keyboard_contents_def)
  then have "keyboard_scancode_ring_head kb = keyboard_scancode_ring_tail kb" by (simp only: unat_eq_zero) simp
  then show ?thesis by (simp add: keyboard_scancode_ring_pop_def)
qed

interpretation keyboard_fifo: bounded_fifo keyboard_inv keyboard_contents "\<lambda>_. 256" "keyboard_receive owner" keyboard_scancode_ring_pop
  for owner
proof
  fix kb s ss assume inv: "keyboard_inv kb"
  then show "length (keyboard_contents kb) \<le> 256"
    by (simp add: keyboard_inv_def keyboard_contents_def keyboard_get_pending_char_count_def)
  show "\<exists>kb'. keyboard_receive owner s kb = (True, kb') \<and> keyboard_inv kb' \<and> keyboard_contents kb' = keyboard_contents kb @ [s] \<and> (256::nat) = 256"
    if "length (keyboard_contents kb) < 256" using keyboard_push_room [OF inv that, of owner s] by simp
  show "\<exists>kb'. keyboard_receive owner s kb = (False, kb') \<and> keyboard_inv kb' \<and> keyboard_contents kb' = keyboard_contents kb \<and> (256::nat) = 256"
    if "length (keyboard_contents kb) = 256"
    using that inv by (simp add: keyboard_receive_def keyboard_interrupt_handler_def Let_def keyboard_inv_def
        keyboard_get_pending_char_count_def keyboard_contents_def word_le_nat_alt)
  show "\<exists>kb'. keyboard_scancode_ring_pop kb = (Some s, kb') \<and> keyboard_inv kb' \<and> keyboard_contents kb' = ss \<and> (256::nat) = 256"
    if "keyboard_contents kb = s # ss" using keyboard_pop_cons [OF inv that] by simp
  show "\<exists>kb'. keyboard_scancode_ring_pop kb = (None, kb') \<and> keyboard_inv kb' \<and> keyboard_contents kb' = [] \<and> (256::nat) = 256"
    if "keyboard_contents kb = []" using keyboard_pop_empty [OF that] that inv by simp
qed


lemma list_ex_codes: "list_ex (\<lambda>n. P n (of_nat n)) [0..<128] = (\<exists>c < 128. P (unat c) (c::u8))"
proof
  assume "list_ex (\<lambda>n. P n (of_nat n)) [0..<128]"
  then obtain n where n: "n < 128" "P n (of_nat n)" by (auto simp: list_ex_iff)
  then have "unat (of_nat n :: u8) = n" by (simp add: unsigned_of_nat take_bit_nat_eq_self)
  with n show "\<exists>c < 128. P (unat c) (c::u8)" by (intro exI [of _ "of_nat n"]) (simp add: word_less_nat_alt)
next
  assume "\<exists>c < 128. P (unat c) (c::u8)"
  then obtain c :: u8 where "c < 128" "P (unat c) c" by blast
  then show "list_ex (\<lambda>n. P n (of_nat n)) [0..<128]"
    by (auto simp: list_ex_iff word_less_nat_alt intro!: bexI [of _ "unat c"])
qed

section \<open>Draining the ring\<close>

lemma pop_loop_drains:
  assumes "keyboard_inv kb" "keyboard_contents kb = ss"
    and "n = length (takeWhile (\<lambda>c. c = 0) (fst (decode_all ss ps)))"
  shows "\<exists>kb'. keyboard_pop_loop kb ps = (if n < length ss then Some (fst (decode_all ss ps) ! n) else None, kb',
      snd (decode_all (take (Suc n) ss) ps)) \<and> keyboard_inv kb' \<and> keyboard_contents kb' = drop (Suc n) ss"
  using assms
proof (induction ss arbitrary: kb ps n)
  case Nil
  then show ?case by (simp add: keyboard_pop_loop.simps [of kb] keyboard_pop_empty)
next
  case (Cons s ss)
  obtain kb' where kb': "keyboard_scancode_ring_pop kb = (Some s, kb')" "keyboard_inv kb'" "keyboard_contents kb' = ss"
    using keyboard_pop_cons [OF Cons.prems(1,2)] by blast
  obtain c ps' where c: "personal_system_2_keyboard_decode_scancode s ps = (c, ps')" by fastforce
  show ?case
  proof (cases "c = 0")
    case True
    let ?n = "length (takeWhile (\<lambda>c. c = 0) (fst (decode_all ss ps')))"
    have n: "n = Suc ?n" using Cons.prems(3) c True by (simp add: split_def Let_def)
    obtain kb'' where "keyboard_pop_loop kb' ps' = (if ?n < length ss then Some (fst (decode_all ss ps') ! ?n) else None, kb'',
        snd (decode_all (take (Suc ?n) ss) ps'))" "keyboard_inv kb''" "keyboard_contents kb'' = drop (Suc ?n) ss"
      using Cons.IH [OF kb'(2,3) refl] by blast
    then show ?thesis using kb'(1) c True n by (simp add: keyboard_pop_loop.simps [of kb] split_def Let_def)
  next
    case False
    then have "n = 0" using Cons.prems(3) c by (simp add: split_def Let_def)
    then show ?thesis
      using kb' c False by (simp add: keyboard_pop_loop.simps [of kb] split_def Let_def keyboard_inv_def
          keyboard_get_pending_char_count_def keyboard_contents_def)
  qed
qed

section \<open>Properties\<close>

text \<open>
  C10 (refinement): after any stream of scan codes following a reset, the decoder knows exactly which keys
  are down. Shift, control and alt report whether the last event of one of their two keys was a press,
  caps lock is on after an odd number of presses, an unextended key is held iff its last event was a
  press (extended keys with the same make code do not disturb it), and a character is held iff a key
  whose unshifted symbol it is on the active layout is down.
\<close>

theorem keyboard_state_refines:
  assumes "length (personal_system_2_key_down_bitmap k0) = 16"
    and "k = snd (decode_all ss (personal_system_2_keyboard_reset_modifiers k0))" and "evs = scan_events ss"
  shows "personal_system_2_keyboard_get_shift_state k = (down (False, 0x2A) evs \<or> down (False, 0x36) evs) \<and>
    personal_system_2_keyboard_get_ctrl_state k = (down (False, 0x1D) evs \<or> down (True, 0x1D) evs) \<and>
    personal_system_2_keyboard_get_alt_state k = (down (False, 0x38) evs \<or> down (True, 0x38) evs) \<and>
    personal_system_2_caps_lock_state k = odd (presses (False, 0x3A) evs) \<and>
    (\<forall>c. personal_system_2_keyboard_is_code_held c k = (c < 128 \<and> down (False, c) evs)) \<and>
    (\<forall>ch. personal_system_2_keyboard_is_character_held ch k =
       (\<exists>c < 128. fst (personal_system_2_keyboard_select_tables k) ! unat c = ch \<and> down (False, c) evs))"
proof -
  have R: "keyboard_reflects evs (snd (fold scan_step ss ([], False))) k"
    using decode_all_reflects [OF reset_reflects [OF assms(1)], of ss] assms(2,3) by (simp add: scan_events_def)
  have held: "personal_system_2_keyboard_is_code_held c k = (c < 128 \<and> down (False, c) evs)" for c
    using held_iff_down [OF R] by (cases "c < 128") (auto simp: personal_system_2_keyboard_is_code_held_def)
  have "personal_system_2_keyboard_is_character_held ch k =
       (\<exists>c < 128. fst (personal_system_2_keyboard_select_tables k) ! unat c = ch \<and> down (False, c) evs)" for ch
    using list_ex_codes [of "\<lambda>n c. fst (personal_system_2_keyboard_select_tables k) ! n = ch \<and> c < 128 \<and> down (False, c) evs"]
    by (auto simp: personal_system_2_keyboard_is_character_held_def held Let_def personal_system_2_keyboard_select_tables_def
        split: personal_system_2_keyboard_layout.splits)
  then show ?thesis
    using R held by (simp add: keyboard_reflects_def personal_system_2_keyboard_get_shift_state_def
        personal_system_2_keyboard_get_ctrl_state_def personal_system_2_keyboard_get_alt_state_def)
qed

theorem keyboard_state_refines_witness:
  "personal_system_2_keyboard_get_ctrl_state
     (snd (decode_all [0x1D, 0xE0, 0x1D, 0xE0, 0x9D, 0x11] (personal_system_2_keyboard_reset_modifiers ps2_keyboard_static)))"
proof -
  have len: "length (personal_system_2_key_down_bitmap ps2_keyboard_static) = 16" by (simp add: ps2_keyboard_static_def)
  have "down (False, 0x1D) (scan_events [0x1D, 0xE0, 0x1D, 0xE0, 0x9D, 0x11])" by code_simp
  then show ?thesis
    using keyboard_state_refines [OF len refl refl, of "[0x1D, 0xE0, 0x1D, 0xE0, 0x9D, 0x11]"] by simp
qed

text \<open>
  C11 (termination): popping a character always ends. It decodes the pending scan codes in order, skips
  those that produce nothing and stops at the first that produces a character, which it returns; the
  codes behind it stay in the ring. It returns nothing only after draining the ring of codes none of
  which produces a character.
\<close>

theorem try_pop_char_correct:
  assumes "keyboard_inv kb" and "cs = fst (decode_all (keyboard_contents kb) ps)" and "n = length (takeWhile (\<lambda>c. c = 0) cs)"
  shows "\<exists>kb' ps'. keyboard_try_pop_char True kb ps = (if n < length cs then Some (cs ! n) else None, kb', ps') \<and>
    ps' = snd (decode_all (take (Suc n) (keyboard_contents kb)) ps) \<and>
    keyboard_contents kb' = drop (Suc n) (keyboard_contents kb) \<and> keyboard_inv kb'"
proof -
  have l: "length (keyboard_contents kb) = length cs" using assms(2) by simp
  obtain kb' where "keyboard_pop_loop kb ps = (if n < length cs then Some (cs ! n) else None, kb',
      snd (decode_all (take (Suc n) (keyboard_contents kb)) ps))" "keyboard_inv kb'"
      "keyboard_contents kb' = drop (Suc n) (keyboard_contents kb)"
    using pop_loop_drains [OF assms(1) refl, of n ps] unfolding l assms(2) [symmetric] using assms(3) by auto
  then show ?thesis unfolding keyboard_try_pop_char_def by auto
qed


definition keyboard_example :: keyboard where
  "keyboard_example = \<lparr>keyboard_irq_count = 3, keyboard_printable_count = 0, keyboard_last_printable_char = 0,
     keyboard_scancode_ring = [0x2A, 0x1E, 0xAA] @ replicate 253 0, keyboard_scancode_ring_head = 3,
     keyboard_scancode_ring_tail = 0, keyboard_scancode_drop_count = 0\<rparr>"

lemma upt_three: "[0..<3] = [0, 1, 2::nat]"
  by code_simp

theorem try_pop_char_correct_witness:
  "\<exists>kb' ps'. keyboard_try_pop_char True keyboard_example ps2_keyboard_static = (Some 65, kb', ps') \<and> keyboard_contents kb' = [0xAA]"
proof -
  have inv: "keyboard_inv keyboard_example" by (simp add: keyboard_inv_def keyboard_example_def keyboard_get_pending_char_count_def)
  have c: "keyboard_contents keyboard_example = [0x2A, 0x1E, 0xAA]"
    by (simp add: keyboard_contents_def keyboard_example_def ring_contents_def upt_three)
  have d: "fst (decode_all [0x2A, 0x1E, 0xAA] ps2_keyboard_static) = [0, 65, 0]"
    by (simp add: personal_system_2_keyboard_decode_scancode_def Let_def ps2_keyboard_static_def
        personal_system_2_keyboard_translate_make_code_def personal_system_2_keyboard_select_tables_def
        personal_system_2_layout_us_shift_def nth_append)
  have cs: "[0, 65, 0] = fst (decode_all (keyboard_contents keyboard_example) ps2_keyboard_static)" unfolding c d ..
  show ?thesis
    using try_pop_char_correct [OF inv cs refl] unfolding c by (simp del: decode_all.simps) blast
qed

section \<open>What the layouts can produce\<close>

definition upper_of_lower :: "u8 list \<Rightarrow> u8 list \<Rightarrow> bool" where
  "upper_of_lower base shift \<longleftrightarrow> list_all2 (\<lambda>b s. char_code CHR ''a'' \<le> b \<and> b \<le> char_code CHR ''z'' \<longrightarrow> s = b - 32) base shift"

lemma designated_nth: "i < 128 \<Longrightarrow> designated es ! i = (case map_of es i of None \<Rightarrow> 0 | Some c \<Rightarrow> of_char c)"
  by (simp add: designated_def)

lemma designated_upper:
  assumes "list_all (\<lambda>(i, c). char_code CHR ''a'' \<le> char_code c \<and> char_code c \<le> char_code CHR ''z'' \<longrightarrow>
     (case map_of fs i of None \<Rightarrow> False | Some d \<Rightarrow> char_code d = char_code c - 32)) es"
  shows "upper_of_lower (designated es) (designated fs)"
proof -
  have "designated fs ! i = designated es ! i - 32"
    if i: "i < 128" and l: "char_code CHR ''a'' \<le> designated es ! i" "designated es ! i \<le> char_code CHR ''z''" for i
  proof (cases "map_of es i")
    case None
    with l(1) i show ?thesis by (simp add: designated_nth)
  next
    case (Some c)
    from map_of_SomeD [OF Some] assms l i Some show ?thesis
      by (fastforce simp: designated_nth list_all_iff split: option.splits)
  qed
  then show ?thesis by (simp add: upper_of_lower_def list_all2_conv_all_nth) (simp add: designated_def)
qed

lemma layouts_upper:
  "upper_of_lower personal_system_2_layout_us_base personal_system_2_layout_us_shift"
  "upper_of_lower personal_system_2_layout_fr_base personal_system_2_layout_fr_shift"
proof -
  show "upper_of_lower personal_system_2_layout_us_base personal_system_2_layout_us_shift"
    by (simp add: upper_of_lower_def personal_system_2_layout_us_base_def personal_system_2_layout_us_shift_def
        list_all2_append list_all2_conv_all_nth [of _ "replicate _ _"])
  show "upper_of_lower personal_system_2_layout_fr_base personal_system_2_layout_fr_shift"
    unfolding personal_system_2_layout_fr_base_def personal_system_2_layout_fr_shift_def by (rule designated_upper) simp
qed

lemma layouts_length:
  "length personal_system_2_layout_us_base = 128" "length personal_system_2_layout_us_shift = 128"
  "length personal_system_2_layout_us_altgr = 128" "length personal_system_2_layout_fr_base = 128"
  "length personal_system_2_layout_fr_shift = 128" "length personal_system_2_layout_fr_altgr = 128"
  by (simp_all add: personal_system_2_layout_us_base_def personal_system_2_layout_us_shift_def personal_system_2_layout_us_altgr_def
      personal_system_2_layout_fr_base_def personal_system_2_layout_fr_shift_def personal_system_2_layout_fr_altgr_def designated_def)

lemma layouts_modifiers:
  "list_all (\<lambda>i. personal_system_2_layout_us_base ! i = 0) [0x2A, 0x36, 0x1D, 0x38, 0x3A]"
  "list_all (\<lambda>i. personal_system_2_layout_fr_base ! i = 0) [0x2A, 0x36, 0x1D, 0x38, 0x3A]"
  by (simp add: personal_system_2_layout_us_base_def nth_append) (simp add: personal_system_2_layout_fr_base_def designated_nth)

lemma and_7F_id: "(s::u8) < 128 \<Longrightarrow> s AND 0x7F = s" "(s::u8) < 128 \<Longrightarrow> s AND 0x80 = 0"
proof -
  assume "s < 128"
  then have u: "unat s < 128" by (simp add: word_less_nat_alt)
  have "unat (s AND 0x7F) = unat s" using unat_and_ones [of s 7] u by simp
  then show m: "s AND 0x7F = s" by (simp only: word_unat_eq_iff)
  have "s AND 0x80 = (s AND 0x7F) AND 0x80" by (simp only: m)
  also have "\<dots> = 0" by (simp add: and.assoc)
  finally show "s AND 0x80 = 0" .
qed

lemma letter_swap:
  assumes "(97::u8) \<le> c" "c \<le> 122"
  shows "\<not> c \<le> 90" "65 \<le> c - 32" "c - 32 \<le> 90" "\<not> 97 \<le> c - 32"
proof -
  have "unat (c - 32) = unat c - 32" using assms by (simp add: unat_sub word_le_nat_alt)
  then show "\<not> c \<le> 90" "65 \<le> c - 32" "c - 32 \<le> 90" "\<not> 97 \<le> c - 32"
    using assms by (simp_all add: word_le_nat_alt)
qed

text \<open>
  On both layouts, pressing a letter key without AltGr gives the letter of the active
  layout, in upper case exactly when one of shift and caps lock is in force: the two cancel each other.
\<close>

theorem letter_case:
  assumes "\<not> personal_system_2_extended_pending k" "\<not> personal_system_2_alt_right_state k" "s < 128"
    and "letter = fst (personal_system_2_keyboard_select_tables k) ! unat s" "char_code CHR ''a'' \<le> letter" "letter \<le> char_code CHR ''z''"
  shows "fst (personal_system_2_keyboard_decode_scancode s k) =
    (if personal_system_2_keyboard_get_shift_state k = personal_system_2_caps_lock_state k then letter else letter - 32)"
proof -
  obtain base shift altgr where t: "personal_system_2_keyboard_select_tables k = (base, shift, altgr)" by (rule prod_cases3)
  then have tabs: "(base, shift) \<in> {(personal_system_2_layout_us_base, personal_system_2_layout_us_shift),
      (personal_system_2_layout_fr_base, personal_system_2_layout_fr_shift)}"
    by (auto simp: personal_system_2_keyboard_select_tables_def split: personal_system_2_keyboard_layout.splits)
  have s: "unat s < 128" using assms(3) by (simp add: word_less_nat_alt)
  have b: "base ! unat s = letter" using t assms(4) by simp
  have up: "shift ! unat s = letter - 32"
    using tabs s layouts_upper layouts_length assms(5,6) b by (auto simp: upper_of_lower_def list_all2_conv_all_nth)
  have "base ! i = 0" if "i \<in> {0x2A, 0x36, 0x1D, 0x38, 0x3A}" for i using tabs that layouts_modifiers by auto
  then have "unat s \<notin> {0x2A, 0x36, 0x1D, 0x38, 0x3A}" using b assms(5) by fastforce
  then have "s \<notin> {0x2A, 0x36, 0x1D, 0x38, 0x3A}" by auto
  moreover have "s \<noteq> 0xE0" using assms(3) by auto
  ultimately have "fst (personal_system_2_keyboard_decode_scancode s k) =
      personal_system_2_keyboard_translate_make_code s
        (k\<lparr>personal_system_2_extended_pending := False, personal_system_2_key_down_bitmap :=
             personal_system_2_keyboard_track s True (personal_system_2_key_down_bitmap k)\<rparr>)"
    using assms(1) and_7F_id [OF assms(3)] by (simp add: personal_system_2_keyboard_decode_scancode_def Let_def)
  also have "\<dots> = (if personal_system_2_keyboard_get_shift_state k = personal_system_2_caps_lock_state k then letter else letter - 32)"
    using assms(2,3,5,6) t b up letter_swap [of letter]
    by (simp add: personal_system_2_keyboard_translate_make_code_def personal_system_2_keyboard_select_tables_def
        personal_system_2_keyboard_get_shift_state_def flip: not_less)
  finally show ?thesis .
qed

theorem letter_case_witness:
  "fst (personal_system_2_keyboard_decode_scancode 0x10
     (ps2_keyboard_static\<lparr>personal_system_2_shift_right_state := True,
        personal_system_2_active_layout := PERSONAL_SYSTEM_2_KEYBOARD_LAYOUT_FRENCH_AZERTY\<rparr>)) = char_code CHR ''A''"
  (is "fst (personal_system_2_keyboard_decode_scancode 0x10 ?k) = _")
proof -
  have "fst (personal_system_2_keyboard_select_tables ?k) ! unat (0x10 :: u8) = char_code CHR ''a''"
    by (simp add: personal_system_2_keyboard_select_tables_def personal_system_2_layout_fr_base_def designated_nth)
  then show ?thesis
    using letter_case [OF _ _ _ refl, of ?k "0x10"]
    by (simp add: ps2_keyboard_static_def personal_system_2_keyboard_get_shift_state_def)
qed

lemma designated_member:
  assumes "x \<in> set (designated es)"
  shows "x = 0 \<or> x \<in> char_code ` snd ` set es"
proof -
  obtain i where i: "x = (case map_of es i of None \<Rightarrow> 0 | Some c \<Rightarrow> of_char c)" using assms by (auto simp: designated_def)
  show ?thesis
  proof (cases "map_of es i")
    case (Some c)
    from map_of_SomeD [OF Some] i Some show ?thesis by force
  qed (simp add: i)
qed

lemma azerty_tables:
  "char_code CHR ''<'' \<notin> set personal_system_2_layout_fr_base \<union> set personal_system_2_layout_fr_shift \<union> set personal_system_2_layout_fr_altgr"
  "char_code CHR ''>'' \<notin> set personal_system_2_layout_fr_base \<union> set personal_system_2_layout_fr_shift \<union> set personal_system_2_layout_fr_altgr"
  by (simp_all add: personal_system_2_layout_fr_base_def personal_system_2_layout_fr_shift_def personal_system_2_layout_fr_altgr_def)
    (auto dest!: designated_member)

lemma swap_not_bracket:
  fixes c :: u8
  shows "97 \<le> c \<Longrightarrow> c \<le> 122 \<Longrightarrow> c - 97 + 65 \<notin> {60, 62}" "65 \<le> c \<Longrightarrow> c \<le> 90 \<Longrightarrow> c - 65 + 97 \<notin> {60, 62}"
proof -
  have "c - 97 + 65 = c - 32" by simp
  then show "c - 97 + 65 \<notin> {60, 62}" if "97 \<le> c" "c \<le> 122" using letter_swap(2) [OF that] by auto
  have "unat (c - 65 + 97) = unat c + 32" if "65 \<le> c" "c \<le> 90"
  proof -
    have "c - 65 + 97 = c + 32" by simp
    moreover have "unat (c + 32) = unat c + 32" using that by (simp add: word_le_nat_alt unat_word_ariths)
    ultimately show ?thesis by (simp only:)
  qed
  then show "c - 65 + 97 \<notin> {60, 62}" if "65 \<le> c" "c \<le> 90" using that by (auto simp: word_le_nat_alt)
qed

text \<open>
  On the French layout no scan code, in any decoder state, produces the characters \<open><\<close>
  and \<open>>\<close>: the key between left shift and W (make code 0x56) has no entry in any of the three tables.
\<close>

theorem azerty_no_angle_brackets:
  assumes "personal_system_2_active_layout k = PERSONAL_SYSTEM_2_KEYBOARD_LAYOUT_FRENCH_AZERTY"
  shows "fst (personal_system_2_keyboard_decode_scancode s k) \<notin> {char_code CHR ''<'', char_code CHR ''>''}"
proof -
  have "personal_system_2_keyboard_translate_make_code c k' \<notin> {char_code CHR ''<'', char_code CHR ''>''}"
    if k': "personal_system_2_active_layout k' = PERSONAL_SYSTEM_2_KEYBOARD_LAYOUT_FRENCH_AZERTY" for c k'
  proof (cases "128 \<le> c")
    case False
    then have c: "unat c < 128" by (simp add: word_le_nat_alt)
    define d where "d = (if personal_system_2_alt_right_state k' then personal_system_2_layout_fr_altgr ! unat c
      else if personal_system_2_shift_left_state k' \<or> personal_system_2_shift_right_state k' then personal_system_2_layout_fr_shift ! unat c
      else personal_system_2_layout_fr_base ! unat c)"
    have "d \<in> set personal_system_2_layout_fr_base \<union> set personal_system_2_layout_fr_shift \<union> set personal_system_2_layout_fr_altgr"
      using c layouts_length by (simp add: d_def)
    then have d: "d \<notin> {60, 62}" using azerty_tables by auto
    have "personal_system_2_keyboard_translate_make_code c k' = (if personal_system_2_caps_lock_state k' then
        if 97 \<le> d \<and> d \<le> 122 then d - 97 + 65 else if 65 \<le> d \<and> d \<le> 90 then d - 65 + 97 else d else d)"
      using False k' by (simp add: personal_system_2_keyboard_translate_make_code_def personal_system_2_keyboard_select_tables_def d_def Let_def)
    then show ?thesis using d swap_not_bracket [of d] by simp
  qed (simp add: personal_system_2_keyboard_translate_make_code_def)
  then show ?thesis using assms by (simp add: personal_system_2_keyboard_decode_scancode_def Let_def)
qed

theorem azerty_no_angle_brackets_witness:
  "fst (personal_system_2_keyboard_decode_scancode 0x56
     (personal_system_2_keyboard_set_layout PERSONAL_SYSTEM_2_KEYBOARD_LAYOUT_FRENCH_AZERTY ps2_keyboard_static)) \<noteq> char_code CHR ''<''"
  using azerty_no_angle_brackets [of "personal_system_2_keyboard_set_layout PERSONAL_SYSTEM_2_KEYBOARD_LAYOUT_FRENCH_AZERTY ps2_keyboard_static" "0x56"]
  by (simp add: personal_system_2_keyboard_set_layout_def)

end
