(* ===== verification/Ps2_Mouse.thy ===== *)
theory Ps2_Mouse
  imports Fifo
begin

text \<open>
  \<open>src/kernel/arch/i386/drivers/ps2_mouse.c\<close>: the bounded exchange with the 8042 controller, the byte
  ring filled by IRQ12 and the packet decoder. The controller is a parameter: \<open>input_byte\<close> and
  \<open>output_byte\<close> are the port instructions on an arbitrary device state.
\<close>

abbreviation (input) PERSONAL_SYSTEM_2_DATA_PORT :: u16 where "PERSONAL_SYSTEM_2_DATA_PORT \<equiv> 0x60"
abbreviation (input) PERSONAL_SYSTEM_2_STATUS_PORT :: u16 where "PERSONAL_SYSTEM_2_STATUS_PORT \<equiv> 0x64"
abbreviation (input) PERSONAL_SYSTEM_2_COMMAND_PORT :: u16 where "PERSONAL_SYSTEM_2_COMMAND_PORT \<equiv> 0x64"
abbreviation (input) PERSONAL_SYSTEM_2_STATUS_OUTPUT_FULL :: u8 where "PERSONAL_SYSTEM_2_STATUS_OUTPUT_FULL \<equiv> 0x01"
abbreviation (input) PERSONAL_SYSTEM_2_STATUS_INPUT_FULL :: u8 where "PERSONAL_SYSTEM_2_STATUS_INPUT_FULL \<equiv> 0x02"
abbreviation (input) PERSONAL_SYSTEM_2_STATUS_FROM_AUX :: u8 where "PERSONAL_SYSTEM_2_STATUS_FROM_AUX \<equiv> 0x20"
abbreviation (input) PERSONAL_SYSTEM_2_SPIN_BUDGET :: nat where "PERSONAL_SYSTEM_2_SPIN_BUDGET \<equiv> 100000"
abbreviation (input) PERSONAL_SYSTEM_2_MOUSE_RING_CAPACITY :: u32 where "PERSONAL_SYSTEM_2_MOUSE_RING_CAPACITY \<equiv> 256"
abbreviation (input) PERSONAL_SYSTEM_2_MOUSE_RING_MASK :: u32 where "PERSONAL_SYSTEM_2_MOUSE_RING_MASK \<equiv> 255"
abbreviation (input) IRQ_MOUSE_LINE :: u8 where "IRQ_MOUSE_LINE \<equiv> 12"

record ps2_mouse =
  personal_system_2_mouse_ring :: "u8 list"
  personal_system_2_mouse_ring_head :: u32
  personal_system_2_mouse_ring_tail :: u32
  personal_system_2_mouse_irq_count :: u32
  personal_system_2_mouse_dropped_byte_count :: u32
  personal_system_2_mouse_resynchronization_count :: u32
  personal_system_2_mouse_present :: bool

section \<open>The exchange with the controller\<close>

text \<open>
  The port instructions: reading gives a byte and may change the device, writing changes it.
\<close>

record 'd ports =
  input_byte :: "u16 \<Rightarrow> 'd \<Rightarrow> u8 \<times> 'd"
  output_byte :: "u16 \<Rightarrow> u8 \<Rightarrow> 'd \<Rightarrow> 'd"

fun personal_system_2_wait :: "'d ports \<Rightarrow> (u8 \<Rightarrow> bool) \<Rightarrow> nat \<Rightarrow> 'd \<Rightarrow> bool \<times> 'd" where
  "personal_system_2_wait io ready 0 d = (False, d)"
| "personal_system_2_wait io ready (Suc budget) d =
     (let (status, d) = input_byte io PERSONAL_SYSTEM_2_STATUS_PORT d in
      if ready status then (True, d) else personal_system_2_wait io ready budget d)"

definition personal_system_2_wait_for_input_clear :: "'d ports \<Rightarrow> 'd \<Rightarrow> bool \<times> 'd" where
  "personal_system_2_wait_for_input_clear io =
     personal_system_2_wait io (\<lambda>status. status AND PERSONAL_SYSTEM_2_STATUS_INPUT_FULL = 0) PERSONAL_SYSTEM_2_SPIN_BUDGET"

definition personal_system_2_wait_for_output_full :: "'d ports \<Rightarrow> 'd \<Rightarrow> bool \<times> 'd" where
  "personal_system_2_wait_for_output_full io =
     personal_system_2_wait io (\<lambda>status. status AND PERSONAL_SYSTEM_2_STATUS_OUTPUT_FULL \<noteq> 0) PERSONAL_SYSTEM_2_SPIN_BUDGET"

definition personal_system_2_write_command :: "'d ports \<Rightarrow> u8 \<Rightarrow> 'd \<Rightarrow> bool \<times> 'd" where
  "personal_system_2_write_command io command d =
     (let (ok, d) = personal_system_2_wait_for_input_clear io d in
      if \<not> ok then (False, d) else (True, output_byte io PERSONAL_SYSTEM_2_COMMAND_PORT command d))"

definition personal_system_2_write_data :: "'d ports \<Rightarrow> u8 \<Rightarrow> 'd \<Rightarrow> bool \<times> 'd" where
  "personal_system_2_write_data io val d =
     (let (ok, d) = personal_system_2_wait_for_input_clear io d in
      if \<not> ok then (False, d) else (True, output_byte io PERSONAL_SYSTEM_2_DATA_PORT val d))"

definition personal_system_2_read_data :: "'d ports \<Rightarrow> 'd \<Rightarrow> u8 option \<times> 'd" where
  "personal_system_2_read_data io d =
     (let (ok, d) = personal_system_2_wait_for_output_full io d in
      if \<not> ok then (None, d) else let (b, d) = input_byte io PERSONAL_SYSTEM_2_DATA_PORT d in (Some b, d))"

definition personal_system_2_mouse_send :: "'d ports \<Rightarrow> u8 \<Rightarrow> 'd \<Rightarrow> bool \<times> 'd" where
  "personal_system_2_mouse_send io val d =
     (let (ok, d) = personal_system_2_write_command io 0xD4 d in if \<not> ok then (False, d) else
      let (ok, d) = personal_system_2_write_data io val d in if \<not> ok then (False, d) else
      let (response, d) = personal_system_2_read_data io d in (response = Some 0xFA, d))"

text \<open>What a successful initialisation asks of the interrupt layer.\<close>

datatype irq_action = Register_Handler u8 | Clear_Mask u8

definition personal_system_2_mouse_initialize ::
  "'d ports \<Rightarrow> 'd \<Rightarrow> ps2_mouse \<Rightarrow> bool \<times> irq_action list \<times> 'd \<times> ps2_mouse" where
  "personal_system_2_mouse_initialize io d m =
     (let m = m\<lparr>personal_system_2_mouse_present := False\<rparr>;
          (ok, d) = personal_system_2_write_command io 0xA8 d in if \<not> ok then (False, [], d, m) else
      let (ok, d) = personal_system_2_write_command io 0x20 d in if \<not> ok then (False, [], d, m) else
      let (configuration, d) = personal_system_2_read_data io d in
      case configuration of None \<Rightarrow> (False, [], d, m) | Some configuration \<Rightarrow>
      let configuration = configuration OR 0x02; configuration = configuration AND NOT 0x20;
          (ok, d) = personal_system_2_write_command io 0x60 d in if \<not> ok then (False, [], d, m) else
      let (ok, d) = personal_system_2_write_data io configuration d in if \<not> ok then (False, [], d, m) else
      let (ok, d) = personal_system_2_mouse_send io 0xF6 d in if \<not> ok then (False, [], d, m) else
      let (ok, d) = personal_system_2_mouse_send io 0xF4 d in if \<not> ok then (False, [], d, m) else
      (True, [Register_Handler 0x2C, Clear_Mask 2, Clear_Mask IRQ_MOUSE_LINE], d,
       m\<lparr>personal_system_2_mouse_present := True\<rparr>))"

section \<open>Interrupt handler and packet decoder\<close>

definition personal_system_2_mouse_interrupt_handler ::
  "'d ports \<Rightarrow> bool \<Rightarrow> 'd \<Rightarrow> ps2_mouse \<Rightarrow> end_of_interrupt \<times> 'd \<times> ps2_mouse" where
  "personal_system_2_mouse_interrupt_handler io line_owner_apic d m =
     (let (status, d) = input_byte io PERSONAL_SYSTEM_2_STATUS_PORT d;
          m = m\<lparr>personal_system_2_mouse_irq_count := personal_system_2_mouse_irq_count m + 1\<rparr>;
          (d, m) =
            (if status AND PERSONAL_SYSTEM_2_STATUS_FROM_AUX \<noteq> 0 \<and> status AND PERSONAL_SYSTEM_2_STATUS_OUTPUT_FULL \<noteq> 0 then
               let (byte, d) = input_byte io PERSONAL_SYSTEM_2_DATA_PORT d;
                   head = personal_system_2_mouse_ring_head m; tail = personal_system_2_mouse_ring_tail m in
               if PERSONAL_SYSTEM_2_MOUSE_RING_CAPACITY \<le> head - tail
               then (d, m\<lparr>personal_system_2_mouse_dropped_byte_count := personal_system_2_mouse_dropped_byte_count m + 1\<rparr>)
               else (d, m\<lparr>personal_system_2_mouse_ring :=
                            (personal_system_2_mouse_ring m)[unat (head AND PERSONAL_SYSTEM_2_MOUSE_RING_MASK) := byte],
                          personal_system_2_mouse_ring_head := head + 1\<rparr>)
             else (d, m))
      in (if line_owner_apic then Eoi_Apic else Eoi_Pic IRQ_MOUSE_LINE, d, m))"

definition personal_system_2_mouse_ring_peek :: "u32 \<Rightarrow> ps2_mouse \<Rightarrow> u8 option" where
  "personal_system_2_mouse_ring_peek offset m =
     (let tail = personal_system_2_mouse_ring_tail m in
      if personal_system_2_mouse_ring_head m - tail \<le> offset then None
      else Some (personal_system_2_mouse_ring m ! unat ((tail + offset) AND PERSONAL_SYSTEM_2_MOUSE_RING_MASK)))"

definition personal_system_2_mouse_get_pending_byte_count :: "ps2_mouse \<Rightarrow> u32" where
  "personal_system_2_mouse_get_pending_byte_count m = personal_system_2_mouse_ring_head m - personal_system_2_mouse_ring_tail m"

record mouse_packet =
  delta_x :: int
  delta_y :: int
  button_left :: bool
  button_right :: bool
  button_middle :: bool

definition mouse_decode :: "u8 \<Rightarrow> u8 \<Rightarrow> u8 \<Rightarrow> mouse_packet" where
  "mouse_decode flags raw_x raw_y = \<lparr>
     delta_x = (if flags AND 0x40 \<noteq> 0 then 0 else if flags AND 0x10 \<noteq> 0 then uint raw_x - 256 else uint raw_x),
     delta_y = (if flags AND 0x80 \<noteq> 0 then 0 else if flags AND 0x20 \<noteq> 0 then uint raw_y - 256 else uint raw_y),
     button_left = (flags AND 0x01 \<noteq> 0), button_right = (flags AND 0x02 \<noteq> 0), button_middle = (flags AND 0x04 \<noteq> 0)\<rparr>"

lemma peek_pending:
  "personal_system_2_mouse_ring_peek 0 m = Some b \<Longrightarrow> personal_system_2_mouse_ring_head m \<noteq> personal_system_2_mouse_ring_tail m"
  by (auto simp: personal_system_2_mouse_ring_peek_def Let_def)

function mouse_synchronize :: "ps2_mouse \<Rightarrow> (u8 \<times> u8 \<times> u8) option \<times> ps2_mouse" where
  "mouse_synchronize m =
     (case personal_system_2_mouse_ring_peek 0 m of None \<Rightarrow> (None, m) | Some flags \<Rightarrow>
      if flags AND 0x08 = 0 then
        mouse_synchronize (m\<lparr>personal_system_2_mouse_ring_tail := personal_system_2_mouse_ring_tail m + 1,
          personal_system_2_mouse_resynchronization_count := personal_system_2_mouse_resynchronization_count m + 1\<rparr>)
      else case personal_system_2_mouse_ring_peek 1 m of None \<Rightarrow> (None, m) | Some raw_x \<Rightarrow>
      case personal_system_2_mouse_ring_peek 2 m of None \<Rightarrow> (None, m) | Some raw_y \<Rightarrow> (Some (flags, raw_x, raw_y), m))"
  by pat_completeness auto
termination
  by (relation "measure (\<lambda>m. unat (personal_system_2_mouse_get_pending_byte_count m))")
    (auto simp: personal_system_2_mouse_get_pending_byte_count_def ring_pop_count dest: peek_pending)

declare mouse_synchronize.simps [simp del]

definition personal_system_2_mouse_try_pop_packet :: "bool \<Rightarrow> ps2_mouse \<Rightarrow> mouse_packet option \<times> ps2_mouse" where
  "personal_system_2_mouse_try_pop_packet out m =
     (if \<not> out then (None, m) else
      case mouse_synchronize m of
        (None, m) \<Rightarrow> (None, m)
      | (Some (flags, raw_x, raw_y), m) \<Rightarrow>
          (Some (mouse_decode flags raw_x raw_y),
           m\<lparr>personal_system_2_mouse_ring_tail := personal_system_2_mouse_ring_tail m + 3\<rparr>))"

section \<open>The packet stream\<close>

definition mouse_contents :: "ps2_mouse \<Rightarrow> u8 list" where
  "mouse_contents m = ring_contents (personal_system_2_mouse_ring m) (personal_system_2_mouse_ring_head m) (personal_system_2_mouse_ring_tail m)"

definition mouse_inv :: "ps2_mouse \<Rightarrow> bool" where
  "mouse_inv m \<longleftrightarrow> length (personal_system_2_mouse_ring m) = 256 \<and> unat (personal_system_2_mouse_get_pending_byte_count m) \<le> 256"

lemma peek_contents:
  assumes "length (personal_system_2_mouse_ring m) = 256" "i < 3"
  shows "personal_system_2_mouse_ring_peek (of_nat i) m = (if i < length (mouse_contents m) then Some (mouse_contents m ! i) else None)"
proof -
  have "unat (of_nat i :: u32) = i" using assms(2) by (simp add: unsigned_of_nat take_bit_nat_eq_self)
  then show ?thesis
    using assms unat_and_ones [of "personal_system_2_mouse_ring_tail m + of_nat i" 8]
    by (auto simp: personal_system_2_mouse_ring_peek_def Let_def mouse_contents_def ring_nth word_le_nat_alt)
qed

lemmas peeks = peek_contents [of _ 0, simplified] peek_contents [of _ 1, simplified] peek_contents [of _ 2, simplified]

lemma synchronize_contents:
  assumes "mouse_inv m" "mouse_contents m = bs" "rest = dropWhile (\<lambda>b. b AND 0x08 = 0) bs"
  shows "\<exists>m'. mouse_synchronize m = (if 3 \<le> length rest then Some (rest ! 0, rest ! 1, rest ! 2) else None, m') \<and>
    mouse_inv m' \<and> mouse_contents m' = rest \<and> personal_system_2_mouse_resynchronization_count m' =
      personal_system_2_mouse_resynchronization_count m + of_nat (length bs - length rest)"
  using assms
proof (induction bs arbitrary: m)
  case Nil
  then show ?case by (simp add: mouse_synchronize.simps [of m] peeks mouse_inv_def)
next
  case (Cons b bs)
  let ?n = "m\<lparr>personal_system_2_mouse_ring_tail := personal_system_2_mouse_ring_tail m + 1,
      personal_system_2_mouse_resynchronization_count := personal_system_2_mouse_resynchronization_count m + 1\<rparr>"
  have len: "length (personal_system_2_mouse_ring m) = 256" using Cons.prems(1) by (simp add: mouse_inv_def)
  have p0: "personal_system_2_mouse_ring_peek 0 m = Some b" using peeks(1) [OF len] Cons.prems(2) by simp
  show ?case
  proof (cases "b AND 0x08 = 0")
    case True
    have ne: "personal_system_2_mouse_ring_head m \<noteq> personal_system_2_mouse_ring_tail m" using p0 by (rule peek_pending)
    have c: "mouse_contents ?n = bs" using ring_pop [OF ne, of "personal_system_2_mouse_ring m"] Cons.prems(2) by (simp add: mouse_contents_def)
    have inv: "mouse_inv ?n" using Cons.prems(1) ring_pop_count [OF ne]
      by (simp add: mouse_inv_def personal_system_2_mouse_get_pending_byte_count_def)
    have r: "rest = dropWhile (\<lambda>b. b AND 0x08 = 0) bs" using Cons.prems(3) True by simp
    have "length rest \<le> length bs" unfolding r by (rule length_dropWhile_le)
    then have n: "length (b # bs) - length rest = Suc (length bs - length rest)" by (simp add: Suc_diff_le)
    have "mouse_synchronize m = mouse_synchronize ?n" using p0 True by (simp add: mouse_synchronize.simps [of m])
    then show ?thesis using Cons.IH [OF inv c r] unfolding n by (simp add: add.assoc)
  next
    case False
    then have "rest = b # bs" using Cons.prems(3) by simp
    then show ?thesis
      using p0 False Cons.prems(1,2) peeks(2,3) [OF len] by (auto simp: mouse_synchronize.simps [of m] numeral_eq_Suc)
  qed
qed

section \<open>Properties\<close>

text \<open>
  The bytes a device sends for a packet whose movements fit nine bits: header bit, buttons, signs.
\<close>

definition mouse_encode :: "mouse_packet \<Rightarrow> u8 list" where
  "mouse_encode p = [0x08 OR (if button_left p then 0x01 else 0) OR (if button_right p then 0x02 else 0) OR
     (if button_middle p then 0x04 else 0) OR (if delta_x p < 0 then 0x10 else 0) OR (if delta_y p < 0 then 0x20 else 0),
     word_of_int (delta_x p), word_of_int (delta_y p)]"

lemma nine_bit_delta:
  assumes "-256 \<le> x" "x < 256"
  shows "(if x < 0 then uint (word_of_int x :: u8) - 256 else uint (word_of_int x :: u8)) = x"
proof (cases "x < 0")
  case True
  have "x mod 256 = (x + 256) mod 256" by simp
  also have "\<dots> = x + 256" using True assms by (intro mod_pos_pos_trivial) auto
  finally show ?thesis using True by (simp add: uint_word_of_int)
next
  case False
  then show ?thesis using assms by (simp add: uint_word_of_int)
qed

lemma decode_encode:
  assumes "-256 \<le> delta_x p" "delta_x p < 256" "-256 \<le> delta_y p" "delta_y p < 256"
  shows "mouse_decode (mouse_encode p ! 0) (mouse_encode p ! 1) (mouse_encode p ! 2) = p"
  using nine_bit_delta [OF assms(1,2)] nine_bit_delta [OF assms(3,4)]
  by (cases p) (auto simp: mouse_decode_def mouse_encode_def split: if_splits)


definition mouse_example :: ps2_mouse where
  "mouse_example = \<lparr>personal_system_2_mouse_ring = [0x00, 0x19, 0xFE, 0x05] @ replicate 252 0,
     personal_system_2_mouse_ring_head = 4, personal_system_2_mouse_ring_tail = 0, personal_system_2_mouse_irq_count = 4,
     personal_system_2_mouse_dropped_byte_count = 0, personal_system_2_mouse_resynchronization_count = 0,
     personal_system_2_mouse_present = True\<rparr>"

lemma upt_four: "[0..<4] = [0, 1, 2, 3::nat]"
  by code_simp


text \<open>A meter on the ports: every read and every write of the device is counted.\<close>

definition metered :: "'d ports \<Rightarrow> ('d \<Rightarrow> nat) \<Rightarrow> bool" where
  "metered io count \<longleftrightarrow> (\<forall>p d. count (snd (input_byte io p d)) = Suc (count d)) \<and>
     (\<forall>p v d. count (output_byte io p v d) = Suc (count d))"

lemma wait_bound:
  "metered io count \<Longrightarrow> count (snd (personal_system_2_wait io ready n d)) \<le> count d + n"
proof (induction n arbitrary: d)
  case (Suc n)
  obtain b e where e: "input_byte io PERSONAL_SYSTEM_2_STATUS_PORT d = (b, e)" by (rule prod.exhaust)
  have "count e = Suc (count d)" using Suc.prems arg_cong [OF e, of "count \<circ> snd"] by (simp add: metered_def)
  then show ?case using Suc.IH [OF Suc.prems, of e] e by simp
qed simp

lemma write_bound:
  assumes "metered io count" "personal_system_2_wait io ready n d = (ok, d')"
  shows "count (output_byte io p v d') \<le> count d + Suc n" "count (snd (input_byte io p d')) \<le> count d + Suc n" "count d' \<le> count d + Suc n"
  using wait_bound [OF assms(1), of ready n d] assms by (simp_all add: metered_def)

lemma exchange_bounds:
  assumes "metered io count"
  shows "personal_system_2_write_command io v d = (ok, d') \<Longrightarrow> count d' \<le> count d + 100001"
    "personal_system_2_write_data io v d = (ok, d') \<Longrightarrow> count d' \<le> count d + 100001"
    "personal_system_2_read_data io d = (r, d') \<Longrightarrow> count d' \<le> count d + 100001"
proof -
  obtain ok1 d1 where w: "personal_system_2_wait_for_input_clear io d = (ok1, d1)" by fastforce
  note b = write_bound [OF assms w [unfolded personal_system_2_wait_for_input_clear_def]]
  show "personal_system_2_write_command io v d = (ok, d') \<Longrightarrow> count d' \<le> count d + 100001"
    using b by (auto simp: personal_system_2_write_command_def w split: if_splits)
  show "personal_system_2_write_data io v d = (ok, d') \<Longrightarrow> count d' \<le> count d + 100001"
    using b by (auto simp: personal_system_2_write_data_def w split: if_splits)
  obtain ok2 d2 where w2: "personal_system_2_wait_for_output_full io d = (ok2, d2)" by fastforce
  note b2 = write_bound [OF assms w2 [unfolded personal_system_2_wait_for_output_full_def]]
  show "personal_system_2_read_data io d = (r, d') \<Longrightarrow> count d' \<le> count d + 100001"
    using b2(2) [of PERSONAL_SYSTEM_2_DATA_PORT] b2(3)
    by (auto simp: personal_system_2_read_data_def w2 split: if_splits prod.splits)
qed

lemma send_bound:
  assumes "metered io count" "personal_system_2_mouse_send io v d = (ok, d')"
  shows "count d' \<le> count d + 300003"
proof -
  obtain o1 d1 where 1: "personal_system_2_write_command io 0xD4 d = (o1, d1)" by fastforce
  obtain o2 d2 where 2: "personal_system_2_write_data io v d1 = (o2, d2)" by fastforce
  obtain r d3 where 3: "personal_system_2_read_data io d2 = (r, d3)" by fastforce
  show ?thesis
    using assms(2) exchange_bounds(1) [OF assms(1) 1] exchange_bounds(2) [OF assms(1) 2] exchange_bounds(3) [OF assms(1) 3]
    by (auto simp: personal_system_2_mouse_send_def 1 2 3 split: if_splits)
qed

text \<open>
  C13 (bounds): initialising the mouse ends after at most 1100011 port accesses, whatever the controller
  answers: a machine without an auxiliary port costs a fixed number of reads and cannot hang the boot.
  The interrupt line is opened (cascade first) and the mouse reported present exactly on success.
\<close>

theorem mouse_initialize_bounded:
  assumes "metered io count" and "personal_system_2_mouse_initialize io d m = (ok, irqs, d', m')"
  shows "count d' \<le> count d + 1100011 \<and> personal_system_2_mouse_present m' = ok \<and>
    irqs = (if ok then [Register_Handler 0x2C, Clear_Mask 2, Clear_Mask 12] else [])"
proof -
  obtain o1 d1 where 1: "personal_system_2_write_command io 0xA8 d = (o1, d1)" by fastforce
  obtain o2 d2 where 2: "personal_system_2_write_command io 0x20 d1 = (o2, d2)" by fastforce
  obtain r d3 where 3: "personal_system_2_read_data io d2 = (r, d3)" by fastforce
  obtain o4 d4 where 4: "personal_system_2_write_command io 0x60 d3 = (o4, d4)" by fastforce
  obtain o5 d5 where 5: "personal_system_2_write_data io ((the r OR 0x02) AND NOT 0x20) d4 = (o5, d5)" by fastforce
  obtain o6 d6 where 6: "personal_system_2_mouse_send io 0xF6 d5 = (o6, d6)" by fastforce
  obtain o7 d7 where 7: "personal_system_2_mouse_send io 0xF4 d6 = (o7, d7)" by fastforce
  note e = exchange_bounds [OF assms(1)] and s = send_bound [OF assms(1)]
  have b: "count d1 \<le> count d + 100001" "count d2 \<le> count d1 + 100001" "count d3 \<le> count d2 + 100001"
    "count d4 \<le> count d3 + 100001" "count d5 \<le> count d4 + 100001" "count d6 \<le> count d5 + 300003" "count d7 \<le> count d6 + 300003"
    using e(1) [OF 1] e(1) [OF 2] e(3) [OF 3] e(1) [OF 4] e(2) [OF 5] s [OF 6] s [OF 7] .
  show ?thesis
  proof (cases r)
    case None
    then show ?thesis using assms(2) b(1-3)
      by (cases o1; cases o2) (auto simp: personal_system_2_mouse_initialize_def 1 2 3 Let_def)
  next
    case (Some c)
    then have "(ok, irqs, d', m') = (let m0 = m\<lparr>personal_system_2_mouse_present := False\<rparr> in
        if \<not> o1 then (False, [], d1, m0) else if \<not> o2 then (False, [], d2, m0) else if \<not> o4 then (False, [], d4, m0)
        else if \<not> o5 then (False, [], d5, m0) else if \<not> o6 then (False, [], d6, m0) else if \<not> o7 then (False, [], d7, m0)
        else (True, [Register_Handler 0x2C, Clear_Mask 2, Clear_Mask 12], d7, m\<lparr>personal_system_2_mouse_present := True\<rparr>))"
      using 5 by (simp add: assms(2) [symmetric] personal_system_2_mouse_initialize_def 1 2 3 4 6 7 Let_def cong: if_cong)
    then have r: "d' \<in> {d1, d2, d4, d5, d6, d7}" "personal_system_2_mouse_present m' = ok"
      "irqs = (if ok then [Register_Handler 0x2C, Clear_Mask 2, Clear_Mask 12] else [])"
      by (auto simp: Let_def split: if_splits)
    have "\<forall>x \<in> {d1, d2, d4, d5, d6, d7}. count x \<le> count d + 1100011" using b by simp
    with r show ?thesis by blast
  qed
qed

text \<open>A controller that never becomes ready, with a counter as its state.\<close>

definition deaf_ports :: "nat ports" where
  "deaf_ports = \<lparr>input_byte = (\<lambda>p n. (0x02, Suc n)), output_byte = (\<lambda>p v n. Suc n)\<rparr>"

theorem mouse_initialize_bounded_witness:
  "\<exists>ok irqs d' m'. personal_system_2_mouse_initialize deaf_ports 0 mouse_example = (ok, irqs, d', m') \<and> d' \<le> 1100011"
proof -
  have m: "metered deaf_ports (\<lambda>n. n)" by (simp add: metered_def deaf_ports_def)
  obtain ok irqs d' m' where "personal_system_2_mouse_initialize deaf_ports 0 mouse_example = (ok, irqs, d', m')"
    by (rule prod_cases4)
  from this mouse_initialize_bounded [OF m this] show ?thesis by auto
qed

text \<open>
  C14 (safety): the mouse interrupt reads the shared data port only when the controller says the byte comes
  from the auxiliary device, so it never takes a keystroke; such a byte is appended to the ring, or
  counted as dropped when 256 bytes wait, and the controller that owns line 12 is acknowledged.
\<close>

theorem mouse_handler_correct:
  assumes "mouse_inv m" and "input_byte io 0x64 d = (status, d1)" and "input_byte io 0x60 d1 = (byte, d2)"
    and "aux = (status AND 0x20 \<noteq> 0 \<and> status AND 0x01 \<noteq> 0)" and "room = (length (mouse_contents m) < 256)"
  shows "\<exists>m'. personal_system_2_mouse_interrupt_handler io owner d m =
      (if owner then Eoi_Apic else Eoi_Pic 12, if aux then d2 else d1, m') \<and> mouse_inv m' \<and>
    mouse_contents m' = mouse_contents m @ (if aux \<and> room then [byte] else []) \<and>
    personal_system_2_mouse_dropped_byte_count m' = personal_system_2_mouse_dropped_byte_count m + (if aux \<and> \<not> room then 1 else 0)"
proof -
  let ?h = "personal_system_2_mouse_ring_head m" and ?t = "personal_system_2_mouse_ring_tail m"
  have full: "256 \<le> ?h - ?t \<longleftrightarrow> \<not> room" using assms(5) by (simp add: word_le_nat_alt mouse_contents_def not_less)
  have push: "ring_contents ((personal_system_2_mouse_ring m)[unat (?h AND 255) := byte]) (?h + 1) ?t = mouse_contents m @ [byte]"
    if room using ring_push [of "personal_system_2_mouse_ring m" 8 ?h ?t byte] assms(1,5) that unat_and_ones [of ?h 8]
    by (simp add: mouse_inv_def mouse_contents_def)
  have n: "unat (?h + 1 - ?t) = Suc (unat (?h - ?t))" if room
    using arg_cong [OF push [OF that], of length] by (simp add: mouse_contents_def)
  show ?thesis
    using assms(1-3,5) push n unfolding assms(4)
    by (auto simp: personal_system_2_mouse_interrupt_handler_def Let_def full mouse_inv_def mouse_contents_def
        personal_system_2_mouse_get_pending_byte_count_def)
qed

theorem mouse_handler_correct_witness:
  "\<exists>d' m'. personal_system_2_mouse_interrupt_handler \<lparr>input_byte = (\<lambda>p n. (if p = 0x64 then 0x21 else 0x77, Suc n)), output_byte = (\<lambda>p v n. n)\<rparr>
     False (0::nat) mouse_example = (Eoi_Pic 12, d', m') \<and> mouse_contents m' = [0x00, 0x19, 0xFE, 0x05, 0x77]"
proof -
  have inv: "mouse_inv mouse_example" by (simp add: mouse_inv_def mouse_example_def personal_system_2_mouse_get_pending_byte_count_def)
  have c: "mouse_contents mouse_example = [0x00, 0x19, 0xFE, 0x05]"
    by (simp add: mouse_contents_def mouse_example_def ring_contents_def upt_four)
  show ?thesis
    using mouse_handler_correct [OF inv _ _ refl refl, of "\<lparr>input_byte = (\<lambda>p n. (if p = 0x64 then 0x21 else 0x77, Suc n)), output_byte = (\<lambda>p v n. n)\<rparr>"
        0 "0x21" "Suc 0" "0x77" "Suc (Suc 0)" False] by (auto simp: c)
qed

end
