(* ===== verification/Hal_Audio.thy ===== *)
theory Hal_Audio
  imports Fifo "HOL-Library.Signed_Division"
begin

text \<open>
  \<open>src/kernel/arch/i386/hal/hal_audio.c\<close>: the capture ring, which keeps the newest frames and counts those
  it loses, and the output limiter. The codec is a parameter: the controller's report and the frames it
  delivers are arguments. Samples are 16-bit words read as signed; the \<open>int32_t\<close> products are integers,
  and their range is part of the limiter's theorem.
\<close>

abbreviation (input) KERNEL_HAL_AUDIO_FRAME_SAMPLES :: u32 where "KERNEL_HAL_AUDIO_FRAME_SAMPLES \<equiv> 640"
abbreviation (input) KERNEL_HAL_AUDIO_RING_FRAMES :: u32 where "KERNEL_HAL_AUDIO_RING_FRAMES \<equiv> 8"
abbreviation (input) KERNEL_HAL_AUDIO_OUTPUT_CEILING_AMPLITUDE :: int where "KERNEL_HAL_AUDIO_OUTPUT_CEILING_AMPLITUDE \<equiv> 8230"

type_synonym audio_frame = "u16 list"

record hal_audio =
  hal_audio_ring :: "audio_frame list"
  hal_audio_write_index :: u32
  hal_audio_read_index :: u32
  hal_audio_overruns :: u32
  hal_audio_codec_present :: bool
  hal_audio_name :: string
  hal_audio_gain_permille :: u32
  hal_audio_clipped :: u32

record hda_report =
  hda_answered :: bool
  capture_running :: bool
  controller_running :: bool
  controller_present :: bool

definition hardware_abstraction_layer_audio_initialize :: "hda_report \<Rightarrow> hal_audio \<Rightarrow> bool \<times> hal_audio" where
  "hardware_abstraction_layer_audio_initialize report a =
     (let a = a\<lparr>hal_audio_write_index := 0, hal_audio_read_index := 0, hal_audio_overruns := 0,
                hal_audio_codec_present := False, hal_audio_name := ''absent''\<rparr>;
          a = (if capture_running report then a\<lparr>hal_audio_codec_present := True, hal_audio_name := ''intel-hda''\<rparr>
               else if hda_answered report then a\<lparr>hal_audio_name := ''intel-hda (codec answered, no capture stream)''\<rparr>
               else if controller_running report then a\<lparr>hal_audio_name := ''intel-hda (no codec answered)''\<rparr>
               else if controller_present report then a\<lparr>hal_audio_name := ''intel-hda (reset failed)''\<rparr>
               else a)
      in (hal_audio_codec_present a, a))"

text \<open>
  One turn of the pump: the driver fills the slot of the write index before the overrun is counted. The
  loop ends at the first poll that yields nothing, the end of the list of frames.
\<close>

definition audio_pump_frame :: "audio_frame \<Rightarrow> hal_audio \<Rightarrow> hal_audio" where
  "audio_pump_frame frame a =
     (let slot = hal_audio_write_index a mod KERNEL_HAL_AUDIO_RING_FRAMES;
          a = a\<lparr>hal_audio_ring := (hal_audio_ring a)[unat slot := frame]\<rparr>;
          a = (if KERNEL_HAL_AUDIO_RING_FRAMES \<le> hal_audio_write_index a - hal_audio_read_index a
               then a\<lparr>hal_audio_overruns := hal_audio_overruns a + 1, hal_audio_read_index := hal_audio_read_index a + 1\<rparr> else a)
      in a\<lparr>hal_audio_write_index := hal_audio_write_index a + 1\<rparr>)"

fun audio_pump_loop :: "audio_frame list \<Rightarrow> u32 \<Rightarrow> hal_audio \<Rightarrow> u32 \<times> hal_audio" where
  "audio_pump_loop [] moved a = (moved, a)"
| "audio_pump_loop (frame # frames) moved a = audio_pump_loop frames (moved + 1) (audio_pump_frame frame a)"

definition hardware_abstraction_layer_audio_capture_pump :: "audio_frame list \<Rightarrow> hal_audio \<Rightarrow> u32 \<times> hal_audio" where
  "hardware_abstraction_layer_audio_capture_pump frames a =
     (if \<not> hal_audio_codec_present a then (0, a) else audio_pump_loop frames 0 a)"

definition hardware_abstraction_layer_audio_sample_rate :: "hal_audio \<Rightarrow> u32" where
  "hardware_abstraction_layer_audio_sample_rate a = (if hal_audio_codec_present a then 16000 else 0)"

definition hardware_abstraction_layer_audio_capture_take :: "bool \<Rightarrow> u32 \<Rightarrow> hal_audio \<Rightarrow> (u32 \<times> audio_frame) \<times> hal_audio" where
  "hardware_abstraction_layer_audio_capture_take out capacity a =
     (if \<not> out \<or> capacity < KERNEL_HAL_AUDIO_FRAME_SAMPLES then ((0, []), a) else
      let write = hal_audio_write_index a; read = hal_audio_read_index a in
      if write = read then ((0, []), a)
      else let slot = read mod KERNEL_HAL_AUDIO_RING_FRAMES in
        ((KERNEL_HAL_AUDIO_FRAME_SAMPLES, map (\<lambda>i. hal_audio_ring a ! unat slot ! i) [0..<unat KERNEL_HAL_AUDIO_FRAME_SAMPLES]),
         a\<lparr>hal_audio_read_index := read + 1\<rparr>))"

definition hardware_abstraction_layer_audio_set_output_gain_permille :: "u32 \<Rightarrow> hal_audio \<Rightarrow> u32 \<times> hal_audio" where
  "hardware_abstraction_layer_audio_set_output_gain_permille permille a =
     (let a = a\<lparr>hal_audio_gain_permille := (if 1000 < permille then 1000 else permille)\<rparr> in (hal_audio_gain_permille a, a))"

definition audio_scale :: "u32 \<Rightarrow> u16 \<Rightarrow> int" where
  "audio_scale gain sample = (sint sample * sint gain) sdiv 1000"

definition audio_limit_sample :: "u32 \<Rightarrow> u16 \<Rightarrow> u16 \<times> bool" where
  "audio_limit_sample gain sample =
     (let scaled = audio_scale gain sample in
      if KERNEL_HAL_AUDIO_OUTPUT_CEILING_AMPLITUDE < scaled then (word_of_int KERNEL_HAL_AUDIO_OUTPUT_CEILING_AMPLITUDE, True)
      else if scaled < - KERNEL_HAL_AUDIO_OUTPUT_CEILING_AMPLITUDE then (word_of_int (- KERNEL_HAL_AUDIO_OUTPUT_CEILING_AMPLITUDE), True)
      else (word_of_int scaled, False))"

fun audio_limit_loop :: "u16 list \<Rightarrow> u32 \<Rightarrow> u32 \<Rightarrow> u16 list \<times> u32" where
  "audio_limit_loop [] gain clipped = ([], clipped)"
| "audio_limit_loop (sample # samples) gain clipped =
     (let (out, hit) = audio_limit_sample gain sample;
          (outs, clipped) = audio_limit_loop samples gain (if hit then clipped + 1 else clipped)
      in (out # outs, clipped))"

definition hardware_abstraction_layer_audio_limit :: "u16 list option \<Rightarrow> bool \<Rightarrow> hal_audio \<Rightarrow> u16 list \<times> u32 \<times> hal_audio" where
  "hardware_abstraction_layer_audio_limit samples out a =
     (case samples of None \<Rightarrow> ([], 0, a) | Some samples \<Rightarrow>
      if \<not> out then ([], 0, a) else
      let (outs, clipped) = audio_limit_loop samples (hal_audio_gain_permille a) 0
      in (outs, clipped, a\<lparr>hal_audio_clipped := hal_audio_clipped a + clipped\<rparr>))"

definition hardware_abstraction_layer_audio_playback_submit :: "u16 list option \<Rightarrow> u32 \<Rightarrow> hal_audio \<Rightarrow> bool \<times> hal_audio" where
  "hardware_abstraction_layer_audio_playback_submit samples count a =
     (let n = (if count < KERNEL_HAL_AUDIO_FRAME_SAMPLES then count else KERNEL_HAL_AUDIO_FRAME_SAMPLES);
          (outs, clipped, a) = hardware_abstraction_layer_audio_limit (map_option (take (unat n)) samples) True a
      in (False, a))"

section \<open>The ring keeps the newest frames\<close>

definition audio_inv :: "hal_audio \<Rightarrow> bool" where
  "audio_inv a \<longleftrightarrow> length (hal_audio_ring a) = 8 \<and> unat (hal_audio_write_index a - hal_audio_read_index a) \<le> 8"

definition audio_contents :: "hal_audio \<Rightarrow> audio_frame list" where
  "audio_contents a = ring_contents (hal_audio_ring a) (hal_audio_write_index a) (hal_audio_read_index a)"

definition newest :: "nat \<Rightarrow> 'a list \<Rightarrow> 'a list" where
  "newest n xs = drop (length xs - n) xs"

lemma newest_append: "newest n (newest n xs @ ys) = newest n (xs @ ys)"
  by (cases "n \<le> length xs") (simp_all add: newest_def add.commute)

lemma unat_mod_8: "unat ((x::u32) mod 8) = unat x mod 2 ^ 3"
  by (simp add: unat_mod_distrib)

lemma pump_frame_contents:
  assumes "audio_inv a"
  shows "audio_inv (audio_pump_frame f a) \<and> audio_contents (audio_pump_frame f a) = newest 8 (audio_contents a @ [f]) \<and>
    hal_audio_overruns (audio_pump_frame f a) = hal_audio_overruns a + (if length (audio_contents a) = 8 then 1 else 0)"
proof -
  let ?w = "hal_audio_write_index a" and ?r = "hal_audio_read_index a" and ?s = "hal_audio_ring a"
  have len: "length ?s = 2 ^ 3" using assms by (simp add: audio_inv_def)
  show ?thesis
  proof (cases "length (audio_contents a) = 8")
    case True
    then have n: "unat (?w - ?r) = 8" by (simp add: audio_contents_def)
    then have ne: "?w \<noteq> ?r" by auto
    have m: "unat (?w - (?r + 1)) < 2 ^ 3" using ring_pop_count [OF ne] n by simp
    have c: "audio_contents (audio_pump_frame f a) = tl (audio_contents a) @ [f]"
      using ring_push [OF len _ m, of f] ring_pop [OF ne, of ?s] n
      by (simp add: audio_pump_frame_def Let_def audio_contents_def word_le_nat_alt unat_mod_8)
    moreover have "newest 8 (audio_contents a @ [f]) = tl (audio_contents a) @ [f]"
      using True by (simp add: newest_def drop_Suc)
    moreover have "unat (hal_audio_write_index (audio_pump_frame f a) - hal_audio_read_index (audio_pump_frame f a)) = 8"
      using arg_cong [OF c, of length] True by (simp add: audio_contents_def)
    ultimately show ?thesis
      using n True len by (simp add: audio_inv_def) (simp add: audio_pump_frame_def Let_def word_le_nat_alt)
  next
    case False
    then have n: "unat (?w - ?r) < 2 ^ 3" using assms by (simp add: audio_contents_def audio_inv_def)
    have c: "audio_contents (audio_pump_frame f a) = audio_contents a @ [f]"
      using ring_push [OF len _ n, of f] n
      by (simp add: audio_pump_frame_def Let_def audio_contents_def word_le_nat_alt unat_mod_8)
    moreover have "newest 8 (audio_contents a @ [f]) = audio_contents a @ [f]" using n by (simp add: newest_def audio_contents_def)
    moreover have "unat (hal_audio_write_index (audio_pump_frame f a) - hal_audio_read_index (audio_pump_frame f a)) \<le> 8"
      using arg_cong [OF c, of length] n by (simp add: audio_contents_def)
    ultimately show ?thesis
      using n False len by (simp add: audio_inv_def) (simp add: audio_pump_frame_def Let_def word_le_nat_alt)
  qed
qed

lemma pump_loop_contents:
  assumes "audio_inv a" "audio_pump_loop frames moved a = (n, a')"
  shows "audio_inv a' \<and> audio_contents a' = newest 8 (audio_contents a @ frames) \<and> n = moved + of_nat (length frames) \<and>
    hal_audio_overruns a' = hal_audio_overruns a + of_nat (length (audio_contents a) + length frames - 8)"
  using assms
proof (induction frames arbitrary: a moved)
  case Nil
  then show ?case by (auto simp: newest_def audio_inv_def audio_contents_def)
next
  case (Cons f frames)
  let ?b = "audio_pump_frame f a"
  have b: "audio_inv ?b" "audio_contents ?b = newest 8 (audio_contents a @ [f])"
    "hal_audio_overruns ?b = hal_audio_overruns a + (if length (audio_contents a) = 8 then 1 else 0)"
    using pump_frame_contents [OF Cons.prems(1), of f] by blast+
  have l: "length (audio_contents a) \<le> 8" using Cons.prems(1) by (simp add: audio_inv_def audio_contents_def)
  have ih: "audio_inv a'" "audio_contents a' = newest 8 (audio_contents ?b @ frames)" "n = moved + 1 + of_nat (length frames)"
    "hal_audio_overruns a' = hal_audio_overruns ?b + of_nat (length (audio_contents ?b) + length frames - 8)"
    using Cons.IH [OF b(1)] Cons.prems(2) by simp_all
  have lb: "length (audio_contents ?b) = (if length (audio_contents a) = 8 then 8 else Suc (length (audio_contents a)))"
    unfolding b(2) using l by (simp add: newest_def)
  have "hal_audio_overruns a' = hal_audio_overruns a + of_nat (length (audio_contents a) + length (f # frames) - 8)"
    unfolding ih(4) b(3) lb by simp
  moreover have "audio_contents a' = newest 8 (audio_contents a @ f # frames)"
    unfolding ih(2) b(2) newest_append by simp
  ultimately show ?case using ih(1,3) by simp
qed

text \<open>
  C15 (functional): a pump moves every frame the device has ready, keeps the eight newest of those waiting and
  those arriving, in order, and counts exactly the frames that were lost. Taking then yields the oldest
  frame kept.
\<close>

theorem audio_capture_keeps_newest:
  assumes "audio_inv a" "hal_audio_codec_present a" "hardware_abstraction_layer_audio_capture_pump frames a = (moved, a')"
  shows "audio_contents a' = newest 8 (audio_contents a @ frames) \<and> moved = of_nat (length frames) \<and>
    hal_audio_overruns a' = hal_audio_overruns a + of_nat (length (audio_contents a) + length frames - 8) \<and> audio_inv a' \<and>
    (\<forall>f fs. audio_contents a' = f # fs \<and> length f = 640 \<and> 640 \<le> capacity \<longrightarrow>
       (\<exists>b. hardware_abstraction_layer_audio_capture_take True capacity a' = ((640, f), b) \<and> audio_contents b = fs \<and> audio_inv b))"
proof -
  have p: "audio_inv a'" "audio_contents a' = newest 8 (audio_contents a @ frames)" "moved = 0 + of_nat (length frames)"
    "hal_audio_overruns a' = hal_audio_overruns a + of_nat (length (audio_contents a) + length frames - 8)"
    using pump_loop_contents [OF assms(1), of frames 0 moved a'] assms(2,3)
    by (simp_all add: hardware_abstraction_layer_audio_capture_pump_def)
  have "\<exists>b. hardware_abstraction_layer_audio_capture_take True capacity a' = ((640, f), b) \<and> audio_contents b = fs \<and> audio_inv b"
    if f: "audio_contents a' = f # fs" "length f = 640" "640 \<le> capacity" for f fs
  proof -
    have ne: "hal_audio_write_index a' \<noteq> hal_audio_read_index a'" using f(1) by (auto simp: audio_contents_def)
    have "hal_audio_ring a' ! unat (hal_audio_read_index a' mod 8) = f"
      and c: "ring_contents (hal_audio_ring a') (hal_audio_write_index a') (hal_audio_read_index a' + 1) = fs"
      using ring_pop [OF ne, of "hal_audio_ring a'"] f(1) p(1) by (simp_all add: audio_contents_def audio_inv_def unat_mod_8)
    moreover have "map ((!) f) [0..<640] = f" using f(2) map_nth [of f] by simp
    ultimately show ?thesis
      using ne f(3) p(1) ring_pop_count [OF ne]
      by (simp add: hardware_abstraction_layer_audio_capture_take_def Let_def audio_contents_def audio_inv_def not_le [symmetric])
  qed
  then show ?thesis using p by simp
qed

definition audio_example :: hal_audio where
  "audio_example = \<lparr>hal_audio_ring = replicate 8 [], hal_audio_write_index = 8, hal_audio_read_index = 0, hal_audio_overruns = 0,
     hal_audio_codec_present = True, hal_audio_name = ''intel-hda'', hal_audio_gain_permille = 1000, hal_audio_clipped = 0\<rparr>"

theorem audio_capture_keeps_newest_witness:
  "audio_contents (snd (hardware_abstraction_layer_audio_capture_pump [[1], [2]] audio_example)) = newest 8 (replicate 8 [] @ [[1], [2]])"
proof -
  have inv: "audio_inv audio_example" "hal_audio_codec_present audio_example" by (simp_all add: audio_inv_def audio_example_def)
  have c: "audio_contents audio_example = replicate 8 []" by code_simp
  obtain n a' where p: "hardware_abstraction_layer_audio_capture_pump [[1], [2]] audio_example = (n, a')" by (rule prod.exhaust)
  show ?thesis using audio_capture_keeps_newest [OF inv p] by (simp add: p c)
qed

section \<open>The limiter\<close>

lemma abs_sdiv_1000: "\<bar>x sdiv 1000\<bar> = \<bar>x\<bar> div (1000::int)"
  by (cases "x = 0") (simp_all add: signed_divide_int_def abs_mult abs_sgn_eq)

lemma sint_u16_bounds: "- 32768 \<le> sint (s::u16)" "sint (s::u16) \<le> 32767"
  using sint_greater_eq [of s] sint_less [of s] by simp_all

lemma sint_small_word: "n \<le> 1000 \<Longrightarrow> sint (n::u32) = uint n"
proof -
  assume "n \<le> 1000"
  then have "uint n \<le> 1000" by (simp add: word_le_def)
  moreover have "- (2 ^ 31) \<le> uint n" by (rule order_trans [OF _ unsigned_greater_eq]) simp
  ultimately show ?thesis unfolding sint_uint by (intro signed_take_bit_int_eq_self) simp_all
qed

lemma audio_scale_bounds:
  assumes "gain \<le> 1000"
  shows "\<bar>sint s * sint gain\<bar> \<le> 32768000" "\<bar>audio_scale gain s\<bar> \<le> \<bar>sint s\<bar>"
proof -
  have g: "0 \<le> sint gain" "sint gain \<le> 1000"
    using assms by (simp_all add: sint_small_word word_le_def)
  have m: "\<bar>sint s * sint gain\<bar> \<le> \<bar>sint s\<bar> * 1000"
    using g by (simp add: abs_mult mult_left_mono)
  then show "\<bar>sint s * sint gain\<bar> \<le> 32768000" using sint_u16_bounds [of s] by linarith
  have "\<bar>audio_scale gain s\<bar> = \<bar>sint s * sint gain\<bar> div 1000" by (simp add: audio_scale_def abs_sdiv_1000)
  also have "\<dots> \<le> (\<bar>sint s\<bar> * 1000) div 1000" using m by (rule zdiv_mono1) simp
  finally show "\<bar>audio_scale gain s\<bar> \<le> \<bar>sint s\<bar>" by simp
qed

definition clamp :: "int \<Rightarrow> int \<Rightarrow> int" where
  "clamp c x = max (- c) (min c x)"

lemma limit_sample:
  "audio_limit_sample gain s = (word_of_int (clamp 8230 (audio_scale gain s)), 8230 < \<bar>audio_scale gain s\<bar>)"
  by (auto simp: audio_limit_sample_def Let_def clamp_def)

lemma limit_loop:
  "audio_limit_loop samples gain n = (map (\<lambda>s. word_of_int (clamp 8230 (audio_scale gain s))) samples,
     n + of_nat (length (filter (\<lambda>s. 8230 < \<bar>audio_scale gain s\<bar>) samples)))"
  by (induction samples arbitrary: n) (simp_all add: limit_sample)

lemma sint_clamp: "sint (word_of_int (clamp 8230 x) :: u16) = clamp 8230 x"
  by (subst signed_of_int) (simp add: signed_take_bit_int_eq_self clamp_def)

text \<open>
  C16 (bounds): whatever gain is asked for, the limiter lets no sample out above the ceiling. The gain is
  saturated at unity, so the 32-bit product cannot overflow; every sample is scaled, then clamped to
  8230 on both sides; the result reports exactly the samples that exceeded it, and an amplitude never grows.
\<close>

theorem audio_limit_safe:
  assumes "b = snd (hardware_abstraction_layer_audio_set_output_gain_permille permille a)"
  shows "hal_audio_gain_permille b \<le> 1000 \<and>
    (\<forall>s \<in> set samples. \<bar>sint s * sint (hal_audio_gain_permille b)\<bar> < 2 ^ 31) \<and>
    (\<exists>outs clipped. hardware_abstraction_layer_audio_limit (Some samples) True b =
        (outs, clipped, b\<lparr>hal_audio_clipped := hal_audio_clipped b + clipped\<rparr>) \<and>
      map sint outs = map (\<lambda>s. clamp 8230 (audio_scale (hal_audio_gain_permille b) s)) samples \<and>
      list_all2 (\<lambda>o1 s. \<bar>sint o1\<bar> \<le> 8230 \<and> \<bar>sint o1\<bar> \<le> \<bar>sint s\<bar>) outs samples \<and>
      clipped = of_nat (length (filter (\<lambda>s. 8230 < \<bar>audio_scale (hal_audio_gain_permille b) s\<bar>) samples)))"
proof -
  have g: "hal_audio_gain_permille b \<le> 1000"
    using assms by (simp add: hardware_abstraction_layer_audio_set_output_gain_permille_def Let_def not_less)
  have "\<bar>clamp 8230 (audio_scale (hal_audio_gain_permille b) s)\<bar> \<le> 8230 \<and>
      \<bar>clamp 8230 (audio_scale (hal_audio_gain_permille b) s)\<bar> \<le> \<bar>sint s\<bar>" for s
    using audio_scale_bounds(2) [OF g, of s] unfolding clamp_def by linarith
  moreover have "\<bar>sint s * sint (hal_audio_gain_permille b)\<bar> < 2 ^ 31" for s :: u16
    using audio_scale_bounds(1) [OF g, of s] by simp
  ultimately show ?thesis
    using g by (simp add: hardware_abstraction_layer_audio_limit_def limit_loop sint_clamp list_all2_map1 list_all2_same)
qed

theorem audio_limit_safe_witness:
  "\<exists>outs clipped. hardware_abstraction_layer_audio_limit (Some [32767, 100, 0x8000]) True
      (snd (hardware_abstraction_layer_audio_set_output_gain_permille 5000 audio_example)) =
    (outs, clipped, audio_example\<lparr>hal_audio_clipped := clipped\<rparr>) \<and> map sint outs = [8230, 100, -8230] \<and> clipped = 2"
proof -
  have b: "snd (hardware_abstraction_layer_audio_set_output_gain_permille 5000 audio_example) = audio_example"
    by (simp add: hardware_abstraction_layer_audio_set_output_gain_permille_def audio_example_def Let_def)
  have s: "map (audio_scale 1000) [32767, 100, 0x8000] = [32767, 100, -32768]" by code_simp
  show ?thesis
    using audio_limit_safe [of audio_example 5000 audio_example "[32767, 100, 0x8000]"] s unfolding b
    by (auto simp: audio_example_def clamp_def)
qed

end
