(* ===== verification/Spec2Isabelle.thy ===== *)
theory Spec2Isabelle
  imports Pmm_Correct Pmm_Extend Pinned_Memory Tlsf Ring_Buffer Pool_Allocator Arenas Heap_First_Fit Reconciler Boot_Module Dialogue Ps2_Keyboard Ps2_Mouse Hal_Audio
begin

text \<open>
  \<^bold>\<open>Verification of LplKernel.\<close>

  LplKernel is a 32-bit x86 kernel in C with two profiles: the client (real-time) profile, which allocates from pools filled
  at boot, and the server profile, which allocates on demand. This development models its memory management from the physical
  frames up to the object allocators, the processor and NUMA registries these rely on, the input, dialogue and audio queues,
  and a few small policy modules, and proves what makes each of them correct. Paths are relative to \<open>src/kernel\<close> unless
  they start with \<open>src/\<close>.

  \<^bold>\<open>Conventions.\<close> C integers are words of their width (\<open>u8\<close> to \<open>u64\<close>), so sums and products wrap as in C; \<open>size_t\<close> and pointers are 32 bits.
  Memory is a function from addresses to bytes with little-endian accesses (\<open>Prelude\<close>); everything the kernel keeps inside
  memory it manages (free-list links, block headers, page tables, cookies, canaries, poison) is read from and written to it.
  The static variables of a source file are the fields of a record, and an operation takes that record and returns it changed.
  The build flags \<open>LPL_KERNEL_REAL_TIME_MODE\<close> and \<open>LPL_KERNEL_DEBUG_POISON\<close> are an argument, so a theorem covers all builds unless it
  says otherwise. What the code gets from hardware or from a module that is not modelled (time-stamp counter readings, port
  reads, CPUID) is an argument, as is the result of \<open>kmalloc\<close> in the pool, ring and arena constructors. \<open>None\<close> as a result means that the C code has no defined outcome there, or does
  not return; the theorems about such operations say that the result is \<open>Some\<close>.

  \<^bold>\<open>Physical memory.\<close>
  \<^item> \<open>Cpu_Topology\<close> (\<open>arch/i386/cpu/cpu_topology.c\<close>): the table from APIC ids to logical slots; every reachable state has at most 32
    slots, no id twice and an exact online count.
  \<^item> \<open>Numa_Policy\<close> (\<open>kernel/policy/numa_policy.c\<close>): the reader of the firmware's affinity table, equal to a declarative reading of it.
  \<^item> \<open>Pmm\<close> (\<open>arch/i386/cpu/pmm.c\<close>): both frame allocators, the binary buddy lists of the server and the plain free lists of the client.
    \<open>Buddy_Blocks\<close> is the abstract buddy system on sets of blocks, \<open>Frames\<close> the addresses of frames and links in memory, \<open>Buddy\<close> the
    simulation of the abstract system by the linked lists, \<open>Freelist\<close> the client's lists, \<open>Frame_Provider\<close> the contract that the
    layers above use (the locales \<open>frame_provider\<close> and \<open>pair_provider\<close>, interpreted on both allocators), \<open>Pmm_Init\<close> the population from the
    boot memory map, and \<open>Pmm_Correct\<close> the results: allocation succeeds exactly when an aligned free run exists, a release is accepted
    exactly for allocated blocks, allocation and release cancel out, frames are conserved under any interleaving, population puts
    exactly the eligible frames into the pool, and successive frames are distinct.
  \<^item> \<open>Pmm_Extend\<close>: the late extension of the direct mapping, which enters the window of the virtual memory manager.

  \<^bold>\<open>Virtual memory.\<close>
  \<^item> \<open>Paging\<close> and \<open>Paging_Correct\<close> (\<open>arch/i386/cpu/paging.c\<close>): mapping, unmapping and protection as changes of the translation that the
    two-level tables in memory define; each operation changes the translation of one page only and keeps the tables sound.
    \<open>Paging_Clients\<close> is what callers that hand frames over need.
  \<^item> \<open>Vmm\<close> and \<open>Vmm_Correct\<close> (\<open>kernel/memory/vmm.c\<close>): the bitmap of the dynamic window, its search (equal to first fit), allocation and release, when
    an allocation is granted, and what a failed one leaves behind.
  \<^item> \<open>Pinned_Memory\<close> (\<open>kernel/memory/pinned_memory.c\<close>): allocation and release of pinned blocks on top of both.

  \<^bold>\<open>Object allocators.\<close>
  \<^item> \<open>Tlsf\<close> (\<open>kernel/memory/tlsf.c\<close>): the two-level segregated fit; the size classes searched hold only blocks that fit, a granted block fits, and
    the range of requests for which the clamp of the last class breaks this.
  \<^item> \<open>Slab\<close> (\<open>kernel/memory/slab.c\<close>), \<open>Pool_Allocator\<close> (\<open>kernel/memory/pool_allocator.c\<close>), \<open>Ring_Buffer\<close> (\<open>kernel/memory/ring_buffer.c\<close>) and \<open>Arenas\<close> (\<open>kernel/memory/frame_arena.c\<close>,
    \<open>kernel/memory/stack_allocator.c\<close>), over the shared arithmetic of \<open>Slots\<close> and the memory functions of \<open>Libc_String\<close> (\<open>src/libc/string\<close>). The pool stays well
    formed under arbitrary use, a slab object returns to its own cache exactly when no other claims it, the ring is a
    first-in first-out queue, and the blocks of the bump allocators (locale \<open>bump_allocator\<close>) never overlap.
  \<^item> \<open>Heap\<close> (\<open>kernel/memory/heap.c\<close>): \<open>kmalloc\<close> and \<open>kfree\<close> with every path of both builds, on the memory they share with the frame
    allocator, the page tables, the slabs and the TLSF pool; a block of a size class goes back to where it came from, or is
    refused where the build leaves its canary unwritten. \<open>Heap_First_Fit\<close>: the address-ordered free list as a set of bytes; taking and
    releasing a block removes and adds exactly its bytes and keeps the list sorted, disjoint and counted.

  \<^bold>\<open>Queues and devices.\<close>
  \<^item> \<open>Fifo\<close> states the contract of a bounded queue (locale \<open>bounded_fifo\<close>) and the arithmetic of rings with free-running indices. \<open>Dialogue\<close>
    (\<open>kernel/dialogue/dialogue_channel.c\<close>), \<open>Ps2_Keyboard\<close> (\<open>arch/i386/drivers/ps2_keyboard.c\<close>, \<open>keyboard.c\<close>) and \<open>Ring_Buffer\<close> interpret it.
  \<^item> \<open>Ps2_Keyboard\<close>: the decoder's state is the set of keys that are down, characters come out in order, letter case follows shift
    and caps lock. \<open>Ps2_Mouse\<close> (\<open>arch/i386/drivers/ps2_mouse.c\<close>): packets survive stray bytes, and the controller exchange is bounded.
  \<^item> \<open>Hal_Audio\<close> (\<open>arch/i386/hal/hal_audio.c\<close>): the capture ring keeps the newest frames, and the limiter's ceiling holds for every gain.

  \<^bold>\<open>Policy.\<close>
  \<^item> \<open>Reconciler\<close> (\<open>kernel/memory/backpressure.c\<close>, \<open>kernel/core/reconciler.c\<close>): a pass reports exactly the violated invariants.
  \<^item> \<open>Boot_Module\<close> (\<open>arch/i386/boot/boot_module.c\<close>, \<open>kernel/ai/model_slot.c\<close>, \<open>kernel/ai/inference_budget.c\<close>): module lookup by name, the weights slot, the
    token budget.

  \<^bold>\<open>Loops and bounds.\<close> Loops with a counter are recursions over its range. The walks along free lists, the scan of the boot memory map,
  the string length and the carving of slab pages may run forever on arbitrary memory and are partial functions with an option result; the invariants give that they end.
  The waits of the mouse driver have the iteration limits of the code. No other fuel is used.

  \<^bold>\<open>Not modelled.\<close> Processor tables, interrupt entry, inter-processor start-up and timers, which are assembly and register programming; the
  ACPI, PCI, display, HD audio, VirtIO and serial drivers; the power modules; telemetry, reports and self tests, which are
  output; the C++ front ends, whose engines are separate repositories; floating point. Calls are atomic: preemption inside an
  operation, several processors in the same structure and the caches of the memory-management unit are outside the model
  (the flush of a translation is recorded as a request).
\<close>

end
